(* ===== verification/Prelude.thy ===== *)
theory Prelude
  imports Main "HOL-Library.Word"
begin

unbundle bit_operations_syntax

text \<open>
  What every component shares: the names of the machine types, the status codes of
  \<^verbatim>\<open>status.h\<close>, the constants of \<^verbatim>\<open>defines.h\<close>, arithmetic of
  \<^verbatim>\<open>size_t\<close>, copying into a block of memory, and the parameters that stand for the
  code of the submodule \<^verbatim>\<open>deps/pedrolib\<close> (integer serialisation and
  \<^verbatim>\<open>ArrayBuffer\<close>), together with the laws the repository relies on.
\<close>

section \<open>Machine types\<close>

type_synonym byte = "8 word"
type_synonym bytes = "8 word list"
type_synonym u8 = "8 word"
type_synonym u16 = "16 word"
type_synonym u32 = "32 word"
type_synonym u64 = "64 word"
type_synonym file_id = "32 word"
type_synonym path = "8 word list"

text \<open>Named collections: the laws of the external code, and the facts on byte blocks.\<close>

named_theorems pedrolib_laws "consequences of the laws of the pedrolib parameters"
named_theorems byte_simps "lengths and slices of blocks of bytes"

text \<open>A C++ string literal as bytes.\<close>

definition str :: "string \<Rightarrow> bytes" where
  "str s = map of_char s"

lemma length_str [simp]: "length (str s) = length s"
  by (simp add: str_def)

section \<open>Status codes\<close>

datatype status =
  kOk | kNotFound | kCorruption | kNotSupported | kInvalidArgument | kIOError

text \<open>
  The formatter indexes its table of messages with the number of the status; every status has a
  message of its own.
\<close>

primrec status_number :: "status \<Rightarrow> nat" where
  "status_number kOk = 0"
| "status_number kNotFound = 1"
| "status_number kCorruption = 2"
| "status_number kNotSupported = 3"
| "status_number kInvalidArgument = 4"
| "status_number kIOError = 5"

definition status_format :: "status \<Rightarrow> string" where
  "status_format status = [''ok'', ''not found'', ''corruption'', ''not support'',
     ''invalid argument'', ''io error''] ! status_number status"

lemma status_format_inject: "status_format a = status_format b \<longleftrightarrow> a = b"
  by (cases a; cases b) (simp_all add: status_format_def)

section \<open>Constants of defines.h\<close>

definition kMaxFileBytes :: nat where
  "kMaxFileBytes = 128 * 2 ^ 20"

definition kBlockSize :: nat where
  "kBlockSize = 512 * 2 ^ 10"

definition kPageSize :: nat where
  "kPageSize = 4 * 2 ^ 10"

text \<open>
  \<^verbatim>\<open>Hash\<close> truncates the standard library's 64 bit string hash, which is a parameter
  \<open>h\<close>, to 32 bits.
\<close>

definition hash32 :: "(bytes \<Rightarrow> u64) \<Rightarrow> bytes \<Rightarrow> u32" where
  "hash32 h s = ucast (h s)"

section \<open>Arithmetic of size\_t\<close>

text \<open>Unsigned 64 bit subtraction, with its wrap-around written out.\<close>

definition size_sub :: "nat \<Rightarrow> nat \<Rightarrow> nat" where
  "size_sub a b = (a + 2 ^ 64 - b mod 2 ^ 64) mod 2 ^ 64"

lemma size_sub_exact [simp]:
  assumes "b \<le> a" "a < 2 ^ 64"
  shows "size_sub a b = a - b"
proof -
  have "a + 2 ^ 64 - b mod 2 ^ 64 = (a - b) + 2 ^ 64" using assms by simp
  then show ?thesis using assms unfolding size_sub_def by (simp only: mod_add_self2) simp
qed

lemma size_sub_wraps:
  assumes "a < b" "b < 2 ^ 64"
  shows "size_sub a b = a + 2 ^ 64 - b"
  using assms by (simp add: size_sub_def)

lemma unat_of_nat32 [simp]: "n < 2 ^ 32 \<Longrightarrow> unat (of_nat n :: u32) = n"
  by (simp add: unat_of_nat take_bit_nat_eq_self)

lemma unat_of_nat8 [simp]: "n < 256 \<Longrightarrow> unat (of_nat n :: u8) = n"
  by (simp add: unat_of_nat take_bit_nat_eq_self)

lemma unat_of_nat16 [simp]: "n < 65536 \<Longrightarrow> unat (of_nat n :: u16) = n"
  by (simp add: unat_of_nat take_bit_nat_eq_self)

lemma unat_lt2p_aux: "unat (x :: 'a::len word) < 2 ^ LENGTH('a)"
  by (rule unsigned_less)

lemma unat_u32_bound [simp]: "unat (x :: u32) < 2 ^ 32"
  using unat_lt2p_aux [of x] by simp

lemma unat_u8_bound [simp]: "unat (x :: u8) < 256"
  using unat_lt2p_aux [of x] by simp

section \<open>Blocks of memory\<close>

text \<open>
  \<open>slice m off n\<close> reads \<open>n\<close> bytes at \<open>off\<close>; \<open>overwrite m off xs\<close> is
  \<^verbatim>\<open>memcpy(m + off, xs, size of xs)\<close>.
\<close>

definition slice :: "'a list \<Rightarrow> nat \<Rightarrow> nat \<Rightarrow> 'a list" where
  "slice m off n = take n (drop off m)"

definition overwrite :: "'a list \<Rightarrow> nat \<Rightarrow> 'a list \<Rightarrow> 'a list" where
  "overwrite m off xs = take off m @ xs @ drop (off + length xs) m"

lemma length_slice [byte_simps, simp]: "length (slice m off n) = min n (length m - off)"
  by (simp add: slice_def min.commute)

lemma length_overwrite [byte_simps, simp]:
  "off + length xs \<le> length m \<Longrightarrow> length (overwrite m off xs) = length m"
  by (simp add: overwrite_def)

lemma overwrite_Nil [simp]: "overwrite m off [] = m"
  by (simp add: overwrite_def)

lemma overwrite_append:
  assumes "off + length xs + length ys \<le> length m"
  shows "overwrite (overwrite m off xs) (off + length xs) ys = overwrite m off (xs @ ys)"
  using assms by (cases xs) (auto simp: overwrite_def min_def ac_simps)

lemma slice_overwrite_same:
  "off \<le> length m \<Longrightarrow> slice (overwrite m off xs) off (length xs) = xs"
  by (simp add: slice_def overwrite_def)

lemma slice_overwrite_before:
  "a + n \<le> off \<Longrightarrow> off \<le> length m \<Longrightarrow> slice (overwrite m off xs) a n = slice m a n"
  by (simp add: slice_def overwrite_def take_drop min_def add.commute)

lemma overwrite_prefix:
  assumes "length xs + length ys \<le> length m" and "take (length xs) m = xs"
  shows "overwrite m (length xs) ys = xs @ ys @ drop (length xs + length ys) m"
  using assms by (simp add: overwrite_def)

lemma overwrite_zeros:
  assumes "length ys \<le> n"
  shows "overwrite (xs @ replicate n z) (length xs) ys = xs @ ys @ replicate (n - length ys) z"
  using assms by (simp add: overwrite_def)

lemma slice_append_right [simp]: "slice (xs @ ys) (length xs) n = take n ys"
  by (simp add: slice_def)

lemma slice_all: "slice m 0 (length m) = m"
  by (simp add: slice_def)

lemma take_slice [byte_simps]: "take a (slice m off n) = slice m off (min a n)"
  by (simp add: slice_def min.commute)

lemma drop_slice [byte_simps]: "drop a (slice m off n) = slice m (off + a) (n - a)"
  by (simp add: slice_def drop_take add.commute)

lemma slice_slice [byte_simps]:
  "b + c \<le> n \<Longrightarrow> slice (slice m off n) b c = slice m (off + b) c"
  by (simp add: slice_def drop_take min_def add.commute)

lemma slice_append_slice:
  "slice m off a @ slice m (off + a) b = slice m off (a + b)"
  by (simp add: slice_def take_add add.commute)

lemma slice_0 [simp]: "slice m off 0 = []"
  by (simp add: slice_def)

end
