(* ===== verification/Pedrolib.thy ===== *)
theory Pedrolib
  imports Prelude
begin

text \<open>
  The parameters that stand for code outside \<^verbatim>\<open>src/\<close>. The submodule
  \<^verbatim>\<open>deps/pedrolib\<close> provides the integer serialisation (\<^verbatim>\<open>AppendInt\<close>,
  \<^verbatim>\<open>PeekInt\<close>, \<^verbatim>\<open>RetrieveInt\<close>) and the growable \<^verbatim>\<open>ArrayBuffer\<close>;
  their operations are the fields of a record, and \<open>pedrolib_ok\<close> states what the
  repository relies on. Snappy, \<^verbatim>\<open>std::hash\<close> and fmt are further parameters of the
  same record. The last section gives one concrete instance, which shows that the laws can hold.
\<close>

section \<open>The parameters\<close>

text \<open>
  \<open>enc\<close> and \<open>dec\<close> are the bytes that \<^verbatim>\<open>AppendInt\<close> appends and the value that
  \<^verbatim>\<open>PeekInt\<close> reads back, per width. \<open>ab_bytes\<close> is what an \<^verbatim>\<open>ArrayBuffer\<close>
  holds between its read and its write index; \<open>ab_slack n\<close> is the content of the
  writable bytes beyond the first \<open>n\<close> that a fresh buffer owns after
  \<^verbatim>\<open>EnsureWritable(n)\<close>.
\<close>

record 'a pedrolib =
  enc8 :: "u8 \<Rightarrow> bytes"
  dec8 :: "bytes \<Rightarrow> u8"
  enc16 :: "u16 \<Rightarrow> bytes"
  dec16 :: "bytes \<Rightarrow> u16"
  enc32 :: "u32 \<Rightarrow> bytes"
  dec32 :: "bytes \<Rightarrow> u32"
  ab_new :: 'a
  ab_bytes :: "'a \<Rightarrow> bytes"
  ab_append :: "'a \<Rightarrow> bytes \<Rightarrow> 'a"
  ab_retrieve :: "nat \<Rightarrow> 'a \<Rightarrow> 'a"
  ab_reset :: "'a \<Rightarrow> 'a"
  ab_slack :: "nat \<Rightarrow> bytes"
  std_hash :: "bytes \<Rightarrow> u64"
  std_hash_u64 :: "u64 \<Rightarrow> u64"
  snappy_compress :: "bytes \<Rightarrow> bytes"
  snappy_uncompress :: "bytes \<Rightarrow> bytes"
  fmt_u32 :: "u32 \<Rightarrow> bytes"

text \<open>
  Integers have the width of their type and read back as they were written, and a zero byte
  reads as zero.
\<close>

definition codec_ok :: "'a pedrolib \<Rightarrow> bool" where
  "codec_ok P \<longleftrightarrow>
     (\<forall>x. length (enc8 P x) = 1 \<and> dec8 P (enc8 P x) = x) \<and>
     (\<forall>x. length (enc16 P x) = 2 \<and> dec16 P (enc16 P x) = x) \<and>
     (\<forall>x. length (enc32 P x) = 4 \<and> dec32 P (enc32 P x) = x) \<and>
     dec8 P [0] = 0"

text \<open>An \<^verbatim>\<open>ArrayBuffer\<close> is a queue of bytes.\<close>

definition array_buffer_ok :: "'a pedrolib \<Rightarrow> bool" where
  "array_buffer_ok P \<longleftrightarrow>
     ab_bytes P (ab_new P) = [] \<and>
     (\<forall>b xs. ab_bytes P (ab_append P b xs) = ab_bytes P b @ xs) \<and>
     (\<forall>b n. ab_bytes P (ab_retrieve P n b) = drop n (ab_bytes P b)) \<and>
     (\<forall>b. ab_bytes P (ab_reset P b) = [])"

text \<open>
  What a fresh buffer holds beyond the bytes asked for reads as zeros.
\<close>

definition slack_ok :: "'a pedrolib \<Rightarrow> bool" where
  "slack_ok P \<longleftrightarrow> (\<forall>n. \<forall>b \<in> set (ab_slack P n). b = 0)"

definition snappy_ok :: "'a pedrolib \<Rightarrow> bool" where
  "snappy_ok P \<longleftrightarrow> (\<forall>v. snappy_uncompress P (snappy_compress P v) = v)"

definition fmt_ok :: "'a pedrolib \<Rightarrow> bool" where
  "fmt_ok P \<longleftrightarrow> inj (fmt_u32 P)"

definition pedrolib_ok :: "'a pedrolib \<Rightarrow> bool" where
  "pedrolib_ok P \<longleftrightarrow> codec_ok P \<and> array_buffer_ok P \<and> slack_ok P \<and> snappy_ok P \<and> fmt_ok P"

lemma pedrolib_codec [pedrolib_laws, simp]: "pedrolib_ok P \<Longrightarrow> codec_ok P"
  and pedrolib_abuf [pedrolib_laws, simp]: "pedrolib_ok P \<Longrightarrow> array_buffer_ok P"
  and pedrolib_slack [pedrolib_laws, simp]: "pedrolib_ok P \<Longrightarrow> slack_ok P"
  and pedrolib_snappy [pedrolib_laws, simp]: "pedrolib_ok P \<Longrightarrow> snappy_ok P"
  and pedrolib_fmt [pedrolib_laws, simp]: "pedrolib_ok P \<Longrightarrow> fmt_ok P"
  by (simp_all add: pedrolib_ok_def)

lemma codec_length [simp]:
  assumes "codec_ok P"
  shows "length (enc8 P a) = 1" "length (enc16 P b) = 2" "length (enc32 P c) = 4"
  using assms unfolding codec_ok_def by auto

lemma codec_dec [simp]:
  assumes "codec_ok P"
  shows "dec8 P (enc8 P a) = a" "dec16 P (enc16 P b) = b" "dec32 P (enc32 P c) = c"
  using assms unfolding codec_ok_def by auto

lemma codec_zero [simp]: "codec_ok P \<Longrightarrow> dec8 P [0] = 0"
  unfolding codec_ok_def by blast

text \<open>What a field at the front of a block reads as, when the block starts with its encoding.\<close>

lemma codec_take [simp]:
  assumes "codec_ok P"
  shows "take (Suc 0) (enc8 P a @ xs) = enc8 P a" "drop (Suc 0) (enc8 P a @ xs) = xs"
    "take 2 (enc16 P b @ xs) = enc16 P b" "drop 2 (enc16 P b @ xs) = xs"
    "take 4 (enc32 P c @ xs) = enc32 P c" "drop 4 (enc32 P c @ xs) = xs"
  using codec_length [OF assms] by simp_all

lemma array_buffer_laws [simp]:
  assumes "array_buffer_ok P"
  shows "ab_bytes P (ab_new P) = []"
    "ab_bytes P (ab_append P b xs) = ab_bytes P b @ xs"
    "ab_bytes P (ab_retrieve P n b) = drop n (ab_bytes P b)"
    "ab_bytes P (ab_reset P b) = []"
  using assms unfolding array_buffer_ok_def by auto

section \<open>Compression\<close>

text \<open>
  The wrappers of \<^verbatim>\<open>compress.cc\<close> around snappy, which store their result in
  \<^verbatim>\<open>*dst\<close>. The two overloads of each differ in the type of the source only, and the
  result of \<^verbatim>\<open>snappy::Uncompress\<close> is not looked at.
\<close>

definition Compress :: "'a pedrolib \<Rightarrow> bytes \<Rightarrow> bytes" where
  [simp]: "Compress P src = snappy_compress P src"

definition Uncompress :: "'a pedrolib \<Rightarrow> bytes \<Rightarrow> bytes" where
  [simp]: "Uncompress P src = snappy_uncompress P src"

section \<open>One instance of the parameters\<close>

text \<open>
  Big-endian integers (\<^verbatim>\<open>metadata_format.h\<close> uses \<^verbatim>\<open>pedrolib::htobe\<close>), an
  \<^verbatim>\<open>ArrayBuffer\<close> that is its byte queue, decimal digits, and a compressor that stores
  a length-free copy behind one header byte. It serves the witnesses only.
\<close>

definition be_enc :: "nat \<Rightarrow> nat \<Rightarrow> bytes" where
  "be_enc k n = map (\<lambda>i. of_nat (n div 256 ^ i)) (rev [0..<k])"

definition be_dec :: "bytes \<Rightarrow> nat" where
  "be_dec bs = foldl (\<lambda>acc b. acc * 256 + unat b) 0 bs"

lemma length_be_enc [simp]: "length (be_enc k n) = k"
  by (simp add: be_enc_def)

lemma be_enc_Suc: "be_enc (Suc k) n = be_enc k (n div 256) @ [of_nat n]"
proof -
  have "[0..<Suc k] = 0 # map Suc [0..<k]"
    by (simp add: map_Suc_upt upt_conv_Cons del: upt_Suc)
  then show ?thesis
    by (simp add: be_enc_def rev_map div_mult2_eq comp_def)
qed

lemma be_dec_snoc: "be_dec (bs @ [b]) = be_dec bs * 256 + unat b"
  by (simp add: be_dec_def)

lemma be_dec_enc: "be_dec (be_enc k n) = n mod 256 ^ k"
proof (induction k arbitrary: n)
  case 0
  show ?case by (simp add: be_enc_def be_dec_def)
next
  case (Suc k)
  have "be_dec (be_enc (Suc k) n) = (n div 256 mod 256 ^ k) * 256 + n mod 256"
    by (simp add: be_enc_Suc be_dec_snoc Suc.IH unat_of_nat take_bit_eq_mod)
  also have "\<dots> = n mod 256 ^ Suc k"
    by (simp add: mod_mult2_eq)
  finally show ?case .
qed

definition digits_u32 :: "u32 \<Rightarrow> bytes" where
  "digits_u32 x = map (\<lambda>i. of_nat (48 + unat x div 10 ^ i mod 10)) (rev [0..<10])"

definition list_pedrolib :: "bytes pedrolib" where
  "list_pedrolib = \<lparr>
     enc8 = (\<lambda>x. be_enc 1 (unat x)), dec8 = (\<lambda>b. of_nat (be_dec b)),
     enc16 = (\<lambda>x. be_enc 2 (unat x)), dec16 = (\<lambda>b. of_nat (be_dec b)),
     enc32 = (\<lambda>x. be_enc 4 (unat x)), dec32 = (\<lambda>b. of_nat (be_dec b)),
     ab_new = [], ab_bytes = id, ab_append = (@), ab_retrieve = drop, ab_reset = (\<lambda>_. []),
     ab_slack = (\<lambda>_. []),
     std_hash = (\<lambda>s. of_nat (be_dec s)), std_hash_u64 = (\<lambda>x. x),
     snappy_compress = (\<lambda>v. 255 # v), snappy_uncompress = tl,
     fmt_u32 = digits_u32 \<rparr>"

lemma be_dec_word:
  "be_dec (be_enc 1 (unat (a :: u8))) = unat a"
  "be_dec (be_enc 2 (unat (b :: u16))) = unat b"
  "be_dec (be_enc 4 (unat (c :: u32))) = unat c"
  using unat_lt2p_aux [of a] unat_lt2p_aux [of b] unat_lt2p_aux [of c]
  by (simp_all add: be_dec_enc)

lemma digits_determine:
  fixes m n :: nat
  assumes "\<And>i. i < k \<Longrightarrow> m div 10 ^ i mod 10 = n div 10 ^ i mod 10"
  shows "m mod 10 ^ k = n mod 10 ^ k"
  using assms
proof (induction k)
  case 0
  show ?case by simp
next
  case (Suc k)
  have "m mod 10 ^ Suc k = 10 ^ k * (m div 10 ^ k mod 10) + m mod 10 ^ k"
    by (simp add: mod_mult2_eq mult.commute [of 10])
  also have "\<dots> = 10 ^ k * (n div 10 ^ k mod 10) + n mod 10 ^ k"
    using Suc by simp
  also have "\<dots> = n mod 10 ^ Suc k"
    by (simp add: mod_mult2_eq mult.commute [of 10])
  finally show ?case .
qed

lemma digit_byte_inj:
  assumes "(of_nat (48 + m mod 10) :: u8) = of_nat (48 + n mod 10)"
  shows "m mod 10 = (n mod 10 :: nat)"
proof -
  have "m mod 10 < 10" "n mod 10 < 10" by simp_all
  then have "unat (of_nat (48 + m mod 10) :: u8) = 48 + m mod 10"
    "unat (of_nat (48 + n mod 10) :: u8) = 48 + n mod 10"
    by (simp_all del: of_nat_add)
  with assms show ?thesis by simp
qed

lemma digits_u32_inj: "inj digits_u32"
proof (rule injI)
  fix x y :: u32
  assume eq: "digits_u32 x = digits_u32 y"
  have "unat x mod 10 ^ 10 = unat y mod 10 ^ 10"
  proof (rule digits_determine)
    fix i :: nat
    assume "i < 10"
    with eq have "(of_nat (48 + unat x div 10 ^ i mod 10) :: u8)
        = of_nat (48 + unat y div 10 ^ i mod 10)"
      unfolding digits_u32_def by (simp only: map_eq_conv set_rev set_upt) (rule bspec, auto)
    then show "unat x div 10 ^ i mod 10 = unat y div 10 ^ i mod 10"
      by (rule digit_byte_inj)
  qed
  moreover have "unat x < 10 ^ 10" "unat y < 10 ^ 10"
    using unat_lt2p_aux [of x] unat_lt2p_aux [of y] by simp_all
  ultimately show "x = y" by (simp add: unsigned_word_eqI)
qed

lemma list_pedrolib_ok: "pedrolib_ok list_pedrolib"
proof -
  have "codec_ok list_pedrolib"
    using be_dec_word unfolding codec_ok_def list_pedrolib_def
    by (simp add: be_dec_def [of "[0]"])
  moreover have "array_buffer_ok list_pedrolib" "slack_ok list_pedrolib"
    "snappy_ok list_pedrolib" "fmt_ok list_pedrolib"
    by (simp_all add: array_buffer_ok_def slack_ok_def snappy_ok_def fmt_ok_def
        list_pedrolib_def digits_u32_inj)
  ultimately show ?thesis unfolding pedrolib_ok_def by blast
qed

end
