(* ===== verification/Buffers.thy ===== *)
theory Buffers
  imports Pedrolib
begin

text \<open>
  The buffers records are parsed from and packed into: \<^verbatim>\<open>ReadableBuffer\<close>
  (\<^verbatim>\<open>readable_file.h\<close>), \<^verbatim>\<open>ReadableView\<close> (\<^verbatim>\<open>read_cache.h\<close>),
  \<^verbatim>\<open>WritableBuffer\<close> (\<^verbatim>\<open>readwrite_file.h\<close>) and pedrolib's
  \<^verbatim>\<open>ArrayBuffer\<close>. The format classes are templates over the buffer; the model takes the
  operations of the buffer as a record. The locales \<open>readable_buffer\<close> and
  \<open>writable_buffer\<close> are the contracts the templates rely on.
\<close>

section \<open>The buffer as a template argument\<close>

record 'b rops =
  rb_readable :: "'b \<Rightarrow> nat"
  rb_bytes :: "'b \<Rightarrow> bytes"
  rb_retrieve :: "nat \<Rightarrow> 'b \<Rightarrow> 'b"

record 'b wops =
  wb_writable :: "'b \<Rightarrow> nat"
  wb_append :: "bytes \<Rightarrow> 'b \<Rightarrow> 'b option"

text \<open>
  pedrolib's \<^verbatim>\<open>PeekInt\<close> fails when the buffer holds too few bytes;
  \<^verbatim>\<open>RetrieveInt\<close> reads and consumes.
\<close>

definition peek8 :: "'a pedrolib \<Rightarrow> 'b rops \<Rightarrow> 'b \<Rightarrow> u8 option" where
  "peek8 P R b = (if rb_readable R b < 1 then None else Some (dec8 P (take 1 (rb_bytes R b))))"

definition get8 :: "'a pedrolib \<Rightarrow> 'b rops \<Rightarrow> 'b \<Rightarrow> u8 \<times> 'b" where
  "get8 P R b = (dec8 P (take 1 (rb_bytes R b)), rb_retrieve R 1 b)"

definition get16 :: "'a pedrolib \<Rightarrow> 'b rops \<Rightarrow> 'b \<Rightarrow> u16 \<times> 'b" where
  "get16 P R b = (dec16 P (take 2 (rb_bytes R b)), rb_retrieve R 2 b)"

definition get32 :: "'a pedrolib \<Rightarrow> 'b rops \<Rightarrow> 'b \<Rightarrow> u32 \<times> 'b" where
  "get32 P R b = (dec32 P (take 4 (rb_bytes R b)), rb_retrieve R 4 b)"

section \<open>The contract of a readable buffer\<close>

locale readable_buffer =
  fixes R :: "'b rops" and inv :: "'b \<Rightarrow> bool"
  assumes readable_length: "inv b \<Longrightarrow> rb_readable R b = length (rb_bytes R b)"
    and bytes_retrieve:
      "inv b \<Longrightarrow> n \<le> rb_readable R b \<Longrightarrow> rb_bytes R (rb_retrieve R n b) = drop n (rb_bytes R b)"
    and inv_retrieve: "inv b \<Longrightarrow> n \<le> rb_readable R b \<Longrightarrow> inv (rb_retrieve R n b)"
begin

lemma peek8_bytes:
  "inv b \<Longrightarrow> peek8 P R b
     = (if rb_bytes R b = [] then None else Some (dec8 P (take 1 (rb_bytes R b))))"
  by (auto simp: peek8_def readable_length)

lemma readable_retrieve:
  "inv b \<Longrightarrow> n \<le> length (rb_bytes R b)
     \<Longrightarrow> rb_readable R (rb_retrieve R n b) = length (rb_bytes R b) - n"
  by (simp add: readable_length bytes_retrieve inv_retrieve)

lemma retrieve_ok:
  "inv b \<Longrightarrow> n \<le> length (rb_bytes R b) \<Longrightarrow> inv (rb_retrieve R n b)"
  "inv b \<Longrightarrow> n \<le> length (rb_bytes R b) \<Longrightarrow> rb_bytes R (rb_retrieve R n b) = drop n (rb_bytes R b)"
  by (simp_all add: readable_length bytes_retrieve inv_retrieve)

lemma get_ok:
  assumes "inv b"
  shows "1 \<le> length (rb_bytes R b) \<Longrightarrow> \<exists>b'. get8 P R b = (dec8 P (take 1 (rb_bytes R b)), b')
           \<and> inv b' \<and> rb_bytes R b' = drop 1 (rb_bytes R b)"
    and "2 \<le> length (rb_bytes R b) \<Longrightarrow> \<exists>b'. get16 P R b = (dec16 P (take 2 (rb_bytes R b)), b')
           \<and> inv b' \<and> rb_bytes R b' = drop 2 (rb_bytes R b)"
    and "4 \<le> length (rb_bytes R b) \<Longrightarrow> \<exists>b'. get32 P R b = (dec32 P (take 4 (rb_bytes R b)), b')
           \<and> inv b' \<and> rb_bytes R b' = drop 4 (rb_bytes R b)"
  using assms by (simp_all add: get8_def get16_def get32_def retrieve_ok)

end

section \<open>The contract of a writable buffer\<close>

text \<open>
  \<open>written b\<close> is what has been appended so far. An append that fits succeeds; one
  that does not may write outside the block, which the model reports as \<open>None\<close>.
\<close>

locale writable_buffer =
  fixes W :: "'b wops" and inv :: "'b \<Rightarrow> bool" and written :: "'b \<Rightarrow> bytes"
  assumes append_fits: "inv b \<Longrightarrow> length xs \<le> wb_writable W b \<Longrightarrow>
      \<exists>b'. wb_append W xs b = Some b' \<and> inv b' \<and> written b' = written b @ xs
         \<and> wb_writable W b' = wb_writable W b - length xs"

section \<open>ReadableBuffer (readable\_file.h)\<close>

record readable_buffer_t =
  rdb_data :: bytes
  rdb_read_index :: nat
  rdb_capacity :: nat

definition readable_buffer_new :: "bytes \<Rightarrow> nat \<Rightarrow> readable_buffer_t" where
  "readable_buffer_new data capacity =
     \<lparr>rdb_data = data, rdb_read_index = 0, rdb_capacity = capacity\<rparr>"

definition rdb_ReadIndex :: "readable_buffer_t \<Rightarrow> bytes" where
  "rdb_ReadIndex b = drop (rdb_read_index b) (rdb_data b)"

definition rdb_SetReadOffset :: "nat \<Rightarrow> readable_buffer_t \<Rightarrow> readable_buffer_t" where
  "rdb_SetReadOffset off b = b\<lparr>rdb_read_index := off\<rparr>"

definition rdb_GetReadOffset :: "readable_buffer_t \<Rightarrow> nat" where
  "rdb_GetReadOffset b = rdb_read_index b"

definition rdb_ReadableBytes :: "readable_buffer_t \<Rightarrow> nat" where
  "rdb_ReadableBytes b = size_sub (rdb_capacity b) (rdb_read_index b)"

definition rdb_Retrieve :: "nat \<Rightarrow> readable_buffer_t \<Rightarrow> readable_buffer_t" where
  "rdb_Retrieve n b = b\<lparr>rdb_read_index := rdb_read_index b + n\<rparr>"

definition rdb_ops :: "readable_buffer_t rops" where
  "rdb_ops = \<lparr>rb_readable = rdb_ReadableBytes,
     rb_bytes = (\<lambda>b. take (rdb_ReadableBytes b) (rdb_ReadIndex b)), rb_retrieve = rdb_Retrieve\<rparr>"

definition rdb_inv :: "readable_buffer_t \<Rightarrow> bool" where
  "rdb_inv b \<longleftrightarrow> rdb_read_index b \<le> rdb_capacity b \<and> rdb_capacity b \<le> length (rdb_data b)
     \<and> rdb_capacity b < 2 ^ 64"

interpretation rdb: readable_buffer rdb_ops rdb_inv
  by unfold_locales
    (auto simp: rdb_ops_def rdb_inv_def rdb_ReadableBytes_def rdb_Retrieve_def rdb_ReadIndex_def
      drop_take add.commute)

lemma rdb_new [simp]:
  assumes "length data < 2 ^ 64"
  shows "rdb_inv (readable_buffer_new data (length data))"
    and "rb_bytes rdb_ops (readable_buffer_new data (length data)) = data"
  using assms by (simp_all add: rdb_inv_def readable_buffer_new_def rdb_ops_def
      rdb_ReadableBytes_def rdb_ReadIndex_def)

section \<open>ReadableView (read\_cache.h)\<close>

record readable_view =
  rv_buf :: bytes
  rv_read_index :: nat
  rv_write_index :: nat

definition readable_view_new :: "bytes \<Rightarrow> nat \<Rightarrow> readable_view" where
  "readable_view_new buf n = \<lparr>rv_buf = buf, rv_read_index = 0, rv_write_index = n\<rparr>"

definition rv_ReadableBytes :: "readable_view \<Rightarrow> nat" where
  "rv_ReadableBytes b = size_sub (rv_write_index b) (rv_read_index b)"

definition rv_ReadIndex :: "readable_view \<Rightarrow> bytes" where
  "rv_ReadIndex b = drop (rv_read_index b) (rv_buf b)"

definition rv_Retrieve :: "nat \<Rightarrow> readable_view \<Rightarrow> readable_view" where
  "rv_Retrieve n b = b\<lparr>rv_read_index := rv_read_index b + n\<rparr>"

definition rv_ops :: "readable_view rops" where
  "rv_ops = \<lparr>rb_readable = rv_ReadableBytes,
     rb_bytes = (\<lambda>b. take (rv_ReadableBytes b) (rv_ReadIndex b)), rb_retrieve = rv_Retrieve\<rparr>"

definition rv_inv :: "readable_view \<Rightarrow> bool" where
  "rv_inv b \<longleftrightarrow> rv_read_index b \<le> rv_write_index b \<and> rv_write_index b \<le> length (rv_buf b)
     \<and> rv_write_index b < 2 ^ 64"

interpretation rv: readable_buffer rv_ops rv_inv
  by unfold_locales
    (auto simp: rv_ops_def rv_inv_def rv_ReadableBytes_def rv_Retrieve_def rv_ReadIndex_def
      drop_take add.commute)

lemma rv_new [simp]:
  assumes "length buf < 2 ^ 64"
  shows "rv_inv (readable_view_new buf (length buf))"
    and "rb_bytes rv_ops (readable_view_new buf (length buf)) = buf"
  using assms by (simp_all add: rv_inv_def readable_view_new_def rv_ops_def
      rv_ReadableBytes_def rv_ReadIndex_def)

section \<open>ArrayBuffer (pedrolib)\<close>

definition ab_rops :: "'a pedrolib \<Rightarrow> 'a rops" where
  "ab_rops P = \<lparr>rb_readable = (\<lambda>b. length (ab_bytes P b)), rb_bytes = ab_bytes P,
     rb_retrieve = ab_retrieve P\<rparr>"

lemma ab_rops_simps [simp]:
  "rb_readable (ab_rops P) b = length (ab_bytes P b)"
  "rb_bytes (ab_rops P) = ab_bytes P"
  "rb_retrieve (ab_rops P) = ab_retrieve P"
  by (simp_all add: ab_rops_def)

lemma array_buffer_readable:
  "array_buffer_ok P \<Longrightarrow> readable_buffer (ab_rops P) (\<lambda>_. True)"
  by unfold_locales simp_all

section \<open>WritableBuffer (readwrite\_file.h)\<close>

text \<open>
  The buffer points into a mapped file: \<open>wbf_mem\<close> is the whole mapping and
  \<open>wbf_data\<close> the position of \<^verbatim>\<open>data_\<close> in it (\<open>None\<close> for
  \<^verbatim>\<open>nullptr\<close>). Writing outside the mapping is \<open>None\<close>.
\<close>

record writable_buffer_t =
  wbf_mem :: bytes
  wbf_data :: "nat option"
  wbf_write_index :: nat
  wbf_capacity :: nat
  wbf_offset :: nat

definition writable_buffer_new :: "bytes \<Rightarrow> nat option \<Rightarrow> nat \<Rightarrow> nat \<Rightarrow> writable_buffer_t" where
  "writable_buffer_new mem data capacity off =
     \<lparr>wbf_mem = mem, wbf_data = data, wbf_write_index = 0, wbf_capacity = capacity,
      wbf_offset = off\<rparr>"

definition wbf_WritableBytes :: "writable_buffer_t \<Rightarrow> nat" where
  "wbf_WritableBytes b = size_sub (wbf_capacity b) (wbf_write_index b)"

definition wbf_Append :: "bytes \<Rightarrow> writable_buffer_t \<Rightarrow> writable_buffer_t option" where
  "wbf_Append xs b =
     (case wbf_data b of
        None \<Rightarrow> None
      | Some d \<Rightarrow>
          if d + wbf_write_index b + length xs \<le> length (wbf_mem b)
          then Some (b\<lparr>wbf_mem := overwrite (wbf_mem b) (d + wbf_write_index b) xs,
                       wbf_write_index := wbf_write_index b + length xs\<rparr>)
          else None)"

definition wbf_Skip :: "nat \<Rightarrow> writable_buffer_t \<Rightarrow> writable_buffer_t" where
  "wbf_Skip n b = b\<lparr>wbf_write_index := wbf_write_index b + n\<rparr>"

definition wbf_GetOffset :: "writable_buffer_t \<Rightarrow> nat" where
  "wbf_GetOffset b = wbf_offset b"

definition wbf_ops :: "writable_buffer_t wops" where
  "wbf_ops = \<lparr>wb_writable = wbf_WritableBytes, wb_append = wbf_Append\<rparr>"

text \<open>
  \<open>wbf_inv m d off\<close>: the buffer was made over the mapping \<open>m\<close> at position
  \<open>d\<close> with the offset \<open>off\<close>, and only the bytes written so far differ from \<open>m\<close>.
\<close>

definition wbf_written :: "writable_buffer_t \<Rightarrow> bytes" where
  "wbf_written b = slice (wbf_mem b) (the (wbf_data b)) (wbf_write_index b)"

definition wbf_inv :: "bytes \<Rightarrow> nat \<Rightarrow> nat \<Rightarrow> writable_buffer_t \<Rightarrow> bool" where
  "wbf_inv m d off b \<longleftrightarrow> wbf_data b = Some d \<and> wbf_offset b = off \<and> wbf_write_index b \<le> wbf_capacity b
     \<and> d + wbf_capacity b \<le> length m \<and> wbf_capacity b < 2 ^ 64
     \<and> wbf_mem b = overwrite m d (wbf_written b)
     \<and> length (wbf_written b) = wbf_write_index b"

lemma wbf_Append_fits:
  assumes inv: "wbf_inv m d off b" and fits: "length xs \<le> wbf_WritableBytes b"
  shows "\<exists>b'. wbf_Append xs b = Some b' \<and> wbf_inv m d off b' \<and> wbf_written b' = wbf_written b @ xs
     \<and> wbf_WritableBytes b' = wbf_WritableBytes b - length xs"
proof -
  let ?w = "wbf_written b" and ?b = "b\<lparr>wbf_mem := overwrite (wbf_mem b) (d + wbf_write_index b) xs,
    wbf_write_index := wbf_write_index b + length xs\<rparr>"
  from inv have d: "wbf_data b = Some d" "wbf_offset b = off" and wi: "wbf_write_index b \<le> wbf_capacity b"
    and cap: "d + wbf_capacity b \<le> length m" "wbf_capacity b < 2 ^ 64"
    and mem: "wbf_mem b = overwrite m d ?w" and len: "length ?w = wbf_write_index b"
    by (simp_all add: wbf_inv_def)
  have room: "wbf_write_index b + length xs \<le> wbf_capacity b"
    using fits wi cap by (simp add: wbf_WritableBytes_def)
  have bound: "d + length (?w @ xs) \<le> length m" using room cap len by simp
  have lm: "length (wbf_mem b) = length m"
    unfolding mem by (rule length_overwrite) (use bound in simp)
  have mem': "overwrite (wbf_mem b) (d + wbf_write_index b) xs = overwrite m d (?w @ xs)"
    unfolding mem len [symmetric] by (rule overwrite_append) (use bound in simp)
  have "wbf_written ?b
      = slice (overwrite (wbf_mem b) (d + wbf_write_index b) xs) d (length (?w @ xs))"
    unfolding wbf_written_def [of ?b] by (simp add: d len)
  also have "\<dots> = slice (overwrite m d (?w @ xs)) d (length (?w @ xs))"
    by (simp only: mem')
  finally have w': "wbf_written ?b = ?w @ xs"
    using slice_overwrite_same [of d m "?w @ xs"] bound by simp
  have "wbf_Append xs b = Some ?b"
    using d room cap lm by (simp add: wbf_Append_def)
  moreover have "wbf_inv m d off ?b"
    unfolding wbf_inv_def w' using d room cap mem' len by simp
  ultimately show ?thesis
    using w' room wi cap by (auto simp: wbf_WritableBytes_def)
qed

interpretation wbf: writable_buffer wbf_ops "wbf_inv m d off" wbf_written for m d off
  by unfold_locales (use wbf_Append_fits in \<open>simp add: wbf_ops_def\<close>)

lemma wbf_new:
  assumes "d + n \<le> length m" "n < 2 ^ 64"
  shows "wbf_inv m d off (writable_buffer_new m (Some d) n off)"
    and "wbf_written (writable_buffer_new m (Some d) n off) = []"
    and "wbf_WritableBytes (writable_buffer_new m (Some d) n off) = n"
  using assms by (simp_all add: wbf_inv_def wbf_written_def writable_buffer_new_def
      wbf_WritableBytes_def)

end
