(* ===== verification/MetadataFormat.thy ===== *)
theory MetadataFormat
  imports Buffers
begin

text \<open>
  \<^verbatim>\<open>include/pedrodb/format/metadata_format.h\<close>: the header of the metadata file (the
  name of the database) and the log entries that record the creation and deletion of data
  files, with their round trips.
\<close>

section \<open>Header\<close>

definition meta_header_sizeof :: "nat \<Rightarrow> nat" where
  "meta_header_sizeof name_length = 2 + name_length"

text \<open>\<^verbatim>\<open>Header::UnPack\<close> returns the name; \<^verbatim>\<open>Pack\<close> stores its length in 16 bits.\<close>

definition meta_header_unpack :: "'a pedrolib \<Rightarrow> 'b rops \<Rightarrow> 'b \<Rightarrow> (bytes \<times> 'b) option" where
  "meta_header_unpack P R b =
     (if rb_readable R b < meta_header_sizeof 0 then None
      else
        let (len, b) = get16 P R b
        in if rb_readable R b < unat len then None
           else Some (take (unat len) (rb_bytes R b), rb_retrieve R (unat len) b))"

definition meta_header_pack :: "'a pedrolib \<Rightarrow> bytes \<Rightarrow> 'a \<Rightarrow> 'a" where
  "meta_header_pack P name b =
     (let b = ab_append P b (enc16 P (of_nat (length name))) in ab_append P b name)"

definition meta_header_bytes :: "'a pedrolib \<Rightarrow> bytes \<Rightarrow> bytes" where
  "meta_header_bytes P name = enc16 P (of_nat (length name)) @ name"

lemma meta_header_pack_bytes [simp]:
  "array_buffer_ok P
     \<Longrightarrow> ab_bytes P (meta_header_pack P name b) = ab_bytes P b @ meta_header_bytes P name"
  by (simp add: meta_header_pack_def meta_header_bytes_def Let_def)

section \<open>Log entries\<close>

datatype log_type = kCreateFile | kDeleteFile | kUnnamedLog u8

definition log_type_u8 :: "log_type \<Rightarrow> u8" where
  "log_type_u8 t = (case t of kCreateFile \<Rightarrow> 0 | kDeleteFile \<Rightarrow> 1 | kUnnamedLog w \<Rightarrow> w)"

definition log_type_of_u8 :: "u8 \<Rightarrow> log_type" where
  "log_type_of_u8 w = (if w = 0 then kCreateFile else if w = 1 then kDeleteFile
     else kUnnamedLog w)"

record log_entry =
  le_type :: log_type
  le_id :: file_id

definition log_entry_sizeof :: nat where
  "log_entry_sizeof = 1 + 4"

definition log_entry_unpack :: "'a pedrolib \<Rightarrow> 'b rops \<Rightarrow> 'b \<Rightarrow> (log_entry \<times> 'b) option" where
  "log_entry_unpack P R b =
     (if rb_readable R b < log_entry_sizeof then None
      else
        let (u8_type, b) = get8 P R b; (id, b) = get32 P R b
        in Some (\<lparr>le_type = log_type_of_u8 u8_type, le_id = id\<rparr>, b))"

definition log_entry_pack :: "'a pedrolib \<Rightarrow> log_entry \<Rightarrow> 'a \<Rightarrow> 'a" where
  "log_entry_pack P e b =
     (let b = ab_append P b (enc8 P (log_type_u8 (le_type e))) in ab_append P b (enc32 P (le_id e)))"

definition log_entry_bytes :: "'a pedrolib \<Rightarrow> log_entry \<Rightarrow> bytes" where
  "log_entry_bytes P e = enc8 P (log_type_u8 (le_type e)) @ enc32 P (le_id e)"

definition log_entry_wf :: "log_entry \<Rightarrow> bool" where
  "log_entry_wf e \<longleftrightarrow> le_type e \<in> {kCreateFile, kDeleteFile}"

lemma log_entry_pack_bytes [simp]:
  "array_buffer_ok P \<Longrightarrow> ab_bytes P (log_entry_pack P e b) = ab_bytes P b @ log_entry_bytes P e"
  by (simp add: log_entry_pack_def log_entry_bytes_def Let_def)

lemma length_log_entry_bytes [simp]: "codec_ok P \<Longrightarrow> length (log_entry_bytes P e) = 5"
  by (simp add: log_entry_bytes_def)

lemma length_meta_header_bytes [simp]:
  "codec_ok P \<Longrightarrow> length (meta_header_bytes P name) = 2 + length name"
  by (simp add: meta_header_bytes_def)

context readable_buffer begin

lemma meta_header_unpack_bytes:
  assumes P: "codec_ok P" and b: "inv b" "rb_bytes R b = meta_header_bytes P name @ rest"
    and name: "length name < 65536"
  shows "\<exists>b'. meta_header_unpack P R b = Some (name, b') \<and> inv b' \<and> rb_bytes R b' = rest"
proof -
  have len: "length (rb_bytes R b) = 2 + length name + length rest" using P b by simp
  obtain b1 where b1: "get16 P R b = (of_nat (length name), b1)" "inv b1"
    "rb_bytes R b1 = name @ rest"
    using get_ok(2) [OF b(1), of P] P b len by (auto simp: meta_header_bytes_def)
  then show ?thesis
    using b len name
    by (simp add: meta_header_unpack_def meta_header_sizeof_def readable_length retrieve_ok)
qed

lemma log_entry_unpack_bytes:
  assumes P: "codec_ok P" and b: "inv b" "rb_bytes R b = log_entry_bytes P e @ rest"
    and e: "log_entry_wf e"
  shows "\<exists>b'. log_entry_unpack P R b = Some (e, b') \<and> inv b' \<and> rb_bytes R b' = rest"
proof -
  have len: "length (rb_bytes R b) = 5 + length rest" using P b by simp
  have t: "log_type_of_u8 (log_type_u8 (le_type e)) = le_type e"
    using e by (auto simp: log_entry_wf_def log_type_of_u8_def log_type_u8_def)
  obtain b1 where b1: "get8 P R b = (log_type_u8 (le_type e), b1)" "inv b1"
    "rb_bytes R b1 = enc32 P (le_id e) @ rest"
    using get_ok(1) [OF b(1), of P] P b len by (auto simp: log_entry_bytes_def)
  obtain b2 where "get32 P R b1 = (le_id e, b2)" "inv b2" "rb_bytes R b2 = rest"
    using get_ok(3) [OF b1(2), of P] P b1 by auto
  with b1 show ?thesis
    using b len t by (simp add: log_entry_unpack_def log_entry_sizeof_def readable_length)
qed

end

end
