(* ===== verification/RecordFormat.thy ===== *)
theory RecordFormat
  imports Buffers "HOL-Library.Monad_Syntax"
begin

text \<open>
  \<^verbatim>\<open>include/pedrodb/format/record_format.h\<close>: the header and the entry of a data
  record with their \<^verbatim>\<open>Pack\<close> and \<^verbatim>\<open>UnPack\<close>, the checksum, locations and
  directory entries. The templates are modelled over the operations of any buffer; the lemmas
  are proved once, inside the buffer locales: packing appends the bytes of the record
  (\<open>rec_bytes\<close>), and unpacking a buffer that starts with them returns the record.
\<close>

section \<open>Record types\<close>

text \<open>
  \<^verbatim>\<open>enum class Type\<close> is cast from a byte, so it can hold values that no enumerator
  names.
\<close>

datatype rec_type = kEmpty | kSet | kDelete | kUnnamed u8

definition type_u8 :: "rec_type \<Rightarrow> u8" where
  "type_u8 t = (case t of kEmpty \<Rightarrow> 0 | kSet \<Rightarrow> 1 | kDelete \<Rightarrow> 2 | kUnnamed w \<Rightarrow> w)"

definition type_of_u8 :: "u8 \<Rightarrow> rec_type" where
  "type_of_u8 w = (if w = 0 then kEmpty else if w = 1 then kSet else if w = 2 then kDelete
     else kUnnamed w)"

lemma type_u8_of_u8 [simp]: "type_u8 (type_of_u8 w) = w"
  by (simp add: type_of_u8_def type_u8_def)

lemma type_of_u8_known [simp]:
  "type_of_u8 (type_u8 kEmpty) = kEmpty" "type_of_u8 (type_u8 kSet) = kSet"
  "type_of_u8 (type_u8 kDelete) = kDelete"
  by (simp_all add: type_of_u8_def type_u8_def)

section \<open>Header\<close>

record rec_header =
  rh_checksum :: u32
  rh_type :: rec_type
  rh_key_size :: u8
  rh_value_size :: u32
  rh_timestamp :: u32

definition header_sizeof :: nat where
  "header_sizeof = 1 + 4 + 1 + 4 + 4"

lemma header_sizeof_14 [simp]: "header_sizeof = 14"
  by (simp add: header_sizeof_def)

definition header_unpack :: "'a pedrolib \<Rightarrow> 'b rops \<Rightarrow> 'b \<Rightarrow> (rec_header \<times> 'b) option" where
  "header_unpack P R b =
     (if rb_readable R b < header_sizeof then None
      else case peek8 P R b of
        None \<Rightarrow> None
      | Some u8_type \<Rightarrow>
          if u8_type = type_u8 kEmpty then None
          else
            let (u8_type, b) = get8 P R b;
                (checksum, b) = get32 P R b;
                (key_size, b) = get8 P R b;
                (value_size, b) = get32 P R b;
                (timestamp, b) = get32 P R b
            in Some (\<lparr>rh_checksum = checksum, rh_type = type_of_u8 u8_type,
                      rh_key_size = key_size, rh_value_size = value_size,
                      rh_timestamp = timestamp\<rparr>, b))"

definition header_pack ::
    "'a pedrolib \<Rightarrow> 'b wops \<Rightarrow> rec_header \<Rightarrow> 'b \<Rightarrow> (bool \<times> 'b) option" where
  "header_pack P W h b =
     (if wb_writable W b < header_sizeof then Some (False, b)
      else do {
        b \<leftarrow> wb_append W (enc8 P (type_u8 (rh_type h))) b;
        b \<leftarrow> wb_append W (enc32 P (rh_checksum h)) b;
        b \<leftarrow> wb_append W (enc8 P (rh_key_size h)) b;
        b \<leftarrow> wb_append W (enc32 P (rh_value_size h)) b;
        b \<leftarrow> wb_append W (enc32 P (rh_timestamp h)) b;
        Some (True, b)
      })"

section \<open>Entry\<close>

record rec_entry =
  re_checksum :: u32
  re_type :: rec_type
  re_key :: bytes
  re_value :: bytes
  re_timestamp :: u32

text \<open>\<^verbatim>\<open>Checksum\<close>: the truncated hashes of value and key, exclusive-or.\<close>

definition rec_checksum :: "'a pedrolib \<Rightarrow> bytes \<Rightarrow> bytes \<Rightarrow> u32" where
  "rec_checksum P k v = hash32 (std_hash P) v XOR hash32 (std_hash P) k"

definition rec_validate :: "'a pedrolib \<Rightarrow> rec_entry \<Rightarrow> bool" where
  "rec_validate P e \<longleftrightarrow> re_checksum e = rec_checksum P (re_key e) (re_value e)"

text \<open>\<^verbatim>\<open>SizeOf\<close> returns \<^verbatim>\<open>uint32_t\<close>: the sum is truncated.\<close>

definition rec_sizeof :: "rec_entry \<Rightarrow> u32" where
  "rec_sizeof e = of_nat (header_sizeof + length (re_key e) + length (re_value e))"

text \<open>
  The outcome of unpacking: no entry, a read outside the buffer (the sum of the two sizes is
  taken in 32 bits, so it can pass the check and still exceed the buffer), or an entry.
\<close>

datatype 'r unpacked = NoEntry | Overrun | Got 'r

definition rec_unpack :: "'a pedrolib \<Rightarrow> 'b rops \<Rightarrow> 'b \<Rightarrow> (rec_entry \<times> 'b) unpacked" where
  "rec_unpack P R b =
     (case header_unpack P R b of
        None \<Rightarrow> NoEntry
      | Some (h, b) \<Rightarrow>
          if rb_readable R b < unat (ucast (rh_key_size h) + rh_value_size h :: u32) then NoEntry
          else if rb_readable R b < unat (rh_key_size h) + unat (rh_value_size h) then Overrun
          else
            let key = take (unat (rh_key_size h)) (rb_bytes R b);
                b = rb_retrieve R (unat (rh_key_size h)) b;
                val = take (unat (rh_value_size h)) (rb_bytes R b);
                b = rb_retrieve R (unat (rh_value_size h)) b
            in Got (\<lparr>re_checksum = rh_checksum h, re_type = rh_type h, re_key = key,
                     re_value = val, re_timestamp = rh_timestamp h\<rparr>, b))"

definition rec_header_of :: "rec_entry \<Rightarrow> rec_header" where
  "rec_header_of e = \<lparr>rh_checksum = re_checksum e, rh_type = re_type e,
     rh_key_size = of_nat (length (re_key e)), rh_value_size = of_nat (length (re_value e)),
     rh_timestamp = re_timestamp e\<rparr>"

definition rec_pack :: "'a pedrolib \<Rightarrow> 'b wops \<Rightarrow> rec_entry \<Rightarrow> 'b \<Rightarrow> (bool \<times> 'b) option" where
  "rec_pack P W e b =
     (if wb_writable W b < unat (rec_sizeof e) then Some (False, b)
      else do {
        (_, b) \<leftarrow> header_pack P W (rec_header_of e) b;
        b \<leftarrow> wb_append W (re_key e) b;
        b \<leftarrow> wb_append W (re_value e) b;
        Some (True, b)
      })"

section \<open>The bytes of a record\<close>

definition header_bytes :: "'a pedrolib \<Rightarrow> rec_header \<Rightarrow> bytes" where
  "header_bytes P h = enc8 P (type_u8 (rh_type h)) @ enc32 P (rh_checksum h)
     @ enc8 P (rh_key_size h) @ enc32 P (rh_value_size h) @ enc32 P (rh_timestamp h)"

definition rec_bytes :: "'a pedrolib \<Rightarrow> rec_entry \<Rightarrow> bytes" where
  "rec_bytes P e = header_bytes P (rec_header_of e) @ re_key e @ re_value e"

definition rec_size :: "rec_entry \<Rightarrow> nat" where
  "rec_size e = 14 + length (re_key e) + length (re_value e)"

text \<open>
  The records whose sizes their header can express: key sizes are stored in one byte, value
  sizes and the size of the whole record in 32 bits, and type 0 means that no record follows.
\<close>

definition rec_wf :: "rec_entry \<Rightarrow> bool" where
  "rec_wf e \<longleftrightarrow> re_type e \<in> {kSet, kDelete} \<and> length (re_key e) < 256 \<and> rec_size e < 2 ^ 32"

lemma length_header_bytes [simp]: "codec_ok P \<Longrightarrow> length (header_bytes P h) = 14"
  by (simp add: header_bytes_def)

lemma length_rec_bytes [simp]: "codec_ok P \<Longrightarrow> length (rec_bytes P e) = rec_size e"
  by (simp add: rec_bytes_def rec_size_def)

lemma rec_size_pos [simp]: "0 < rec_size e" "14 \<le> rec_size e"
  by (simp_all add: rec_size_def)

lemma rec_sizeof_of_nat: "rec_sizeof e = of_nat (rec_size e)"
  by (simp only: rec_sizeof_def rec_size_def header_sizeof_14)

lemma rec_sizeof_exact [simp]: "rec_size e < 2 ^ 32 \<Longrightarrow> unat (rec_sizeof e) = rec_size e"
  by (simp add: rec_sizeof_of_nat)

lemma rec_sizeof_mod: "unat (rec_sizeof e) = rec_size e mod 2 ^ 32"
  by (simp add: rec_sizeof_of_nat unat_of_nat take_bit_eq_mod)

lemma rec_wf_sizes [simp]:
  assumes "rec_wf e"
  shows "unat (of_nat (length (re_key e)) :: u8) = length (re_key e)"
    and "unat (of_nat (length (re_value e)) :: u32) = length (re_value e)"
    and "unat (rec_sizeof e) = rec_size e"
  using assms by (simp_all add: rec_wf_def rec_size_def)

lemma rec_wf_sum:
  assumes "rec_wf e"
  shows "unat (ucast (of_nat (length (re_key e)) :: u8) + of_nat (length (re_value e)) :: u32)
     = length (re_key e) + length (re_value e)"
proof -
  have "unat (ucast (of_nat (length (re_key e)) :: u8) :: u32)
      = unat (of_nat (length (re_key e)) :: u32)"
    using assms by (simp add: rec_wf_def unsigned_ucast_eq take_bit_nat_eq_self)
  then have "(ucast (of_nat (length (re_key e)) :: u8) :: u32) = of_nat (length (re_key e))"
    by (rule unsigned_word_eqI)
  then show ?thesis
    using assms by (simp add: rec_wf_def rec_size_def flip: of_nat_add)
qed

section \<open>Packing and unpacking any buffer\<close>

context writable_buffer begin

lemma append_packs:
  assumes "inv b" "length xs \<le> wb_writable W b"
    and "\<And>b1. inv b1 \<Longrightarrow> written b1 = written b @ xs
           \<Longrightarrow> wb_writable W b1 = wb_writable W b - length xs
           \<Longrightarrow> \<exists>b'. f b1 = Some (True, b') \<and> inv b' \<and> written b' = w \<and> wb_writable W b' = n"
  shows "\<exists>b'. wb_append W xs b \<bind> f = Some (True, b') \<and> inv b' \<and> written b' = w
     \<and> wb_writable W b' = n"
  using append_fits [OF assms(1,2)] assms(3) by auto

lemma header_pack_ok:
  assumes "codec_ok P" "inv b" "14 \<le> wb_writable W b"
  shows "\<exists>b'. header_pack P W h b = Some (True, b') \<and> inv b'
     \<and> written b' = written b @ header_bytes P h \<and> wb_writable W b' = wb_writable W b - 14"
proof -
  have "\<not> wb_writable W b < header_sizeof" using assms by simp
  then show ?thesis
    unfolding header_pack_def header_bytes_def by (simp only: if_False)
      (intro append_packs; use assms in simp)
qed

lemma rec_pack_ok:
  assumes P: "codec_ok P" and b: "inv b" "rec_size e \<le> wb_writable W b" "rec_size e < 2 ^ 32"
  shows "\<exists>b'. rec_pack P W e b = Some (True, b') \<and> inv b'
     \<and> written b' = written b @ rec_bytes P e \<and> wb_writable W b' = wb_writable W b - rec_size e"
proof -
  have "14 \<le> wb_writable W b" using b by (simp add: rec_size_def)
  from header_pack_ok [OF P b(1) this, of "rec_header_of e"] obtain b1 where
    b1: "header_pack P W (rec_header_of e) b = Some (True, b1)" "inv b1"
      "written b1 = written b @ header_bytes P (rec_header_of e)"
      "wb_writable W b1 = wb_writable W b - 14"
    by auto
  have "\<exists>b'. wb_append W (re_key e) b1 \<bind> (\<lambda>b. wb_append W (re_value e) b \<bind> (\<lambda>b. Some (True, b)))
      = Some (True, b') \<and> inv b' \<and> written b' = written b @ rec_bytes P e
      \<and> wb_writable W b' = wb_writable W b - rec_size e"
    by (intro append_packs) (use b b1 in \<open>simp_all add: rec_size_def rec_bytes_def\<close>)
  with b b1 show ?thesis by (simp add: rec_pack_def)
qed

end

context readable_buffer begin

lemma header_unpack_bytes:
  assumes P: "codec_ok P" and b: "inv b" "rb_bytes R b = header_bytes P h @ rest"
    and t: "rh_type h \<in> {kSet, kDelete}"
  shows "\<exists>b'. header_unpack P R b = Some (h, b') \<and> inv b' \<and> rb_bytes R b' = rest"
proof -
  have t': "type_u8 (rh_type h) \<noteq> type_u8 kEmpty" "type_of_u8 (type_u8 (rh_type h)) = rh_type h"
    using t by (auto simp: type_u8_def type_of_u8_def)
  have len: "length (rb_bytes R b) = 14 + length rest" using P b by simp
  have "peek8 P R b = Some (type_u8 (rh_type h))"
    using P b len by (simp add: peek8_bytes header_bytes_def flip: length_greater_0_conv)
  moreover obtain b1 where b1: "get8 P R b = (type_u8 (rh_type h), b1)" "inv b1"
    "rb_bytes R b1 = enc32 P (rh_checksum h) @ enc8 P (rh_key_size h) @ enc32 P (rh_value_size h)
       @ enc32 P (rh_timestamp h) @ rest"
    using get_ok(1) [OF b(1), of P] P b len by (auto simp: header_bytes_def)
  moreover obtain b2 where b2: "get32 P R b1 = (rh_checksum h, b2)" "inv b2"
    "rb_bytes R b2 = enc8 P (rh_key_size h) @ enc32 P (rh_value_size h)
       @ enc32 P (rh_timestamp h) @ rest"
    using get_ok(3) [OF b1(2), of P] P b1 by auto
  moreover obtain b3 where b3: "get8 P R b2 = (rh_key_size h, b3)" "inv b3"
    "rb_bytes R b3 = enc32 P (rh_value_size h) @ enc32 P (rh_timestamp h) @ rest"
    using get_ok(1) [OF b2(2), of P] P b2 by auto
  moreover obtain b4 where b4: "get32 P R b3 = (rh_value_size h, b4)" "inv b4"
    "rb_bytes R b4 = enc32 P (rh_timestamp h) @ rest"
    using get_ok(3) [OF b3(2), of P] P b3 by auto
  moreover obtain b5 where "get32 P R b4 = (rh_timestamp h, b5)" "inv b5" "rb_bytes R b5 = rest"
    using get_ok(3) [OF b4(2), of P] P b4 by auto
  ultimately show ?thesis
    using t' len b by (simp add: header_unpack_def readable_length)
qed

lemma rec_unpack_bytes:
  assumes P: "codec_ok P" and b: "inv b" "rb_bytes R b = rec_bytes P e @ rest" and e: "rec_wf e"
  shows "\<exists>b'. rec_unpack P R b = Got (e, b') \<and> inv b' \<and> rb_bytes R b' = rest"
proof -
  have "rh_type (rec_header_of e) \<in> {kSet, kDelete}"
    using e by (simp add: rec_wf_def rec_header_of_def)
  from header_unpack_bytes [OF P b(1) _ this, of "re_key e @ re_value e @ rest"] b(2) obtain b1 where
    b1: "header_unpack P R b = Some (rec_header_of e, b1)" "inv b1"
      "rb_bytes R b1 = re_key e @ re_value e @ rest"
    by (auto simp: rec_bytes_def)
  have r: "rb_readable R b1 = length (re_key e) + length (re_value e) + length rest"
    using b1 by (simp add: readable_length)
  let ?b2 = "rb_retrieve R (length (re_key e)) b1"
  have b2: "inv ?b2" "rb_bytes R ?b2 = re_value e @ rest"
    using b1 by (simp_all add: retrieve_ok)
  let ?b3 = "rb_retrieve R (length (re_value e)) ?b2"
  have "inv ?b3" "rb_bytes R ?b3 = rest"
    using b2 by (simp_all add: retrieve_ok)
  moreover have "rec_unpack P R b = Got (e, ?b3)"
    using b1 b2 r e by (simp add: rec_unpack_def rec_wf_sum) (simp add: rec_header_of_def Let_def rec_wf_sum)
  ultimately show ?thesis by blast
qed

text \<open>The size of the key is stored in one byte: a longer key is cut, and the value begins too early.\<close>

lemma rec_unpack_cut:
  assumes P: "codec_ok P" and b: "inv b" "rb_bytes R b = rec_bytes P e @ rest"
    and e: "re_type e \<in> {kSet, kDelete}" "length (re_value e) < 2 ^ 32 - 256" and n: "n = length (re_key e) mod 256"
  shows "\<exists>b'. rec_unpack P R b = Got (e\<lparr>re_key := take n (re_key e),
       re_value := take (length (re_value e)) (drop n (re_key e @ re_value e))\<rparr>, b')"
proof -
  have "rh_type (rec_header_of e) \<in> {kSet, kDelete}" using e by (simp add: rec_header_of_def)
  from header_unpack_bytes [OF P b(1) _ this, of "re_key e @ re_value e @ rest"] b(2) obtain b1 where
    b1: "header_unpack P R b = Some (rec_header_of e, b1)" "inv b1"
      "rb_bytes R b1 = re_key e @ re_value e @ rest"
    by (auto simp: rec_bytes_def)
  have nle: "n \<le> length (re_key e)" "n < 256" using n by simp_all
  have r: "rb_readable R b1 = length (re_key e) + length (re_value e) + length rest"
    using b1 by (simp add: readable_length)
  have sizes: "unat (of_nat (length (re_key e)) :: u8) = n" "unat (of_nat (length (re_value e)) :: u32) = length (re_value e)"
    using e(2) n by (simp_all add: unat_of_nat take_bit_eq_mod)
  have "(ucast (of_nat (length (re_key e)) :: u8) :: u32) = of_nat n"
    unfolding sizes(1) [symmetric] by (rule unsigned_word_eqI) (simp add: unsigned_ucast_eq)
  then have "unat (ucast (of_nat (length (re_key e)) :: u8) + of_nat (length (re_value e)) :: u32) = n + length (re_value e)"
    using e(2) nle by (simp flip: of_nat_add)
  then have "rec_unpack P R b = Got (e\<lparr>re_key := take n (re_key e),
      re_value := take (length (re_value e)) (drop n (re_key e @ re_value e))\<rparr>,
      rb_retrieve R (length (re_value e)) (rb_retrieve R n b1))"
    using b1 r nle sizes by (simp add: rec_unpack_def rec_header_of_def Let_def bytes_retrieve)
  then show ?thesis by blast
qed

text \<open>Nothing is unpacked from a block of zeros.\<close>

lemma header_unpack_zeros:
  assumes "codec_ok P" "inv b" "rb_bytes R b = replicate n 0"
  shows "header_unpack P R b = None"
  using assms by (cases n) (auto simp: header_unpack_def readable_length peek8_bytes type_u8_def)

lemma rec_unpack_zeros:
  assumes "codec_ok P" "inv b" "rb_bytes R b = replicate n 0"
  shows "rec_unpack P R b = NoEntry"
  using header_unpack_zeros [OF assms] by (simp add: rec_unpack_def)

end

section \<open>Locations\<close>

datatype location = Location (loc_id: file_id) (loc_offset: u32)

definition location_less :: "location \<Rightarrow> location \<Rightarrow> bool" where
  "location_less a b = (if loc_id a \<noteq> loc_id b then loc_id a < loc_id b
     else loc_offset a < loc_offset b)"

definition location_greater :: "location \<Rightarrow> location \<Rightarrow> bool" where
  "location_greater a b = (if loc_id a \<noteq> loc_id b then loc_id a > loc_id b
     else loc_offset a > loc_offset b)"

definition location_eq :: "location \<Rightarrow> location \<Rightarrow> bool" where
  "location_eq a b \<longleftrightarrow> loc_id a = loc_id b \<and> loc_offset a = loc_offset b"

definition location_neq :: "location \<Rightarrow> location \<Rightarrow> bool" where
  "location_neq a b \<longleftrightarrow> loc_id a \<noteq> loc_id b \<or> loc_offset a \<noteq> loc_offset b"

instantiation location :: linorder
begin

definition less_location :: "location \<Rightarrow> location \<Rightarrow> bool" where
  "less_location a b = location_less a b"

definition less_eq_location :: "location \<Rightarrow> location \<Rightarrow> bool" where
  "less_eq_location a b \<longleftrightarrow> a = b \<or> location_less a b"

instance
  by standard
    (auto simp: less_location_def less_eq_location_def location_less_def location.expand
      split: if_splits)

end

lemma location_ops [simp]:
  "location_less a b \<longleftrightarrow> a < b" "location_greater a b \<longleftrightarrow> b < a"
  "location_eq a b \<longleftrightarrow> a = b" "location_neq a b \<longleftrightarrow> a \<noteq> b"
  by (auto simp: less_location_def location_less_def location_greater_def location_eq_def
      location_neq_def location.expand)

section \<open>Directory entries\<close>

record dir =
  dir_entry_size :: u32
  dir_loc :: location

section \<open>What is packed and what is unpacked\<close>

text \<open>
  C29: A record whose type is set or deletion, whose key is shorter than 256 bytes and whose size is below
  \<open>2 ^ 32\<close>, when it is packed into a mapped file with room for it, is unpacked from it again:
  \<^verbatim>\<open>Pack\<close> writes the bytes of the record at its position and changes nothing else of
  the file, and \<^verbatim>\<open>UnPack\<close> at this position returns the record and stands behind it.
  For longer keys this fails (\<open>long_key_cut\<close>, C30).
\<close>

theorem record_round_trip:
  assumes "codec_ok P" "rec_wf e" "off + rec_size e \<le> length m" "length m < 2 ^ 64"
  shows "\<exists>b r. rec_pack P wbf_ops e (writable_buffer_new m (Some off) (rec_size e) off) = Some (True, b)
     \<and> wbf_mem b = overwrite m off (rec_bytes P e)
     \<and> rec_unpack P rdb_ops (readable_buffer_new (drop off (wbf_mem b)) (length m - off)) = Got (e, r)
     \<and> rb_bytes rdb_ops r = drop (off + rec_size e) m"
proof -
  let ?b = "writable_buffer_new m (Some off) (rec_size e) off"
  have n: "rec_size e < 2 ^ 64" "rec_size e < 2 ^ 32" using assms by (simp_all add: rec_wf_def)
  note new = wbf_new [OF assms(3) n(1), of off]
  have "rec_size e \<le> wb_writable wbf_ops ?b" using new(3) by (simp add: wbf_ops_def)
  from wbf.rec_pack_ok [OF assms(1) new(1) this n(2)] new(2) obtain b where
    b: "rec_pack P wbf_ops e ?b = Some (True, b)" "wbf_mem b = overwrite m off (rec_bytes P e)"
    by (auto simp: wbf_inv_def)
  let ?m = "drop off (wbf_mem b)"
  have m: "?m = rec_bytes P e @ drop (off + rec_size e) m" "length ?m = length m - off"
    using assms(1,3) unfolding b(2) by (simp_all add: overwrite_def)
  have "rdb_inv (readable_buffer_new ?m (length m - off))" "rb_bytes rdb_ops (readable_buffer_new ?m (length m - off)) = ?m"
    using rdb_new [of ?m] m(2) assms(4) by simp_all
  from rdb.rec_unpack_bytes [OF assms(1) this(1) _ assms(2), of "drop (off + rec_size e) m"] this(2) m(1)
  show ?thesis using b by auto
qed

lemma record_round_trip_witness:
  "\<exists>b r. let e = \<lparr>re_checksum = 5, re_type = kSet, re_key = [1, 2], re_value = [3], re_timestamp = 0\<rparr> in
     rec_pack list_pedrolib wbf_ops e (writable_buffer_new (replicate 32 9) (Some 4) 17 4) = Some (True, b)
     \<and> rec_unpack list_pedrolib rdb_ops (readable_buffer_new (drop 4 (wbf_mem b)) 28) = Got (e, r)
     \<and> rb_bytes rdb_ops r = replicate 11 9"
  using record_round_trip [of list_pedrolib "\<lparr>re_checksum = 5, re_type = kSet, re_key = [1, 2], re_value = [3], re_timestamp = 0\<rparr>" 4
      "replicate 32 9"] list_pedrolib_ok
  by (auto simp: rec_wf_def rec_size_def)

text \<open>
  A key of 256 bytes or more does not survive. \<^verbatim>\<open>Pack\<close> writes the whole key but only
  the low byte of its size; \<^verbatim>\<open>UnPack\<close> returns the first bytes of the key, and a value
  that begins inside the key.
\<close>

lemma long_key_cut:
  assumes "codec_ok P" "re_type e \<in> {kSet, kDelete}" "256 \<le> length (re_key e)" "length (re_value e) < 2 ^ 32 - 256"
    and "length (rec_bytes P e @ rest) < 2 ^ 64"
  shows "\<exists>e' r. rec_unpack P rdb_ops (readable_buffer_new (rec_bytes P e @ rest) (length (rec_bytes P e @ rest))) = Got (e', r)
     \<and> re_key e' = take (length (re_key e) mod 256) (re_key e) \<and> re_key e' \<noteq> re_key e
     \<and> re_value e' = take (length (re_value e)) (drop (length (re_key e) mod 256) (re_key e @ re_value e))"
proof -
  note new = rdb_new [OF assms(5)]
  from rdb.rec_unpack_cut [OF assms(1) new(1) new(2) assms(2,4) refl] obtain r where
    r: "rec_unpack P rdb_ops (readable_buffer_new (rec_bytes P e @ rest) (length (rec_bytes P e @ rest)))
      = Got (e\<lparr>re_key := take (length (re_key e) mod 256) (re_key e),
          re_value := take (length (re_value e)) (drop (length (re_key e) mod 256) (re_key e @ re_value e))\<rparr>, r)" by blast
  have "length (re_key e) mod 256 < length (re_key e)" using assms(3) by (meson mod_less_divisor less_le_trans zero_less_numeral)
  then have "take (length (re_key e) mod 256) (re_key e) \<noteq> re_key e" by auto
  with r show ?thesis by auto
qed

end
