(* ===== verification/Files.thy ===== *)
theory Files
  imports RecordFormat
begin

text \<open>
  The file classes of \<^verbatim>\<open>include/pedrodb/file/\<close> over a POSIX file system. Directory
  entries lead to inodes, so an open or mapped file survives the removal of its name, as it
  does under POSIX; the mapping of a file is the content of its inode. Which system calls fail
  is decided by an oracle that every operation takes as an argument. The locale
  \<open>readable_file\<close> is the contract of \<^verbatim>\<open>ReadableFile\<close> that the record
  iterator relies on, interpreted for the classes whose
  \<^verbatim>\<open>Size\<close> is the extent that can be read.
\<close>

section \<open>The file system\<close>

record fsys =
  fs_links :: "path \<Rightarrow> nat option"
  fs_data :: "nat \<Rightarrow> bytes"
  fs_next :: nat

record io =
  io_open :: "path \<Rightarrow> bool"
  io_size :: "path \<Rightarrow> bool"
  io_reserve :: "path \<Rightarrow> bool"
  io_mmap :: "path \<Rightarrow> bool"
  io_write :: bool
  io_sync :: bool

definition io_fine :: io where
  "io_fine = \<lparr>io_open = (\<lambda>_. True), io_size = (\<lambda>_. True), io_reserve = (\<lambda>_. True),
     io_mmap = (\<lambda>_. True), io_write = True, io_sync = True\<rparr>"

definition fs_init :: fsys where
  "fs_init = \<lparr>fs_links = (\<lambda>_. None), fs_data = (\<lambda>_. []), fs_next = 0\<rparr>"

text \<open>\<^verbatim>\<open>open(2)\<close>, with or without \<^verbatim>\<open>O_CREAT\<close>.\<close>

definition fs_open :: "io \<Rightarrow> bool \<Rightarrow> path \<Rightarrow> fsys \<Rightarrow> nat option \<times> fsys" where
  "fs_open io create p fs =
     (if \<not> io_open io p then (None, fs)
      else case fs_links fs p of
        Some i \<Rightarrow> (Some i, fs)
      | None \<Rightarrow>
          if create
          then (Some (fs_next fs),
                fs\<lparr>fs_links := (fs_links fs)(p \<mapsto> fs_next fs),
                   fs_data := (fs_data fs)(fs_next fs := []), fs_next := Suc (fs_next fs)\<rparr>)
          else (None, fs))"

definition fs_reserve :: "nat \<Rightarrow> nat \<Rightarrow> fsys \<Rightarrow> fsys" where
  "fs_reserve i n fs =
     fs\<lparr>fs_data := (fs_data fs)(i := fs_data fs i @ replicate (n - length (fs_data fs i)) 0)\<rparr>"

definition fs_store :: "nat \<Rightarrow> bytes \<Rightarrow> fsys \<Rightarrow> fsys" where
  "fs_store i m fs = fs\<lparr>fs_data := (fs_data fs)(i := m)\<rparr>"

text \<open>\<^verbatim>\<open>write(2)\<close> at a position of the file, which grows when needed.\<close>

definition fs_write :: "nat \<Rightarrow> nat \<Rightarrow> bytes \<Rightarrow> fsys \<Rightarrow> fsys" where
  "fs_write i off xs fs =
     fs_store i (overwrite (fs_data fs i @ replicate (off - length (fs_data fs i)) 0) off xs) fs"

definition fs_pread :: "nat \<Rightarrow> nat \<Rightarrow> nat \<Rightarrow> fsys \<Rightarrow> bytes" where
  "fs_pread i off n fs = slice (fs_data fs i) off n"

definition fs_remove :: "path \<Rightarrow> fsys \<Rightarrow> fsys" where
  "fs_remove p fs = fs\<lparr>fs_links := (fs_links fs)(p := None)\<rparr>"

lemma io_fine_simps [simp]:
  "io_open io_fine p" "io_size io_fine p" "io_reserve io_fine p" "io_mmap io_fine p"
  "io_write io_fine" "io_sync io_fine"
  by (simp_all add: io_fine_def)

lemma fs_store_simps [simp]:
  "fs_links (fs_store i m fs) = fs_links fs" "fs_next (fs_store i m fs) = fs_next fs"
  "fs_data (fs_store i m fs) i = m" "j \<noteq> i \<Longrightarrow> fs_data (fs_store i m fs) j = fs_data fs j"
  by (simp_all add: fs_store_def)

lemma fs_remove_simps [simp]:
  "fs_data (fs_remove p fs) = fs_data fs" "fs_next (fs_remove p fs) = fs_next fs"
  "fs_links (fs_remove p fs) p = None"
  "q \<noteq> p \<Longrightarrow> fs_links (fs_remove p fs) q = fs_links fs q"
  by (simp_all add: fs_remove_def)

text \<open>Names lead to allocated inodes, and no two names to the same one (there are no links).\<close>

definition fs_ok :: "fsys \<Rightarrow> bool" where
  "fs_ok fs \<longleftrightarrow> (\<forall>p i. fs_links fs p = Some i \<longrightarrow> i < fs_next fs)
     \<and> (\<forall>p q i. fs_links fs p = Some i \<longrightarrow> fs_links fs q = Some i \<longrightarrow> p = q)"

lemma fs_ok_init [simp]: "fs_ok fs_init"
  by (simp add: fs_ok_def fs_init_def)

lemma fs_ok_store [simp]: "fs_ok (fs_store i m fs) = fs_ok fs"
  by (simp add: fs_ok_def)

lemma fs_ok_remove: "fs_ok fs \<Longrightarrow> fs_ok (fs_remove p fs)"
  by (auto simp: fs_ok_def fs_remove_def)

lemma fs_ok_open: "fs_ok fs \<Longrightarrow> fs_ok (snd (fs_open io create p fs))"
  by (force simp: fs_ok_def fs_open_def less_Suc_eq split: option.split)

section \<open>The interface of a readable file\<close>

text \<open>
  The virtual functions of \<^verbatim>\<open>ReadableFile\<close>. A read yields the bytes it copied;
  \<open>None\<close> is a failed read, or an access outside the mapping.
\<close>

record 'f file_ops =
  f_Size :: "'f \<Rightarrow> nat"
  f_Read :: "'f \<Rightarrow> nat \<Rightarrow> nat \<Rightarrow> bytes option"

locale readable_file =
  fixes F :: "'f file_ops" and content :: "'f \<Rightarrow> bytes" and inv :: "'f \<Rightarrow> bool"
  assumes size_content: "inv f \<Longrightarrow> f_Size F f = length (content f)"
    and read_content: "inv f \<Longrightarrow> off + n \<le> length (content f) \<Longrightarrow>
          f_Read F f off n = Some (slice (content f) off n)"

section \<open>MappingReadWriteFile\<close>

definition size_max :: nat where
  "size_max = 2 ^ 64 - 1"

text \<open>The object after a successful \<^verbatim>\<open>Open\<close>; \<^verbatim>\<open>data_\<close> maps the inode.\<close>

record mrw_file =
  mrw_ino :: nat
  mrw_write_index :: nat
  mrw_length :: nat

text \<open>
  \<^verbatim>\<open>Open(path, capacity)\<close>; \<open>size_max\<close> stands for the \<^verbatim>\<open>-1\<close> of
  \<^verbatim>\<open>Open(path)\<close>. \<^verbatim>\<open>mmap\<close> refuses a length of 0 and one beyond the
  address space.
\<close>

definition mrw_Open :: "io \<Rightarrow> path \<Rightarrow> nat \<Rightarrow> fsys \<Rightarrow> (status + mrw_file) \<times> fsys" where
  "mrw_Open io p capacity fs =
     (case fs_open io True p fs of
        (None, fs) \<Rightarrow> (Inl kIOError, fs)
      | (Some i, fs) \<Rightarrow>
          if \<not> io_size io p then (Inl kIOError, fs)
          else
            let len = length (fs_data fs i) in
            if capacity \<noteq> size_max \<and> len = 0 \<and> \<not> io_reserve io p then (Inl kIOError, fs)
            else
              let (len, fs) = (if capacity \<noteq> size_max \<and> len = 0
                               then (capacity, fs_reserve i capacity fs) else (len, fs)) in
              if capacity \<noteq> size_max \<and> len \<noteq> capacity then (Inl kCorruption, fs)
              else if \<not> io_mmap io p \<or> capacity = 0 \<or> capacity = size_max then (Inl kIOError, fs)
              else (Inr \<lparr>mrw_ino = i, mrw_write_index = 0, mrw_length = len\<rparr>, fs))"

definition mrw_GetReadableBuffer :: "fsys \<Rightarrow> mrw_file \<Rightarrow> readable_buffer_t" where
  "mrw_GetReadableBuffer fs f = readable_buffer_new (fs_data fs (mrw_ino f)) (mrw_length f)"

definition mrw_SetWriteOffset :: "nat \<Rightarrow> mrw_file \<Rightarrow> mrw_file" where
  "mrw_SetWriteOffset off f = f\<lparr>mrw_write_index := off\<rparr>"

definition mrw_Size :: "mrw_file \<Rightarrow> nat" where
  "mrw_Size f = mrw_length f"

definition mrw_Read :: "fsys \<Rightarrow> mrw_file \<Rightarrow> nat \<Rightarrow> nat \<Rightarrow> bytes option" where
  "mrw_Read fs f off n =
     (if off + n \<le> length (fs_data fs (mrw_ino f))
      then Some (slice (fs_data fs (mrw_ino f)) off n) else None)"

text \<open>\<^verbatim>\<open>Flush\<close> does nothing and succeeds: the mapping is shared.\<close>

definition mrw_Flush :: "bool \<Rightarrow> mrw_file \<Rightarrow> bool" where
  "mrw_Flush force f = True"

definition mrw_Sync :: "io \<Rightarrow> mrw_file \<Rightarrow> bool" where
  "mrw_Sync io f = io_sync io"

definition mrw_Allocate :: "nat \<Rightarrow> fsys \<Rightarrow> mrw_file \<Rightarrow> writable_buffer_t \<times> mrw_file" where
  "mrw_Allocate n fs f =
     (if n > size_sub (mrw_length f) (mrw_write_index f)
      then (writable_buffer_new [] None 0 size_max, f)
      else (writable_buffer_new (fs_data fs (mrw_ino f)) (Some (mrw_write_index f)) n
              (mrw_write_index f),
            f\<lparr>mrw_write_index := mrw_write_index f + n\<rparr>))"

definition mrw_ops :: "fsys \<Rightarrow> mrw_file file_ops" where
  "mrw_ops fs = \<lparr>f_Size = mrw_Size, f_Read = mrw_Read fs\<rparr>"

definition mrw_inv :: "fsys \<Rightarrow> mrw_file \<Rightarrow> bool" where
  "mrw_inv fs f \<longleftrightarrow> mrw_length f = length (fs_data fs (mrw_ino f)) \<and> mrw_length f < 2 ^ 64 - 1
     \<and> mrw_write_index f \<le> mrw_length f"

interpretation mrw: readable_file "mrw_ops fs" "\<lambda>f. fs_data fs (mrw_ino f)" "mrw_inv fs" for fs
  by unfold_locales (auto simp: mrw_ops_def mrw_Size_def mrw_Read_def mrw_inv_def)

text \<open>Allocation succeeds exactly when the block fits behind the write index.\<close>

lemma mrw_Allocate_full:
  "mrw_inv fs f \<Longrightarrow> n > mrw_length f - mrw_write_index f \<Longrightarrow>
     mrw_Allocate n fs f = (writable_buffer_new [] None 0 size_max, f)"
  by (simp add: mrw_Allocate_def mrw_inv_def)

lemma mrw_Allocate_fits:
  "mrw_inv fs f \<Longrightarrow> mrw_write_index f + n \<le> mrw_length f \<Longrightarrow>
     mrw_Allocate n fs f =
       (writable_buffer_new (fs_data fs (mrw_ino f)) (Some (mrw_write_index f)) n (mrw_write_index f),
        f\<lparr>mrw_write_index := mrw_write_index f + n\<rparr>)"
  by (simp add: mrw_Allocate_def mrw_inv_def)

text \<open>Opening creates a file of zeros where the name is free.\<close>

lemma mrw_Open_new:
  assumes "fs_links fs p = None" "io_open io p" "io_size io p" "io_reserve io p" "io_mmap io p"
    and "0 < capacity" "capacity < size_max"
  shows "mrw_Open io p capacity fs =
     (Inr \<lparr>mrw_ino = fs_next fs, mrw_write_index = 0, mrw_length = capacity\<rparr>,
      fs\<lparr>fs_links := (fs_links fs)(p \<mapsto> fs_next fs),
         fs_data := (fs_data fs)(fs_next fs := replicate capacity 0),
         fs_next := Suc (fs_next fs)\<rparr>)"
  using assms by (simp add: mrw_Open_def fs_open_def fs_reserve_def Let_def)

lemma mrw_Open_existing:
  assumes "fs_links fs p = Some i" "io_open io p" "io_size io p" "io_mmap io p"
    and "length (fs_data fs i) = capacity" "0 < capacity" "capacity < size_max"
  shows "mrw_Open io p capacity fs =
     (Inr \<lparr>mrw_ino = i, mrw_write_index = 0, mrw_length = capacity\<rparr>, fs)"
  using assms by (auto simp: mrw_Open_def fs_open_def Let_def)

section \<open>PosixReadonlyFile\<close>

record pro_file =
  pro_ino :: nat
  pro_length :: nat

definition pro_Open :: "io \<Rightarrow> path \<Rightarrow> fsys \<Rightarrow> status + pro_file" where
  "pro_Open io p fs =
     (case fst (fs_open io False p fs) of
        None \<Rightarrow> Inl kIOError
      | Some i \<Rightarrow>
          if \<not> io_size io p then Inl kIOError
          else Inr \<lparr>pro_ino = i, pro_length = length (fs_data fs i)\<rparr>)"

definition pro_Size :: "pro_file \<Rightarrow> nat" where
  "pro_Size f = pro_length f"

text \<open>
  \<^verbatim>\<open>pread(2)\<close> delivers fewer bytes at the end of the file only; that it fails after the
  file has been opened is not among the failures of \<open>io\<close>.
\<close>

definition pro_Read :: "fsys \<Rightarrow> pro_file \<Rightarrow> nat \<Rightarrow> nat \<Rightarrow> bytes option" where
  "pro_Read fs f off n = Some (fs_pread (pro_ino f) off n fs)"

definition pro_ops :: "fsys \<Rightarrow> pro_file file_ops" where
  "pro_ops fs = \<lparr>f_Size = pro_Size, f_Read = pro_Read fs\<rparr>"

definition pro_inv :: "fsys \<Rightarrow> pro_file \<Rightarrow> bool" where
  "pro_inv fs f \<longleftrightarrow> pro_length f = length (fs_data fs (pro_ino f))"

interpretation pro: readable_file "pro_ops fs" "\<lambda>f. fs_data fs (pro_ino f)" "pro_inv fs" for fs
  by unfold_locales (auto simp: pro_ops_def pro_Size_def pro_Read_def pro_inv_def fs_pread_def)

lemma pro_Open_ok:
  "fs_links fs p = Some i \<Longrightarrow> io_open io p \<Longrightarrow> io_size io p \<Longrightarrow>
     pro_Open io p fs = Inr \<lparr>pro_ino = i, pro_length = length (fs_data fs i)\<rparr>"
  by (simp add: pro_Open_def fs_open_def)

lemma pro_Open_missing: "fs_links fs p = None \<Longrightarrow> pro_Open io p fs = Inl kIOError"
  by (simp add: pro_Open_def fs_open_def)

section \<open>MappingReadonlyFile\<close>

record mro_file =
  mro_ino :: nat
  mro_capacity :: nat

text \<open>
  The test \<^verbatim>\<open>capacity_ < 0\<close> is on an unsigned value and never holds: a failed
  \<^verbatim>\<open>GetSize\<close> leaves \<open>size_max\<close>, which \<^verbatim>\<open>mmap\<close> then refuses.
\<close>

definition mro_Open :: "io \<Rightarrow> path \<Rightarrow> fsys \<Rightarrow> status + mro_file" where
  "mro_Open io p fs =
     (case fst (fs_open io False p fs) of
        None \<Rightarrow> Inl kIOError
      | Some i \<Rightarrow>
          let capacity = (if io_size io p then length (fs_data fs i) else size_max)
          in if \<not> io_mmap io p \<or> capacity = 0 \<or> capacity = size_max then Inl kIOError
             else Inr \<lparr>mro_ino = i, mro_capacity = capacity\<rparr>)"

definition mro_Size :: "mro_file \<Rightarrow> nat" where
  "mro_Size f = mro_capacity f"

definition mro_Read :: "fsys \<Rightarrow> mro_file \<Rightarrow> nat \<Rightarrow> nat \<Rightarrow> bytes option" where
  "mro_Read fs f off n = Some (fs_pread (mro_ino f) off n fs)"

definition mro_GetReadonlyBuffer :: "fsys \<Rightarrow> mro_file \<Rightarrow> readable_buffer_t" where
  "mro_GetReadonlyBuffer fs f = readable_buffer_new (fs_data fs (mro_ino f)) (mro_capacity f)"

definition mro_ops :: "fsys \<Rightarrow> mro_file file_ops" where
  "mro_ops fs = \<lparr>f_Size = mro_Size, f_Read = mro_Read fs\<rparr>"

definition mro_inv :: "fsys \<Rightarrow> mro_file \<Rightarrow> bool" where
  "mro_inv fs f \<longleftrightarrow> mro_capacity f = length (fs_data fs (mro_ino f))"

interpretation mro: readable_file "mro_ops fs" "\<lambda>f. fs_data fs (mro_ino f)" "mro_inv fs" for fs
  by unfold_locales (auto simp: mro_ops_def mro_Size_def mro_Read_def mro_inv_def fs_pread_def)

section \<open>PosixReadWriteFile\<close>

text \<open>
  A file with a user-space buffer: \<open>prw_pos\<close> is the position of the descriptor, at which
  \<^verbatim>\<open>Write\<close> continues.
\<close>

record prw_file =
  prw_ino :: nat
  prw_pos :: nat
  prw_buffer :: bytes
  prw_flush_offset :: nat
  prw_offset :: nat

definition prw_Open :: "io \<Rightarrow> path \<Rightarrow> nat \<Rightarrow> fsys \<Rightarrow> (status + prw_file) \<times> fsys" where
  "prw_Open io p capacity fs =
     (case fs_open io True p fs of
        (None, fs) \<Rightarrow> (Inl kIOError, fs)
      | (Some i, fs) \<Rightarrow>
          if \<not> io_size io p then (Inl kIOError, fs)
          else
            let len = length (fs_data fs i) in
            if capacity \<noteq> size_max \<and> len = 0 then
              if \<not> io_reserve io p then (Inl kIOError, fs)
              else (Inr \<lparr>prw_ino = i, prw_pos = 0, prw_buffer = replicate capacity 0,
                         prw_flush_offset = 0, prw_offset = 0\<rparr>, fs_reserve i capacity fs)
            else if capacity \<noteq> size_max \<and> len \<noteq> capacity then (Inl kCorruption, fs)
            else (Inr \<lparr>prw_ino = i, prw_pos = 0, prw_buffer = fs_pread i 0 len fs,
                       prw_flush_offset = 0, prw_offset = 0\<rparr>, fs))"

definition prw_Size :: "prw_file \<Rightarrow> nat" where
  "prw_Size f = length (prw_buffer f)"

definition prw_GetReadableBuffer :: "prw_file \<Rightarrow> readable_buffer_t" where
  "prw_GetReadableBuffer f = readable_buffer_new (prw_buffer f) (length (prw_buffer f))"

text \<open>Only what lies before the write offset can be read; \<open>None\<close> is the result -1.\<close>

definition prw_Read :: "prw_file \<Rightarrow> nat \<Rightarrow> nat \<Rightarrow> bytes option" where
  "prw_Read f off n =
     (if off \<ge> prw_offset f then None
      else let e = min (off + n) (prw_offset f) in Some (slice (prw_buffer f) off (e - off)))"

definition prw_SetWriteOffset :: "nat \<Rightarrow> prw_file \<Rightarrow> prw_file" where
  "prw_SetWriteOffset n f = f\<lparr>prw_offset := n\<rparr>"

definition prw_Allocate :: "nat \<Rightarrow> prw_file \<Rightarrow> writable_buffer_t \<times> prw_file" where
  "prw_Allocate n f =
     (if n > size_sub (length (prw_buffer f)) (prw_offset f)
      then (writable_buffer_new [] None 0 size_max, f)
      else (writable_buffer_new (prw_buffer f) (Some (prw_offset f)) n (prw_offset f),
            f\<lparr>prw_offset := prw_offset f + n\<rparr>))"

definition prw_Flush :: "io \<Rightarrow> bool \<Rightarrow> prw_file \<Rightarrow> fsys \<Rightarrow> bool \<times> prw_file \<times> fsys" where
  "prw_Flush io force f fs =
     (let pending = size_sub (prw_offset f) (prw_flush_offset f);
          flush = (force \<or> pending > kBlockSize)
      in if flush \<and> pending > 0 then
           if \<not> io_write io then (False, f, fs)
           else (True,
                 f\<lparr>prw_flush_offset := prw_offset f, prw_pos := prw_pos f + pending\<rparr>,
                 fs_write (prw_ino f) (prw_pos f)
                   (slice (prw_buffer f) (prw_flush_offset f) pending) fs)
         else (True, f, fs))"

definition prw_Sync :: "io \<Rightarrow> prw_file \<Rightarrow> fsys \<Rightarrow> bool \<times> prw_file \<times> fsys" where
  "prw_Sync io f fs =
     (case prw_Flush io True f fs of
        (False, f, fs) \<Rightarrow> (False, f, fs)
      | (True, f, fs) \<Rightarrow> (io_sync io, f, fs))"

text \<open>
  The invariant of the class: the descriptor stands at the flush offset, and what has been
  flushed is in the file.
\<close>

definition prw_inv :: "fsys \<Rightarrow> prw_file \<Rightarrow> bool" where
  "prw_inv fs f \<longleftrightarrow> prw_pos f = prw_flush_offset f \<and> prw_flush_offset f \<le> prw_offset f
     \<and> prw_offset f \<le> length (prw_buffer f) \<and> length (prw_buffer f) < 2 ^ 64
     \<and> length (fs_data fs (prw_ino f)) = length (prw_buffer f)
     \<and> take (prw_flush_offset f) (fs_data fs (prw_ino f)) = take (prw_flush_offset f) (prw_buffer f)"

lemma prw_Read_written:
  assumes "prw_inv fs f" "off + n \<le> prw_offset f" "0 < n"
  shows "prw_Read f off n = Some (slice (prw_buffer f) off n)"
  using assms by (simp add: prw_Read_def min_def)

text \<open>A forced flush brings everything written so far into the file.\<close>

lemma prw_Flush_force:
  assumes inv: "prw_inv fs f" and io: "io_write io"
  shows "\<exists>f' fs'. prw_Flush io True f fs = (True, f', fs') \<and> prw_inv fs' f'
     \<and> prw_flush_offset f' = prw_offset f \<and> prw_offset f' = prw_offset f
     \<and> prw_buffer f' = prw_buffer f
     \<and> take (prw_offset f) (fs_data fs' (prw_ino f)) = take (prw_offset f) (prw_buffer f)"
proof (cases "prw_offset f = prw_flush_offset f")
  case True
  then show ?thesis using inv by (simp add: prw_Flush_def prw_inv_def Let_def)
next
  case False
  let ?m = "fs_data fs (prw_ino f)" and ?a = "prw_flush_offset f" and ?b = "prw_offset f"
  let ?xs = "slice (prw_buffer f) ?a (?b - ?a)"
  have le: "?a < ?b" "?b \<le> length (prw_buffer f)" "length ?m = length (prw_buffer f)"
    "prw_pos f = ?a" "?b < 2 ^ 64"
    using inv False by (auto simp: prw_inv_def)
  have sub: "size_sub ?b ?a = ?b - ?a" using le by simp
  have "take ?b (overwrite ?m ?a ?xs) = take ?a ?m @ ?xs"
    using le by (simp add: overwrite_def min_def)
  also have "\<dots> = slice (prw_buffer f) 0 ?a @ slice (prw_buffer f) (0 + ?a) (?b - ?a)"
    using inv by (simp add: prw_inv_def slice_def)
  also have "\<dots> = take ?b (prw_buffer f)"
    unfolding slice_append_slice using le by (simp add: slice_def)
  finally have flushed: "take ?b (overwrite ?m ?a ?xs) = take ?b (prw_buffer f)" .
  have "length (overwrite ?m ?a ?xs) = length (prw_buffer f)"
    using le by (subst length_overwrite) auto
  with flushed show ?thesis
    using inv io le by (simp add: prw_Flush_def sub Let_def fs_write_def prw_inv_def)
qed

section \<open>A file as its users see it\<close>

text \<open>The classes behind a \<^verbatim>\<open>ReadableFile::Ptr\<close> that the file manager hands out.\<close>

datatype rfile = RMapping mrw_file | RPosix pro_file

definition rf_ops :: "fsys \<Rightarrow> rfile file_ops" where
  "rf_ops fs = \<lparr>
     f_Size = (\<lambda>f. case f of RMapping m \<Rightarrow> mrw_Size m | RPosix p \<Rightarrow> pro_Size p),
     f_Read = (\<lambda>f. case f of RMapping m \<Rightarrow> mrw_Read fs m | RPosix p \<Rightarrow> pro_Read fs p)\<rparr>"

definition rf_ino :: "rfile \<Rightarrow> nat" where
  "rf_ino f = (case f of RMapping m \<Rightarrow> mrw_ino m | RPosix p \<Rightarrow> pro_ino p)"

definition rf_length :: "rfile \<Rightarrow> nat" where
  "rf_length f = (case f of RMapping m \<Rightarrow> mrw_length m | RPosix p \<Rightarrow> pro_length p)"

definition rf_inv :: "fsys \<Rightarrow> rfile \<Rightarrow> bool" where
  "rf_inv fs f \<longleftrightarrow> rf_length f = length (fs_data fs (rf_ino f))"

interpretation rf: readable_file "rf_ops fs" "\<lambda>f. fs_data fs (rf_ino f)" "rf_inv fs" for fs
  by unfold_locales
    (auto simp: rf_ops_def rf_inv_def rf_ino_def rf_length_def mrw_Size_def mrw_Read_def pro_Size_def
      pro_Read_def fs_pread_def split: rfile.splits)

text \<open>
  The buffered file writes what was appended. A forced flush brings everything before the
  write offset into the file and keeps the invariant; what was written can be read before and
  after it.
\<close>

lemma posix_flush_writes:
  assumes "prw_inv fs f" "io_write io" "off + n \<le> prw_offset f" "0 < n"
  shows "\<exists>f' fs'. prw_Flush io True f fs = (True, f', fs') \<and> prw_inv fs' f'
     \<and> slice (fs_data fs' (prw_ino f)) off n = slice (prw_buffer f) off n
     \<and> prw_Read f off n = Some (slice (prw_buffer f) off n) \<and> prw_Read f' off n = prw_Read f off n"
proof -
  from prw_Flush_force [OF assms(1,2)] obtain f' fs' where f':
    "prw_Flush io True f fs = (True, f', fs')" "prw_inv fs' f'" "prw_offset f' = prw_offset f"
    "prw_buffer f' = prw_buffer f" "take (prw_offset f) (fs_data fs' (prw_ino f)) = take (prw_offset f) (prw_buffer f)" by blast
  have "slice (fs_data fs' (prw_ino f)) off n = slice (take (prw_offset f) (fs_data fs' (prw_ino f))) off n"
    using assms(3) by (simp add: slice_def drop_take min_def)
  also have "\<dots> = slice (prw_buffer f) off n" unfolding f'(5) using assms(3) by (simp add: slice_def drop_take min_def)
  finally show ?thesis
    using f' prw_Read_written [OF assms(1,3,4)] prw_Read_written [OF f'(2), of off n] assms(3,4) by simp
qed

end
