(* ===== verification/MetadataManager.thy ===== *)
theory MetadataManager
  imports MetadataFormat Files
begin

text \<open>
  \<^verbatim>\<open>metadata_manager.h\<close> and \<^verbatim>\<open>src/metadata_manager.cc\<close>: the set of data
  files of the database and the metadata file that logs its changes. The invariant
  \<open>mm_ok\<close> says that replaying the metadata file gives the set in memory; creating and
  deleting files keep it, and \<^verbatim>\<open>Init\<close> on such a file recovers the set.
\<close>

section \<open>State\<close>

text \<open>
  \<^verbatim>\<open>std::set\<close> is its list in ascending order; \<^verbatim>\<open>file_\<close> is the inode and the
  position of the descriptor.
\<close>

record mm =
  mm_path :: path
  mm_name :: bytes
  mm_files :: "file_id list"
  mm_file :: "(nat \<times> nat) option"

definition mm_new :: "path \<Rightarrow> mm" where
  "mm_new p = \<lparr>mm_path = p, mm_name = [], mm_files = [], mm_file = None\<rparr>"

definition set_emplace :: "'k::linorder \<Rightarrow> 'k list \<Rightarrow> 'k list" where
  "set_emplace x xs = (if x \<in> set xs then xs else insort x xs)"

definition set_erase :: "'k \<Rightarrow> 'k list \<Rightarrow> 'k list" where
  "set_erase x xs = filter (\<lambda>y. y \<noteq> x) xs"

lemma set_emplace_simps [simp]:
  "set (set_emplace x xs) = insert x (set xs)"
  "sorted xs \<Longrightarrow> sorted (set_emplace x xs)"
  "distinct xs \<Longrightarrow> distinct (set_emplace x xs)"
  by (auto simp: set_emplace_def set_insort_key sorted_insort distinct_insort)

lemma set_erase_simps [simp]:
  "set (set_erase x xs) = set xs - {x}"
  "sorted xs \<Longrightarrow> sorted (set_erase x xs)"
  "distinct xs \<Longrightarrow> distinct (set_erase x xs)"
  by (auto simp: set_erase_def sorted_filter [where f = id, simplified])

text \<open>\<^verbatim>\<open>std::string::find_last_of\<close>; \<open>size_max\<close> is \<^verbatim>\<open>npos\<close>.\<close>

definition find_last_of :: "bytes \<Rightarrow> bytes \<Rightarrow> nat" where
  "find_last_of chars s =
     (case filter (\<lambda>i. s ! i \<in> set chars) [0..<length s] of
        [] \<Rightarrow> size_max | is \<Rightarrow> last is)"

definition mm_GetDataFilePath :: "'a pedrolib \<Rightarrow> mm \<Rightarrow> file_id \<Rightarrow> path" where
  "mm_GetDataFilePath P m fid = mm_name m @ str ''.'' @ fmt_u32 P fid @ str ''.data''"

definition mm_GetIndexFilePath :: "'a pedrolib \<Rightarrow> mm \<Rightarrow> file_id \<Rightarrow> path" where
  "mm_GetIndexFilePath P m fid = mm_name m @ str ''.'' @ fmt_u32 P fid @ str ''.index''"

definition mm_GetFiles :: "mm \<Rightarrow> file_id list" where
  "mm_GetFiles m = mm_files m"

section \<open>Operations\<close>

text \<open>
  Writing a buffer out at the position of the descriptor. The result of the write is not looked
  at.
\<close>

definition mm_write :: "io \<Rightarrow> bytes \<Rightarrow> mm \<Rightarrow> fsys \<Rightarrow> mm \<times> fsys" where
  "mm_write io xs m fs =
     (case mm_file m of
        None \<Rightarrow> (m, fs)
      | Some (i, pos) \<Rightarrow>
          if io_write io then (m\<lparr>mm_file := Some (i, pos + length xs)\<rparr>, fs_write i pos xs fs)
          else (m, fs))"

text \<open>
  The replay loop of \<^verbatim>\<open>Recovery\<close>. \<open>None\<close> is an end by
  \<^verbatim>\<open>PEDRODB_FATAL\<close>, or no end at all.
\<close>

partial_function (option) mm_replay ::
    "'a pedrolib \<Rightarrow> 'a \<Rightarrow> file_id list \<Rightarrow> file_id list option" where
  "mm_replay P buf files =
     (if length (ab_bytes P buf) = 0 then Some files
      else case log_entry_unpack P (ab_rops P) buf of
        None \<Rightarrow> None
      | Some (e, buf) \<Rightarrow>
          mm_replay P buf (if le_type e = kCreateFile then set_emplace (le_id e) files
                           else set_erase (le_id e) files))"

definition mm_Recovery :: "'a pedrolib \<Rightarrow> mm \<Rightarrow> fsys \<Rightarrow> (status \<times> mm) option" where
  "mm_Recovery P m fs =
     (case mm_file m of
        None \<Rightarrow> None
      | Some (i, pos) \<Rightarrow>
          let buf = ab_append P (ab_new P) (drop pos (fs_data fs i)) in
          if length (ab_bytes P buf) \<noteq> length (fs_data fs i) then None
          else case meta_header_unpack P (ab_rops P) buf of
            None \<Rightarrow> None
          | Some (name, buf) \<Rightarrow>
              (case mm_replay P buf (mm_files m) of
                 None \<Rightarrow> None
               | Some files \<Rightarrow>
                   Some (kOk, m\<lparr>mm_name := name, mm_files := files,
                                mm_file := Some (i, length (fs_data fs i))\<rparr>)))"

definition mm_CreateDatabase :: "'a pedrolib \<Rightarrow> io \<Rightarrow> mm \<Rightarrow> fsys \<Rightarrow> status \<times> mm \<times> fsys" where
  "mm_CreateDatabase P io m fs =
     (let buf = meta_header_pack P (mm_name m) (ab_new P);
          (m, fs) = mm_write io (ab_bytes P buf) m fs
      in (kOk, m, fs))"

definition mm_Init :: "'a pedrolib \<Rightarrow> io \<Rightarrow> mm \<Rightarrow> fsys \<Rightarrow> (status \<times> mm \<times> fsys) option" where
  "mm_Init P io m fs =
     (let p = mm_path m; index = find_last_of (str ''.db'') p in
      if index \<noteq> size_sub (length p) 1 then Some (kInvalidArgument, m, fs)
      else
        let m = m\<lparr>mm_name := take (size_sub (length p) 3) p\<rparr> in
        case fs_open io True p fs of
          (None, fs) \<Rightarrow> Some (kIOError, m, fs)
        | (Some i, fs) \<Rightarrow>
            let m = m\<lparr>mm_file := Some (i, 0)\<rparr> in
            if \<not> io_size io p then Some (kIOError, m, fs)
            else if length (fs_data fs i) \<noteq> 0
            then map_option (\<lambda>(s, m). (s, m, fs)) (mm_Recovery P m fs)
            else Some (mm_CreateDatabase P io m fs))"

definition mm_log :: "'a pedrolib \<Rightarrow> io \<Rightarrow> log_entry \<Rightarrow> mm \<Rightarrow> fsys \<Rightarrow> status \<times> mm \<times> fsys" where
  "mm_log P io e m fs =
     (let slice = log_entry_pack P e (ab_new P);
          (m, fs) = mm_write io (ab_bytes P slice) m fs
      in (if io_sync io then kOk else kIOError, m, fs))"

definition mm_CreateFile :: "'a pedrolib \<Rightarrow> io \<Rightarrow> file_id \<Rightarrow> mm \<Rightarrow> fsys \<Rightarrow> status \<times> mm \<times> fsys" where
  "mm_CreateFile P io fid m fs =
     (if fid \<in> set (mm_files m) then (kOk, m, fs)
      else mm_log P io \<lparr>le_type = kCreateFile, le_id = fid\<rparr>
             (m\<lparr>mm_files := set_emplace fid (mm_files m)\<rparr>) fs)"

definition mm_DeleteFile :: "'a pedrolib \<Rightarrow> io \<Rightarrow> file_id \<Rightarrow> mm \<Rightarrow> fsys \<Rightarrow> status \<times> mm \<times> fsys" where
  "mm_DeleteFile P io fid m fs =
     (if fid \<notin> set (mm_files m) then (kOk, m, fs)
      else mm_log P io \<lparr>le_type = kDeleteFile, le_id = fid\<rparr>
             (m\<lparr>mm_files := set_erase fid (mm_files m)\<rparr>) fs)"

section \<open>The log of the metadata file\<close>

fun log_files :: "file_id list \<Rightarrow> log_entry list \<Rightarrow> file_id list" where
  "log_files files [] = files"
| "log_files files (e # es) =
     log_files (if le_type e = kCreateFile then set_emplace (le_id e) files
                else set_erase (le_id e) files) es"

definition meta_log_bytes :: "'a pedrolib \<Rightarrow> log_entry list \<Rightarrow> bytes" where
  "meta_log_bytes P es = concat (map (log_entry_bytes P) es)"

lemma log_files_snoc:
  "log_files files (es @ [e]) = (if le_type e = kCreateFile then set_emplace (le_id e) (log_files files es)
     else set_erase (le_id e) (log_files files es))"
  by (induction files es rule: log_files.induct) auto

lemma log_files_sorted:
  "sorted files \<Longrightarrow> distinct files \<Longrightarrow> sorted (log_files files es) \<and> distinct (log_files files es)"
  by (induction files es rule: log_files.induct) auto

lemma meta_log_bytes_simps [simp]:
  "meta_log_bytes P [] = []" "meta_log_bytes P (e # es) = log_entry_bytes P e @ meta_log_bytes P es"
  "meta_log_bytes P (es @ fs) = meta_log_bytes P es @ meta_log_bytes P fs"
  by (simp_all add: meta_log_bytes_def)

text \<open>The loop reads back every entry of the log, and ends.\<close>

lemma mm_replay_log:
  assumes P: "pedrolib_ok P"
  shows "ab_bytes P buf = meta_log_bytes P es \<Longrightarrow> \<forall>e \<in> set es. log_entry_wf e \<Longrightarrow>
     mm_replay P buf files = Some (log_files files es)"
proof (induction es arbitrary: buf files)
  case Nil
  then show ?case by (simp add: mm_replay.simps)
next
  case (Cons e es)
  have A: "array_buffer_ok P" "codec_ok P" using P by simp_all
  obtain buf' where "log_entry_unpack P (ab_rops P) buf = Some (e, buf')"
    "ab_bytes P buf' = meta_log_bytes P es"
    using readable_buffer.log_entry_unpack_bytes [OF array_buffer_readable [OF A(1)] A(2),
        of buf e "meta_log_bytes P es"] Cons.prems by auto
  moreover have "length (ab_bytes P buf) \<noteq> 0"
    using Cons.prems(1) length_log_entry_bytes [OF A(2), of e] by auto
  ultimately show ?case
    using Cons.IH Cons.prems(2) by (subst mm_replay.simps) simp
qed

definition mm_ok :: "'a pedrolib \<Rightarrow> fsys \<Rightarrow> mm \<Rightarrow> bool" where
  "mm_ok P fs m \<longleftrightarrow> (\<exists>i es. mm_file m = Some (i, length (fs_data fs i)) \<and>
     fs_links fs (mm_path m) = Some i \<and> length (mm_name m) < 65536 \<and>
     fs_data fs i = meta_header_bytes P (mm_name m) @ meta_log_bytes P es \<and>
     (\<forall>e \<in> set es. log_entry_wf e) \<and> mm_files m = log_files [] es)"

lemma mm_ok_files: "mm_ok P fs m \<Longrightarrow> sorted (mm_files m) \<and> distinct (mm_files m)"
  unfolding mm_ok_def using log_files_sorted [of "[]"] by auto

lemma mm_log_ok:
  assumes P: "pedrolib_ok P" and ok: "mm_ok P fs m" and e: "log_entry_wf e" and io: "io_write io"
    and files: "files = (if le_type e = kCreateFile then set_emplace (le_id e) (mm_files m)
                         else set_erase (le_id e) (mm_files m))"
  shows "\<exists>m' fs'. mm_log P io e (m\<lparr>mm_files := files\<rparr>) fs
        = (if io_sync io then kOk else kIOError, m', fs')
     \<and> mm_ok P fs' m' \<and> mm_files m' = files \<and> mm_name m' = mm_name m \<and> mm_path m' = mm_path m
     \<and> fs_links fs' = fs_links fs \<and> fs_next fs' = fs_next fs
     \<and> (\<forall>j. fs_links fs (mm_path m) \<noteq> Some j \<longrightarrow> fs_data fs' j = fs_data fs j)"
proof -
  have A: "array_buffer_ok P" "codec_ok P" using P by simp_all
  from ok obtain i es where m: "mm_file m = Some (i, length (fs_data fs i))"
    "fs_links fs (mm_path m) = Some i" "length (mm_name m) < 65536"
    "fs_data fs i = meta_header_bytes P (mm_name m) @ meta_log_bytes P es"
    "\<forall>e \<in> set es. log_entry_wf e" "mm_files m = log_files [] es"
    by (auto simp: mm_ok_def)
  let ?fs = "fs_write i (length (fs_data fs i)) (log_entry_bytes P e) fs"
  let ?m = "m\<lparr>mm_files := files, mm_file := Some (i, length (fs_data fs i) + 5)\<rparr>"
  have data: "fs_data ?fs i = fs_data fs i @ log_entry_bytes P e"
    by (simp add: fs_write_def overwrite_def)
  have "mm_log P io e (m\<lparr>mm_files := files\<rparr>) fs = (if io_sync io then kOk else kIOError, ?m, ?fs)"
    using A io m by (simp add: mm_log_def mm_write_def)
  moreover have "mm_ok P ?fs ?m"
    unfolding mm_ok_def using m data e A files
    by (intro exI [of _ i] exI [of _ "es @ [e]"]) (auto simp: fs_write_def log_files_snoc)
  ultimately show ?thesis
    using m by (auto simp: fs_write_def)
qed

lemma mm_CreateFile_ok:
  assumes P: "pedrolib_ok P" and ok: "mm_ok P fs m" and io: "io_write io" "io_sync io"
  shows "\<exists>m' fs'. mm_CreateFile P io fid m fs = (kOk, m', fs') \<and> mm_ok P fs' m'
     \<and> mm_files m' = set_emplace fid (mm_files m) \<and> mm_name m' = mm_name m \<and> mm_path m' = mm_path m
     \<and> fs_links fs' = fs_links fs \<and> fs_next fs' = fs_next fs
     \<and> (\<forall>j. fs_links fs (mm_path m) \<noteq> Some j \<longrightarrow> fs_data fs' j = fs_data fs j)"
proof (cases "fid \<in> set (mm_files m)")
  case True
  then show ?thesis using ok by (simp add: mm_CreateFile_def set_emplace_def)
next
  case False
  have "log_entry_wf \<lparr>le_type = kCreateFile, le_id = fid\<rparr>" by (simp add: log_entry_wf_def)
  from mm_log_ok [OF P ok this io(1) refl] show ?thesis
    using False io by (simp add: mm_CreateFile_def)
qed

lemma mm_DeleteFile_ok:
  assumes P: "pedrolib_ok P" and ok: "mm_ok P fs m" and io: "io_write io" "io_sync io"
  shows "\<exists>m' fs'. mm_DeleteFile P io fid m fs = (kOk, m', fs') \<and> mm_ok P fs' m'
     \<and> mm_files m' = set_erase fid (mm_files m) \<and> mm_name m' = mm_name m \<and> mm_path m' = mm_path m
     \<and> fs_links fs' = fs_links fs \<and> fs_next fs' = fs_next fs
     \<and> (\<forall>j. fs_links fs (mm_path m) \<noteq> Some j \<longrightarrow> fs_data fs' j = fs_data fs j)"
proof (cases "fid \<in> set (mm_files m)")
  case False
  then have "set_erase fid (mm_files m) = mm_files m" by (auto simp: set_erase_def intro: filter_True)
  then show ?thesis using ok False by (simp add: mm_DeleteFile_def)
next
  case True
  have "log_entry_wf \<lparr>le_type = kDeleteFile, le_id = fid\<rparr>" by (simp add: log_entry_wf_def)
  from mm_log_ok [OF P ok this io(1) refl] show ?thesis
    using True io by (simp add: mm_DeleteFile_def)
qed

text \<open>\<^verbatim>\<open>Recovery\<close> on the metadata file restores the set of files and the name.\<close>

lemma mm_Recovery_ok:
  assumes P: "pedrolib_ok P" and ok: "mm_ok P fs m" and n: "mm_file n = Some (i, 0)"
    "fs_links fs (mm_path m) = Some i" "mm_files n = []"
  shows "mm_Recovery P n fs = Some (kOk, n\<lparr>mm_name := mm_name m, mm_files := mm_files m,
     mm_file := mm_file m\<rparr>)"
proof -
  have A: "array_buffer_ok P" "codec_ok P" using P by simp_all
  from ok n obtain es where m: "mm_file m = Some (i, length (fs_data fs i))"
    "length (mm_name m) < 65536"
    "fs_data fs i = meta_header_bytes P (mm_name m) @ meta_log_bytes P es"
    "\<forall>e \<in> set es. log_entry_wf e" "mm_files m = log_files [] es"
    by (auto simp: mm_ok_def)
  obtain buf where "meta_header_unpack P (ab_rops P) (ab_append P (ab_new P) (fs_data fs i))
      = Some (mm_name m, buf)" "ab_bytes P buf = meta_log_bytes P es"
    using readable_buffer.meta_header_unpack_bytes [OF array_buffer_readable [OF A(1)] A(2),
        of "ab_append P (ab_new P) (fs_data fs i)" "mm_name m" "meta_log_bytes P es"] m A by auto
  moreover from mm_replay_log [OF P this(2) m(4), of "[]"]
  have "mm_replay P buf [] = Some (mm_files m)" using m by simp
  ultimately show ?thesis using A m n by (simp add: mm_Recovery_def)
qed

end
