(* ===== verification/IndexFormat.thy ===== *)
theory IndexFormat
  imports RecordFormat
begin

text \<open>
  \<^verbatim>\<open>include/pedrodb/format/index_format.h\<close>: the entries of an index file, which name
  for every record of a data file its key, type, offset and length. \<^verbatim>\<open>Pack\<close> is used on
  an \<^verbatim>\<open>ArrayBuffer\<close> only. The lemmas give the round trip and say that zero bytes
  unpack as entries of type \<open>kEmpty\<close>.
\<close>

record idx_entry =
  ix_key :: bytes
  ix_type :: rec_type
  ix_offset :: u32
  ix_len :: u32

text \<open>The static \<^verbatim>\<open>SizeOf\<close> takes a \<^verbatim>\<open>uint8_t\<close>.\<close>

definition idx_sizeof_key :: "u8 \<Rightarrow> nat" where
  "idx_sizeof_key key_size = 1 + 1 + 4 + 4 + unat key_size"

definition idx_sizeof :: "idx_entry \<Rightarrow> nat" where
  "idx_sizeof e = idx_sizeof_key (of_nat (length (ix_key e)))"

definition idx_pack :: "'a pedrolib \<Rightarrow> idx_entry \<Rightarrow> 'a \<Rightarrow> 'a" where
  "idx_pack P e b =
     (let b = ab_append P b (enc8 P (of_nat (length (ix_key e))));
          b = ab_append P b (enc8 P (type_u8 (ix_type e)));
          b = ab_append P b (enc32 P (ix_offset e));
          b = ab_append P b (enc32 P (ix_len e))
      in ab_append P b (ix_key e))"

definition idx_unpack :: "'a pedrolib \<Rightarrow> 'b rops \<Rightarrow> 'b \<Rightarrow> (idx_entry \<times> 'b) option" where
  "idx_unpack P R b =
     (case peek8 P R b of
        None \<Rightarrow> None
      | Some key_size \<Rightarrow>
          if rb_readable R b < idx_sizeof_key key_size then None
          else
            let (key_size, b) = get8 P R b;
                (u8_type, b) = get8 P R b;
                (off, b) = get32 P R b;
                (len, b) = get32 P R b;
                key = take (unat key_size) (rb_bytes R b);
                b = rb_retrieve R (unat key_size) b
            in Some (\<lparr>ix_key = key, ix_type = type_of_u8 u8_type, ix_offset = off,
                      ix_len = len\<rparr>, b))"

text \<open>What \<^verbatim>\<open>Pack\<close> appends.\<close>

definition idx_bytes :: "'a pedrolib \<Rightarrow> idx_entry \<Rightarrow> bytes" where
  "idx_bytes P e = enc8 P (of_nat (length (ix_key e))) @ enc8 P (type_u8 (ix_type e))
     @ enc32 P (ix_offset e) @ enc32 P (ix_len e) @ ix_key e"

text \<open>
  Entries that read back: the key fits the size byte, and the type is one its byte casts to.
\<close>

definition idx_wf :: "idx_entry \<Rightarrow> bool" where
  "idx_wf e \<longleftrightarrow> length (ix_key e) < 256 \<and> ix_type e \<in> {kEmpty, kSet, kDelete}"

lemma length_idx_bytes [simp]: "codec_ok P \<Longrightarrow> length (idx_bytes P e) = 10 + length (ix_key e)"
  by (simp add: idx_bytes_def)

lemma idx_pack_bytes [simp]:
  "array_buffer_ok P \<Longrightarrow> ab_bytes P (idx_pack P e b) = ab_bytes P b @ idx_bytes P e"
  by (simp add: idx_pack_def idx_bytes_def Let_def)

context readable_buffer begin

lemma idx_unpack_bytes:
  assumes P: "codec_ok P" and b: "inv b" "rb_bytes R b = idx_bytes P e @ rest" and e: "idx_wf e"
  shows "\<exists>b'. idx_unpack P R b = Some (e, b') \<and> inv b' \<and> rb_bytes R b' = rest"
proof -
  let ?ks = "of_nat (length (ix_key e)) :: u8"
  have ks: "unat ?ks = length (ix_key e)" and t: "type_of_u8 (type_u8 (ix_type e)) = ix_type e"
    using e by (auto simp: idx_wf_def)
  have len: "length (rb_bytes R b) = 10 + length (ix_key e) + length rest" using P b by simp
  have peek: "peek8 P R b = Some ?ks"
    using P b len by (simp add: peek8_bytes idx_bytes_def flip: length_greater_0_conv)
  obtain b1 where b1: "get8 P R b = (?ks, b1)" "inv b1"
    "rb_bytes R b1 = enc8 P (type_u8 (ix_type e)) @ enc32 P (ix_offset e) @ enc32 P (ix_len e)
       @ ix_key e @ rest"
    using get_ok(1) [OF b(1), of P] P b len by (auto simp: idx_bytes_def)
  obtain b2 where b2: "get8 P R b1 = (type_u8 (ix_type e), b2)" "inv b2"
    "rb_bytes R b2 = enc32 P (ix_offset e) @ enc32 P (ix_len e) @ ix_key e @ rest"
    using get_ok(1) [OF b1(2), of P] P b1 by auto
  obtain b3 where b3: "get32 P R b2 = (ix_offset e, b3)" "inv b3"
    "rb_bytes R b3 = enc32 P (ix_len e) @ ix_key e @ rest"
    using get_ok(3) [OF b2(2), of P] P b2 by auto
  obtain b4 where b4: "get32 P R b3 = (ix_len e, b4)" "inv b4" "rb_bytes R b4 = ix_key e @ rest"
    using get_ok(3) [OF b3(2), of P] P b3 by auto
  have "inv (rb_retrieve R (length (ix_key e)) b4)"
    "rb_bytes R (rb_retrieve R (length (ix_key e)) b4) = rest"
    using b4 by (simp_all add: retrieve_ok)
  moreover have "idx_unpack P R b = Some (e, rb_retrieve R (length (ix_key e)) b4)"
    using peek b b1 b2 b3 b4 ks t len
    by (simp add: idx_unpack_def idx_sizeof_key_def readable_length)
  ultimately show ?thesis by blast
qed

lemma idx_unpack_empty:
  assumes "inv b" "rb_bytes R b = []"
  shows "idx_unpack P R b = None"
  using assms by (simp add: idx_unpack_def peek8_bytes)

text \<open>
  Zero bytes are not the end of an index: ten of them unpack as an entry of type
  \<open>kEmpty\<close> with an empty key, fewer as nothing.
\<close>

lemma idx_unpack_zeros_short:
  assumes "codec_ok P" "inv b" "rb_bytes R b = replicate n 0" "n < 10"
  shows "idx_unpack P R b = None"
  using assms by (cases n) (auto simp: idx_unpack_def peek8_bytes readable_length idx_sizeof_key_def)

lemma idx_unpack_zeros:
  assumes P: "codec_ok P" and b: "inv b" "rb_bytes R b = replicate n 0" and n: "10 \<le> n"
  shows "\<exists>e b'. idx_unpack P R b = Some (e, b') \<and> ix_type e = kEmpty \<and> inv b'
     \<and> rb_bytes R b' = replicate (n - 10) 0"
proof -
  have one: "take (Suc 0) (replicate m (0 :: byte)) = [0]" if "0 < m" for m
    using that by (cases m) auto
  have peek: "peek8 P R b = Some 0"
    using P b n by (simp add: peek8_bytes one)
  obtain b1 where b1: "get8 P R b = (0, b1)" "inv b1" "rb_bytes R b1 = replicate (n - 1) 0"
    using get_ok(1) [OF b(1), of P] P b n by (auto simp: one)
  have rest: "Suc 0 \<le> n - Suc 0" "4 \<le> n - 2" "4 \<le> n - 6" using n by simp_all
  then obtain b2 where b2: "get8 P R b1 = (0, b2)" "inv b2" "rb_bytes R b2 = replicate (n - 2) 0"
    using get_ok(1) [OF b1(2), of P] P b1 n by (auto simp: one numeral_2_eq_2)
  obtain x b3 where b3: "get32 P R b2 = (x, b3)" "inv b3" "rb_bytes R b3 = replicate (n - 6) 0"
    using get_ok(3) [OF b2(2), of P] b2 n rest by auto
  obtain y b4 where b4: "get32 P R b3 = (y, b4)" "inv b4" "rb_bytes R b4 = replicate (n - 10) 0"
    using get_ok(3) [OF b3(2), of P] b3 n rest by auto
  have "inv (rb_retrieve R 0 b4)" "rb_bytes R (rb_retrieve R 0 b4) = replicate (n - 10) 0"
    using b4 by (simp_all add: retrieve_ok)
  then show ?thesis
    using peek b b1 b2 b3 b4 n
    by (simp add: idx_unpack_def idx_sizeof_key_def readable_length type_of_u8_def)
qed

end

text \<open>
  An entry that is packed into an empty buffer is unpacked from it again, whatever has been
  appended behind it, and what is left in the buffer is exactly that.
\<close>

lemma index_round_trip:
  assumes "pedrolib_ok P" "idx_wf e"
  shows "\<exists>b. idx_unpack P (ab_rops P) (ab_append P (idx_pack P e (ab_new P)) rest) = Some (e, b) \<and> ab_bytes P b = rest"
proof -
  have A: "array_buffer_ok P" "codec_ok P" using assms(1) by simp_all
  have "rb_bytes (ab_rops P) (ab_append P (idx_pack P e (ab_new P)) rest) = idx_bytes P e @ rest" using A by simp
  from readable_buffer.idx_unpack_bytes [OF array_buffer_readable [OF A(1)] A(2) _ this assms(2)] show ?thesis by auto
qed

end
