(* ===== verification/Iterators.thy ===== *)
theory Iterators
  imports Files IndexFormat
begin

text \<open>
  \<^verbatim>\<open>record_iterator.h\<close> and \<^verbatim>\<open>index_iterator.h\<close>. The record iterator reads
  through a buffer that all iterators of a thread share, so the buffer is passed from call to
  call. Its contract is stated against the layout of a data file: records one after the other,
  then zeros. It is proved over any file that keeps the contract \<open>readable_file\<close>.
\<close>

section \<open>RecordIterator\<close>

record 'f record_iterator =
  ri_index :: nat
  ri_file :: 'f
  ri_read_index :: nat
  ri_entry :: rec_entry
  ri_size :: nat

definition rec_entry_default :: rec_entry where
  "rec_entry_default = \<lparr>re_checksum = 0, re_type = kEmpty, re_key = [], re_value = [],
     re_timestamp = 0\<rparr>"

definition ri_new :: "'f file_ops \<Rightarrow> 'f \<Rightarrow> 'f record_iterator" where
  "ri_new F f = \<lparr>ri_index = 0, ri_file = f, ri_read_index = 0, ri_entry = rec_entry_default,
     ri_size = f_Size F f\<rparr>"

text \<open>
  \<^verbatim>\<open>fetch\<close> leaves the buffer as it is when the block does not end before the end of the
  file. The code ignores the result of the read and goes on with whatever the buffer held when the
  read fails or delivers fewer bytes; what that is rests on \<^verbatim>\<open>ArrayBuffer\<close>, and the model
  has no result then (\<open>None\<close>). The size of the file is known before, so this needs a system call that
  fails or a file that shrinks while it is open.
\<close>

definition ri_fetch ::
    "'a pedrolib \<Rightarrow> 'f file_ops \<Rightarrow> nat \<Rightarrow> 'f record_iterator \<Rightarrow> 'a \<Rightarrow> ('f record_iterator \<times> 'a) option"
  where
  "ri_fetch P F n it buf =
     (if ri_read_index it + n \<ge> ri_size it then Some (it, buf)
      else
        let buf = ab_reset P buf in
        case f_Read F (ri_file it) (ri_read_index it) n of
          None \<Rightarrow> None
        | Some xs \<Rightarrow>
            if length xs < n then None
            else Some (it\<lparr>ri_read_index := ri_read_index it + n\<rparr>, ab_append P buf xs))"

text \<open>\<open>None\<close> also stands for a view that reaches outside the buffer.\<close>

definition ri_Valid ::
    "'a pedrolib \<Rightarrow> 'f file_ops \<Rightarrow> 'f record_iterator \<Rightarrow> 'a \<Rightarrow> (bool \<times> 'f record_iterator \<times> 'a) option"
  where
  "ri_Valid P F it buf =
     (if ri_index it \<ge> ri_size it then Some (False, it, buf)
      else case ri_fetch P F header_sizeof it buf of
        None \<Rightarrow> None
      | Some (it, buf) \<Rightarrow>
          (case header_unpack P (ab_rops P) buf of
             None \<Rightarrow> Some (False, it, buf)
           | Some (h, buf) \<Rightarrow>
               let sum = unat (ucast (rh_key_size h) + rh_value_size h :: u32) in
               (case ri_fetch P F sum it buf of
                  None \<Rightarrow> None
                | Some (it, buf) \<Rightarrow>
                    if length (ab_bytes P buf) < sum then Some (False, it, buf)
                    else if length (ab_bytes P buf)
                              < unat (rh_key_size h) + unat (rh_value_size h) then None
                    else
                      let key = take (unat (rh_key_size h)) (ab_bytes P buf);
                          buf = ab_retrieve P (unat (rh_key_size h)) buf;
                          val = take (unat (rh_value_size h)) (ab_bytes P buf);
                          buf = ab_retrieve P (unat (rh_value_size h)) buf
                      in Some (True,
                           it\<lparr>ri_entry := \<lparr>re_checksum = rh_checksum h, re_type = rh_type h,
                              re_key = key, re_value = val, re_timestamp = rh_timestamp h\<rparr>\<rparr>,
                           buf))))"

definition ri_Seek :: "'a pedrolib \<Rightarrow> u32 \<Rightarrow> 'f record_iterator \<Rightarrow> 'a \<Rightarrow> 'f record_iterator \<times> 'a" where
  "ri_Seek P off it buf =
     (it\<lparr>ri_index := unat off, ri_read_index := unat off\<rparr>, ab_reset P buf)"

definition ri_GetOffset :: "'f record_iterator \<Rightarrow> u32" where
  "ri_GetOffset it = of_nat (ri_index it)"

definition ri_Peek :: "'f record_iterator \<Rightarrow> rec_entry" where
  "ri_Peek it = ri_entry it"

definition ri_Next :: "'f record_iterator \<Rightarrow> rec_entry \<times> 'f record_iterator" where
  "ri_Next it = (ri_entry it, it\<lparr>ri_index := ri_index it + unat (rec_sizeof (ri_entry it))\<rparr>)"

definition ri_Close :: "'a pedrolib \<Rightarrow> 'a \<Rightarrow> 'a" where
  "ri_Close P buf = ab_reset P buf"

section \<open>IndexIterator\<close>

text \<open>
  The constructor reads the whole file into a fresh buffer and then claims everything that is
  writable in it, the slack beyond the file included.
\<close>

definition ii_new :: "'a pedrolib \<Rightarrow> 'f file_ops \<Rightarrow> 'f \<Rightarrow> 'a option" where
  "ii_new P F f =
     (let n = f_Size F f in
      case f_Read F f 0 (n + length (ab_slack P n)) of
        None \<Rightarrow> None
      | Some xs \<Rightarrow>
          if length xs < n then None
          else Some (ab_append P (ab_new P)
                 (take (n + length (ab_slack P n)) (xs @ drop (length xs - n) (ab_slack P n)))))"

definition ii_Valid :: "'a pedrolib \<Rightarrow> 'a \<Rightarrow> (idx_entry \<times> 'a) option" where
  "ii_Valid P buf = idx_unpack P (ab_rops P) buf"

section \<open>The layout of a data file\<close>

text \<open>
  \<open>log_bytes P es\<close> are the packed records \<open>es\<close>; a data file of \<open>cap\<close> bytes
  holds them at its front and zeros behind them.
\<close>

definition log_bytes :: "'a pedrolib \<Rightarrow> rec_entry list \<Rightarrow> bytes" where
  "log_bytes P es = concat (map (rec_bytes P) es)"

definition log_size :: "rec_entry list \<Rightarrow> nat" where
  "log_size es = sum_list (map rec_size es)"

definition log_file :: "'a pedrolib \<Rightarrow> nat \<Rightarrow> rec_entry list \<Rightarrow> bytes \<Rightarrow> bool" where
  "log_file P cap es m \<longleftrightarrow> (\<forall>e \<in> set es. rec_wf e) \<and> log_size es \<le> cap
     \<and> m = log_bytes P es @ replicate (cap - log_size es) 0"

lemma log_bytes_simps [simp]:
  "log_bytes P [] = []" "log_bytes P (e # es) = rec_bytes P e @ log_bytes P es"
  "log_bytes P (es @ fs) = log_bytes P es @ log_bytes P fs"
  by (simp_all add: log_bytes_def)

lemma log_size_simps [simp]:
  "log_size [] = 0" "log_size (e # es) = rec_size e + log_size es"
  "log_size (es @ fs) = log_size es + log_size fs"
  by (simp_all add: log_size_def)

lemma length_log_bytes [simp]: "codec_ok P \<Longrightarrow> length (log_bytes P es) = log_size es"
  by (induction es) simp_all

lemma log_file_length: "codec_ok P \<Longrightarrow> log_file P cap es m \<Longrightarrow> length m = cap"
  by (auto simp: log_file_def)

lemma log_file_wf: "log_file P cap es m \<Longrightarrow> e \<in> set es \<Longrightarrow> rec_wf e"
  by (simp add: log_file_def)

lemma log_file_empty: "log_file P cap [] (replicate cap 0)"
  by (simp add: log_file_def)

text \<open>Overwriting the zeros behind the log with a record extends the log.\<close>

lemma log_file_append:
  assumes P: "codec_ok P" and m: "log_file P cap es m" and e: "rec_wf e"
    and room: "log_size es + rec_size e \<le> cap"
  shows "log_file P cap (es @ [e]) (overwrite m (log_size es) (rec_bytes P e))"
proof -
  have "overwrite (log_bytes P es @ replicate (cap - log_size es) 0) (length (log_bytes P es))
      (rec_bytes P e) = log_bytes P es @ rec_bytes P e
        @ replicate (cap - log_size es - length (rec_bytes P e)) 0"
    by (rule overwrite_zeros) (use P room in simp)
  then show ?thesis using assms by (simp add: log_file_def)
qed

text \<open>Where a record starts.\<close>

lemma log_file_split:
  assumes "codec_ok P" "log_file P cap (es @ e # fs) m"
  shows "slice m (log_size es) (rec_size e) = rec_bytes P e"
  using assms by (simp add: log_file_def slice_def)

section \<open>The contract of the record iterator\<close>

text \<open>
  The iterator stands at offset \<open>off\<close>; the shared buffer is empty, unless the next
  header lies inside the file, in which case it is about to be overwritten.
\<close>

definition ri_at :: "'a pedrolib \<Rightarrow> 'f file_ops \<Rightarrow> 'f record_iterator \<Rightarrow> 'a \<Rightarrow> nat \<Rightarrow> bool" where
  "ri_at P F it buf off \<longleftrightarrow> ri_index it = off \<and> ri_read_index it = off
     \<and> ri_size it = f_Size F (ri_file it)
     \<and> (ab_bytes P buf = [] \<or> off + 14 < f_Size F (ri_file it))"

lemma ri_at_new: "14 < f_Size F f \<Longrightarrow> ri_at P F (ri_new F f) buf 0"
  by (simp add: ri_at_def ri_new_def)

lemma ri_at_seek:
  assumes "array_buffer_ok P"
  shows "ri_at P F (fst (ri_Seek P off (ri_new F f) buf)) (snd (ri_Seek P off (ri_new F f) buf))
     (unat off)"
  using assms by (simp add: ri_at_def ri_Seek_def ri_new_def)

context readable_file begin

lemma ri_fetch_inside:
  assumes P: "array_buffer_ok P" and f: "inv (ri_file it)" "ri_size it = f_Size F (ri_file it)"
    and n: "ri_read_index it + n < f_Size F (ri_file it)"
  shows "\<exists>buf'. ri_fetch P F n it buf = Some (it\<lparr>ri_read_index := ri_read_index it + n\<rparr>, buf')
     \<and> ab_bytes P buf' = slice (content (ri_file it)) (ri_read_index it) n"
  using assms read_content [OF f(1), of "ri_read_index it" n] size_content [OF f(1)]
  by (simp add: ri_fetch_def Let_def)

lemma ri_fetch_outside:
  assumes "ri_size it = f_Size F (ri_file it)" "ri_read_index it + n \<ge> f_Size F (ri_file it)"
  shows "ri_fetch P F n it buf = Some (it, buf)"
  using assms by (simp add: ri_fetch_def)

text \<open>A record that ends before the end of the file is delivered.\<close>

lemma ri_Valid_record:
  assumes P: "pedrolib_ok P" and f: "inv (ri_file it)"
    and it: "ri_at P F it buf off" and e: "rec_wf e"
    and rec: "slice (content (ri_file it)) off (rec_size e) = rec_bytes P e"
    and before: "off + rec_size e < f_Size F (ri_file it)"
  shows "\<exists>it' buf'. ri_Valid P F it buf = Some (True, it', buf') \<and> ri_entry it' = e
     \<and> ri_file it' = ri_file it \<and> ri_index it' = off \<and> ri_read_index it' = off + rec_size e
     \<and> ri_size it' = ri_size it \<and> ab_bytes P buf' = []"
proof -
  let ?c = "content (ri_file it)" and ?h = "rec_header_of e"
  let ?n = "length (re_key e) + length (re_value e)"
  have A: "array_buffer_ok P" "codec_ok P" using P by simp_all
  have size: "rec_size e = 14 + ?n" by (simp add: rec_size_def)
  have i: "ri_index it = off" "ri_read_index it = off" "ri_size it = f_Size F (ri_file it)"
    "ab_bytes P buf = [] \<or> off + 14 < f_Size F (ri_file it)"
    using it by (simp_all add: ri_at_def)
  obtain buf1 where b1: "ri_fetch P F 14 it buf = Some (it\<lparr>ri_read_index := off + 14\<rparr>, buf1)"
    "ab_bytes P buf1 = slice ?c off 14"
    using ri_fetch_inside [OF A(1) f i(3), of 14] i before size by auto
  have "slice ?c off 14 = take 14 (slice ?c off (rec_size e))" by (simp add: byte_simps size)
  then have "ab_bytes P buf1 = header_bytes P ?h"
    using A b1 by (simp add: rec rec_bytes_def)
  then obtain buf2 where b2: "header_unpack P (ab_rops P) buf1 = Some (?h, buf2)"
    "ab_bytes P buf2 = []"
    using readable_buffer.header_unpack_bytes [OF array_buffer_readable [OF A(1)] A(2),
        of buf1 ?h "[]"] e
    by (auto simp: rec_wf_def rec_header_of_def)
  let ?it1 = "it\<lparr>ri_read_index := off + 14\<rparr>"
  obtain buf3 where b3: "ri_fetch P F ?n ?it1 buf2 = Some (it\<lparr>ri_read_index := off + 14 + ?n\<rparr>, buf3)"
    "ab_bytes P buf3 = slice ?c (off + 14) ?n"
    using ri_fetch_inside [OF A(1), of ?it1 ?n buf2] f i before size by auto
  have "slice ?c (off + 14) ?n = drop 14 (slice ?c off (rec_size e))" by (simp add: byte_simps size)
  then have b3': "ab_bytes P buf3 = re_key e @ re_value e"
    using A b3 by (simp add: rec rec_bytes_def)
  have sum: "unat (ucast (rh_key_size ?h) + rh_value_size ?h :: u32) = ?n"
    using rec_wf_sum [OF e] by (simp add: rec_header_of_def)
  have ks: "unat (rh_key_size ?h) = length (re_key e)" "unat (rh_value_size ?h) = length (re_value e)"
    using e by (simp_all add: rec_header_of_def)
  have "\<not> off \<ge> f_Size F (ri_file it)" using before by simp
  then show ?thesis
    using b1 b2 b3(1) b3' i A size
    by (simp add: ri_Valid_def sum ks Let_def) (simp add: rec_header_of_def)
qed

text \<open>
  A record that ends exactly at the end of the file is not: \<^verbatim>\<open>fetch\<close> compares with
  \<open>\<ge>\<close>.
\<close>

lemma ri_Valid_at_end:
  assumes P: "pedrolib_ok P" and f: "inv (ri_file it)"
    and it: "ri_at P F it buf off" and e: "rec_wf e"
    and rec: "slice (content (ri_file it)) off (rec_size e) = rec_bytes P e"
    and at_end: "off + rec_size e = f_Size F (ri_file it)"
  shows "\<exists>it' buf'. ri_Valid P F it buf = Some (False, it', buf')"
proof -
  let ?c = "content (ri_file it)" and ?h = "rec_header_of e"
  let ?n = "length (re_key e) + length (re_value e)"
  have A: "array_buffer_ok P" "codec_ok P" using P by simp_all
  have size: "rec_size e = 14 + ?n" by (simp add: rec_size_def)
  have i: "ri_index it = off" "ri_read_index it = off" "ri_size it = f_Size F (ri_file it)"
    "ab_bytes P buf = [] \<or> off + 14 < f_Size F (ri_file it)"
    using it by (simp_all add: ri_at_def)
  have inside: "\<not> off \<ge> f_Size F (ri_file it)" using at_end size by simp
  show ?thesis
  proof (cases "?n = 0")
    case True
    then have "ri_fetch P F 14 it buf = Some (it, buf)"
      using ri_fetch_outside [OF i(3), of 14] at_end size i by simp
    moreover have "header_unpack P (ab_rops P) buf = None"
      using i at_end size True by (simp add: header_unpack_def)
    ultimately show ?thesis using inside i by (simp add: ri_Valid_def)
  next
    case False
    obtain buf1 where b1: "ri_fetch P F 14 it buf = Some (it\<lparr>ri_read_index := off + 14\<rparr>, buf1)"
      "ab_bytes P buf1 = slice ?c off 14"
      using ri_fetch_inside [OF A(1) f i(3), of 14] i at_end size False by auto
    have "slice ?c off 14 = take 14 (slice ?c off (rec_size e))" by (simp add: byte_simps size)
    then have "ab_bytes P buf1 = header_bytes P ?h"
      using A b1 by (simp add: rec rec_bytes_def)
    then obtain buf2 where b2: "header_unpack P (ab_rops P) buf1 = Some (?h, buf2)"
      "ab_bytes P buf2 = []"
      using readable_buffer.header_unpack_bytes [OF array_buffer_readable [OF A(1)] A(2),
          of buf1 ?h "[]"] e
      by (auto simp: rec_wf_def rec_header_of_def)
    have sum: "unat (ucast (rh_key_size ?h) + rh_value_size ?h :: u32) = ?n"
      using rec_wf_sum [OF e] by (simp add: rec_header_of_def)
    have "ri_fetch P F ?n (it\<lparr>ri_read_index := off + 14\<rparr>) buf2
        = Some (it\<lparr>ri_read_index := off + 14\<rparr>, buf2)"
      by (rule ri_fetch_outside) (use i at_end size in simp_all)
    then show ?thesis
      using b1 b2 inside i False by (simp add: ri_Valid_def sum Let_def)
  qed
qed

text \<open>Zeros end the iteration.\<close>

lemma ri_Valid_zeros:
  assumes P: "pedrolib_ok P" and f: "inv (ri_file it)" and it: "ri_at P F it buf off"
    and zeros: "drop off (content (ri_file it)) = replicate n 0"
  shows "\<exists>it' buf'. ri_Valid P F it buf = Some (False, it', buf')"
proof -
  have A: "array_buffer_ok P" "codec_ok P" using P by simp_all
  have i: "ri_index it = off" "ri_read_index it = off" "ri_size it = f_Size F (ri_file it)"
    "ab_bytes P buf = [] \<or> off + 14 < f_Size F (ri_file it)"
    using it by (simp_all add: ri_at_def)
  show ?thesis
  proof (cases "off + 14 < f_Size F (ri_file it)")
    case True
    then obtain buf1 where b1: "ri_fetch P F 14 it buf = Some (it\<lparr>ri_read_index := off + 14\<rparr>, buf1)"
      "ab_bytes P buf1 = slice (content (ri_file it)) off 14"
      using ri_fetch_inside [OF A(1) f i(3), of 14] i by auto
    have "ab_bytes P buf1 = replicate (min 14 n) 0"
      using b1 zeros by (simp add: slice_def)
    then have "header_unpack P (ab_rops P) buf1 = None"
      using readable_buffer.header_unpack_zeros [OF array_buffer_readable [OF A(1)] A(2), of buf1]
      by simp
    then show ?thesis using b1 i by (simp add: ri_Valid_def)
  next
    case False
    then have "ri_fetch P F 14 it buf = Some (it, buf)"
      using ri_fetch_outside [OF i(3), of 14] i by simp
    moreover have "header_unpack P (ab_rops P) buf = None"
      using i False by (simp add: header_unpack_def)
    ultimately show ?thesis using i by (simp add: ri_Valid_def)
  qed
qed

end

lemma ri_Next_at:
  assumes "rec_wf (ri_entry it)" "ri_read_index it = ri_index it + rec_size (ri_entry it)"
    "ri_size it = f_Size F (ri_file it)" "ab_bytes P buf = []"
  shows "ri_at P F (snd (ri_Next it)) buf (ri_index it + rec_size (ri_entry it))"
    and "fst (ri_Next it) = ri_entry it" and "ri_file (snd (ri_Next it)) = ri_file it"
  using assms by (simp_all add: ri_Next_def ri_at_def)

end
