(* ===== verification/LruCache.thy ===== *)
theory LruCache
  imports Prelude "HOL-Library.AList"
begin

text \<open>
  \<^verbatim>\<open>include/pedrodb/cache/lru_cache.h\<close>: a hash map from keys to nodes and a circular
  doubly linked list of the nodes through a sentinel, modelled as an explicit heap with one
  map per field. \<open>lru_rep s as\<close> relates a heap to the list of its node addresses; every
  operation is then shown to act on the list of entries as the specification functions
  \<open>lru_spec_*\<close> say. The locale \<open>cache\<close> is the contract that the users of the cache
  rely on, interpreted on the heap model at the end.
\<close>

section \<open>The contract of a cache\<close>

record ('k, 'v, 'c) cache_ops =
  c_get :: "'k \<Rightarrow> 'c \<Rightarrow> 'v option \<times> 'c"
  c_put :: "'k \<Rightarrow> 'v \<Rightarrow> 'c \<Rightarrow> 'c"
  c_remove :: "'k \<Rightarrow> 'c \<Rightarrow> 'v option \<times> 'c"

text \<open>Every cached value satisfies \<open>Q\<close>.\<close>

definition cache_sound :: "('c \<Rightarrow> 'k \<Rightarrow> 'v option) \<Rightarrow> ('k \<Rightarrow> 'v \<Rightarrow> bool) \<Rightarrow> 'c \<Rightarrow> bool" where
  "cache_sound lookup Q c \<longleftrightarrow> (\<forall>k v. lookup c k = Some v \<longrightarrow> Q k v)"

text \<open>
  \<open>lookup\<close> is what the cache holds. A lookup that hits returns what is held and changes
  nothing that is held; an insertion may forget other keys but never changes their values.
\<close>

locale cache =
  fixes C :: "('k, 'v, 'c) cache_ops"
    and lookup :: "'c \<Rightarrow> 'k \<Rightarrow> 'v option"
    and inv :: "'c \<Rightarrow> bool"
  assumes get_hit: "inv c \<Longrightarrow> fst (c_get C k c) = Some v \<Longrightarrow> lookup c k = Some v"
    and get_lookup: "inv c \<Longrightarrow> lookup (snd (c_get C k c)) = lookup c"
    and get_inv: "inv c \<Longrightarrow> inv (snd (c_get C k c))"
    and put_lookup: "inv c \<Longrightarrow> lookup (c_put C k v c) k' = Some w \<Longrightarrow>
          (if k' = k then w = v else lookup c k' = Some w)"
    and put_inv: "inv c \<Longrightarrow> inv (c_put C k v c)"
    and remove_lookup: "inv c \<Longrightarrow> lookup (snd (c_remove C k c)) = (lookup c)(k := None)"
    and remove_inv: "inv c \<Longrightarrow> inv (snd (c_remove C k c))"
begin

lemma sound_hit:
  "inv c \<Longrightarrow> cache_sound lookup Q c \<Longrightarrow> c_get C k c = (Some v, c') \<Longrightarrow> Q k v"
  using get_hit [of c k v] by (simp add: cache_sound_def)

lemma sound_get:
  "inv c \<Longrightarrow> cache_sound lookup Q c \<Longrightarrow> cache_sound lookup Q (snd (c_get C k c))"
  by (simp add: cache_sound_def get_lookup)

lemma sound_put:
  assumes "inv c" "cache_sound lookup Q c" "Q k v"
  shows "cache_sound lookup Q (c_put C k v c)"
  unfolding cache_sound_def
proof (intro allI impI)
  fix k' w
  assume "lookup (c_put C k v c) k' = Some w"
  from put_lookup [OF assms(1) this] show "Q k' w"
    using assms(2,3) by (auto simp: cache_sound_def split: if_splits)
qed

lemma sound_remove:
  "inv c \<Longrightarrow> cache_sound lookup Q c \<Longrightarrow> cache_sound lookup Q (snd (c_remove C k c))"
  by (simp add: cache_sound_def remove_lookup)

lemmas cache_steps = get_inv put_inv remove_inv sound_get sound_put sound_remove

end

section \<open>The heap of the cache\<close>

text \<open>
  Address 0 is the sentinel \<^verbatim>\<open>lru_\<close>. \<open>lru_node\<close> holds the key and the value
  of the allocated nodes; \<open>lru_fresh\<close> is the address the next \<^verbatim>\<open>New\<close> returns.
\<close>

record ('k, 'v) lru =
  lru_keys :: "('k \<times> nat) list"
  lru_capacity :: nat
  lru_prev :: "nat \<Rightarrow> nat"
  lru_next :: "nat \<Rightarrow> nat"
  lru_node :: "nat \<Rightarrow> ('k \<times> 'v) option"
  lru_fresh :: nat

definition lru_init :: "nat \<Rightarrow> ('k, 'v) lru" where
  "lru_init capacity = \<lparr>lru_keys = [], lru_capacity = capacity, lru_prev = (\<lambda>_. 0),
     lru_next = (\<lambda>_. 0), lru_node = (\<lambda>_. None), lru_fresh = 1\<rparr>"

definition set_prev :: "nat \<Rightarrow> nat \<Rightarrow> ('k, 'v) lru \<Rightarrow> ('k, 'v) lru" where
  "set_prev p q s = s\<lparr>lru_prev := (lru_prev s)(p := q)\<rparr>"

definition set_next :: "nat \<Rightarrow> nat \<Rightarrow> ('k, 'v) lru \<Rightarrow> ('k, 'v) lru" where
  "set_next p q s = s\<lparr>lru_next := (lru_next s)(p := q)\<rparr>"

text \<open>\<^verbatim>\<open>ptr->prev->next = ptr->next; ptr->next->prev = ptr->prev;\<close>\<close>

definition lru_unlink :: "nat \<Rightarrow> ('k, 'v) lru \<Rightarrow> ('k, 'v) lru" where
  "lru_unlink ptr s =
     (let s = set_next (lru_prev s ptr) (lru_next s ptr) s
      in set_prev (lru_next s ptr) (lru_prev s ptr) s)"

text \<open>The four assignments that put a node in front of the sentinel.\<close>

definition lru_link_back :: "nat \<Rightarrow> ('k, 'v) lru \<Rightarrow> ('k, 'v) lru" where
  "lru_link_back ptr s =
     (let s = set_prev ptr (lru_prev s 0) s;
          s = set_next ptr 0 s;
          s = set_next (lru_prev s ptr) ptr s
      in set_prev (lru_next s ptr) ptr s)"

definition lru_New :: "('k, 'v) lru \<Rightarrow> nat \<times> ('k, 'v) lru" where
  "lru_New s = (lru_fresh s, s\<lparr>lru_fresh := Suc (lru_fresh s)\<rparr>)"

definition lru_Free :: "nat \<Rightarrow> ('k, 'v) lru \<Rightarrow> ('k, 'v) lru" where
  "lru_Free ptr s = s\<lparr>lru_node := (lru_node s)(ptr := None)\<rparr>"

section \<open>Operations\<close>

definition lru_Get :: "'k \<Rightarrow> ('k, 'v) lru \<Rightarrow> 'v option \<times> ('k, 'v) lru" where
  "lru_Get key s =
     (if lru_capacity s = 0 then (None, s)
      else case map_of (lru_keys s) key of
        None \<Rightarrow> (None, s)
      | Some ptr \<Rightarrow>
          let val = map_option snd (lru_node s ptr);
              s = set_prev (lru_next s ptr) (lru_prev s ptr) s;
              s = set_next (lru_prev s ptr) (lru_next s ptr) s
          in (val, lru_link_back ptr s))"

definition lru_Remove :: "'k \<Rightarrow> ('k, 'v) lru \<Rightarrow> 'v option \<times> ('k, 'v) lru" where
  "lru_Remove key s =
     (if lru_capacity s = 0 then (None, s)
      else case map_of (lru_keys s) key of
        None \<Rightarrow> (None, s)
      | Some ptr \<Rightarrow>
          let val = map_option snd (lru_node s ptr);
              s = lru_Free ptr (lru_unlink ptr s)
          in (val, s\<lparr>lru_keys := AList.delete key (lru_keys s)\<rparr>))"

definition lru_Evict :: "('k, 'v) lru \<Rightarrow> ('k, 'v) lru" where
  "lru_Evict s =
     (if lru_keys s \<noteq> [] then s
      else
        let ptr = lru_next s 0
        in if ptr = 0 then s
           else case lru_node s ptr of
             None \<Rightarrow> s
           | Some (key, _) \<Rightarrow>
               lru_Free ptr (lru_unlink ptr (s\<lparr>lru_keys := AList.delete key (lru_keys s)\<rparr>)))"

definition lru_Put :: "'k \<Rightarrow> 'v \<Rightarrow> ('k, 'v) lru \<Rightarrow> ('k, 'v) lru" where
  "lru_Put key val s =
     (if lru_capacity s = 0 then s
      else case map_of (lru_keys s) key of
        Some ptr \<Rightarrow>
          let s = lru_link_back ptr (lru_unlink ptr s)
          in s\<lparr>lru_node := (lru_node s)(ptr \<mapsto> (key, val))\<rparr>
      | None \<Rightarrow>
          let s = (if length (lru_keys s) + 1 = lru_capacity s then lru_Evict s else s);
              (ptr, s) = lru_New s;
              s = lru_link_back ptr s;
              s = s\<lparr>lru_node := (lru_node s)(ptr \<mapsto> (key, val))\<rparr>
          in s\<lparr>lru_keys := AList.update key ptr (lru_keys s)\<rparr>)"

text \<open>
  The loop of the destructor. Reading the link of a node that is not allocated is \<open>None\<close>, as
  is a loop that does not end.
\<close>

partial_function (option) lru_destroy_from :: "nat \<Rightarrow> ('k, 'v) lru \<Rightarrow> ('k, 'v) lru option" where
  "lru_destroy_from node s =
     (if node = 0 then Some s
      else case lru_node s node of
        None \<Rightarrow> None
      | Some _ \<Rightarrow> lru_destroy_from (lru_next s node) (lru_Free node s))"

definition lru_destroy :: "('k, 'v) lru \<Rightarrow> ('k, 'v) lru option" where
  "lru_destroy s = lru_destroy_from (lru_next s 0) s"

text \<open>The class as an argument of the templates built on it.\<close>

definition lru_ops :: "('k, 'v, ('k, 'v) lru) cache_ops" where
  "lru_ops = \<lparr>c_get = lru_Get, c_put = lru_Put, c_remove = lru_Remove\<rparr>"

section \<open>Doubly linked paths\<close>

text \<open>\<open>dll n p a xs b\<close>: from \<open>a\<close> the links lead over \<open>xs\<close> to \<open>b\<close>, and back.\<close>

fun dll :: "(nat \<Rightarrow> nat) \<Rightarrow> (nat \<Rightarrow> nat) \<Rightarrow> nat \<Rightarrow> nat list \<Rightarrow> nat \<Rightarrow> bool" where
  "dll n p a [] b \<longleftrightarrow> n a = b \<and> p b = a"
| "dll n p a (x # xs) b \<longleftrightarrow> n a = x \<and> p x = a \<and> dll n p x xs b"

lemma dll_append [simp]:
  "dll n p a (xs @ y # ys) b \<longleftrightarrow> dll n p a xs y \<and> dll n p y ys b"
  by (induction xs arbitrary: a) auto

lemma dll_next_upd: "u \<notin> set (a # xs) \<Longrightarrow> dll (n(u := v)) p a xs b = dll n p a xs b"
  by (induction xs arbitrary: a) auto

lemma dll_prev_upd: "u \<notin> set (b # xs) \<Longrightarrow> dll n (p(u := v)) a xs b = dll n p a xs b"
  by (induction xs arbitrary: a) auto

lemma dll_last: "dll n p a xs b \<Longrightarrow> p b = last (a # xs)"
  by (induction xs arbitrary: a) auto

lemma dll_first: "dll n p a xs b \<Longrightarrow> n a = hd (xs @ [b])"
  by (cases xs) auto

lemma dll_unlink:
  assumes "dll n p a (xs @ x # ys) b" "distinct (a # xs @ x # ys)" "b \<notin> set (xs @ x # ys)"
  shows "dll (n(p x := n x)) (p(n x := p x)) a (xs @ ys) b"
  using assms
proof (induction xs arbitrary: a)
  case Nil
  show ?case
  proof (cases ys)
    case Nil
    with \<open>dll n p a ([] @ x # ys) b\<close> show ?thesis by simp
  next
    case (Cons y zs)
    with Nil.prems have e: "p x = a" "n x = y" "dll n p y zs b"
      and d: "a \<notin> set (y # zs)" "y \<notin> set (b # zs)" by auto
    then have "dll (n(a := y)) (p(y := a)) y zs b" by (simp add: dll_next_upd dll_prev_upd)
    with e Cons show ?thesis by (simp del: fun_upd_apply add: fun_upd_same)
  qed
next
  case (Cons z zs)
  then have path: "dll n p z zs x" "dll n p x ys b" by auto
  have "p x \<in> set (z # zs)" using dll_last [OF path(1)] by auto
  moreover have "n x \<in> set (ys @ [b])" using dll_first [OF path(2)] by (cases ys) auto
  ultimately have "a \<noteq> p x" "z \<noteq> n x" using Cons.prems by auto
  with Cons show ?case by auto
qed

lemma dll_link_back:
  assumes "dll n p a xs b" "distinct (a # xs)" "b \<notin> set xs" "x \<notin> set (a # b # xs)"
  shows "dll (n(x := b, p b := x)) (p(x := p b, b := x)) a (xs @ [x]) b"
  using assms
proof (induction xs arbitrary: a)
  case Nil
  then show ?case by auto
next
  case (Cons z zs)
  then have "p b \<in> set (z # zs)" using dll_last [of n p z zs b] by auto
  with Cons have "a \<noteq> p b" by auto
  with Cons show ?case by auto
qed

section \<open>Representation\<close>

definition lru_rep :: "('k, 'v) lru \<Rightarrow> nat list \<Rightarrow> bool" where
  "lru_rep s as \<longleftrightarrow>
     dll (lru_next s) (lru_prev s) 0 as 0 \<and> distinct (0 # as) \<and> distinct (map fst (lru_keys s)) \<and>
     dom (lru_node s) = set as \<and> (\<forall>a \<in> set as. a < lru_fresh s) \<and> 0 < lru_fresh s \<and>
     (\<forall>k a. map_of (lru_keys s) k = Some a \<longleftrightarrow> (\<exists>v. lru_node s a = Some (k, v)))"

definition lru_inv :: "('k, 'v) lru \<Rightarrow> bool" where
  "lru_inv s \<longleftrightarrow> (\<exists>as. lru_rep s as)"

definition lru_lookup :: "('k, 'v) lru \<Rightarrow> 'k \<Rightarrow> 'v option" where
  "lru_lookup s k = (case map_of (lru_keys s) k of None \<Rightarrow> None
     | Some a \<Rightarrow> map_option snd (lru_node s a))"

text \<open>The entries of the cache, the least recently used first.\<close>

definition lru_entries :: "('k, 'v) lru \<Rightarrow> nat list \<Rightarrow> ('k \<times> 'v) list" where
  "lru_entries s as = map (\<lambda>a. the (lru_node s a)) as"

lemma lru_repD:
  assumes "lru_rep s as"
  shows "dll (lru_next s) (lru_prev s) 0 as 0" "distinct (0 # as)" "distinct (map fst (lru_keys s))"
    "dom (lru_node s) = set as" "\<And>a. a \<in> set as \<Longrightarrow> a < lru_fresh s" "0 < lru_fresh s"
    "\<And>k a. map_of (lru_keys s) k = Some a \<longleftrightarrow> (\<exists>v. lru_node s a = Some (k, v))"
  using assms by (simp_all add: lru_rep_def)

lemma lru_init_rep: "lru_rep (lru_init capacity) []"
  by (simp add: lru_rep_def lru_init_def)

lemma lru_key_node:
  assumes "lru_rep s as" "map_of (lru_keys s) k = Some a"
  obtains v where "lru_node s a = Some (k, v)" "a \<in> set as"
  using assms lru_repD(4,7) [OF assms(1)] by blast

lemma lru_node_inj:
  assumes "lru_rep s as" "lru_node s a = Some (k, v)" "lru_node s b = Some (k, w)"
  shows "a = b"
  using lru_repD(7) [OF assms(1), of k a] lru_repD(7) [OF assms(1), of k b] assms(2,3) by auto

lemma lru_lookup_None:
  assumes "lru_rep s as"
  shows "lru_lookup s k = None \<longleftrightarrow> map_of (lru_keys s) k = None"
proof (cases "map_of (lru_keys s) k")
  case (Some a)
  from lru_key_node [OF assms this] obtain v where "lru_node s a = Some (k, v)" .
  with Some show ?thesis by (simp add: lru_lookup_def)
qed (simp add: lru_lookup_def)

lemma lru_entries_lookup:
  assumes "lru_rep s as"
  shows "map_of (lru_entries s as) k = lru_lookup s k"
proof -
  have upto: "map_of (lru_entries s bs) k = lru_lookup s k \<or> map_of (lru_entries s bs) k = None"
    if "set bs \<subseteq> set as" for bs
    using that
  proof (induction bs)
    case (Cons b bs)
    then obtain k' v where b: "lru_node s b = Some (k', v)"
      using lru_repD(4) [OF assms] by fastforce
    then have "map_of (lru_keys s) k' = Some b" using lru_repD(7) [OF assms] by blast
    with b Cons show ?case
      by (auto simp: lru_entries_def lru_lookup_def)
  qed (simp add: lru_entries_def)
  have "map_of (lru_entries s as) k \<noteq> None" if "lru_lookup s k = Some v" for v
  proof -
    from that obtain a where "map_of (lru_keys s) k = Some a"
      by (auto simp: lru_lookup_def split: option.splits)
    from lru_key_node [OF assms this] obtain w where "lru_node s a = Some (k, w)" "a \<in> set as" .
    then have "(k, w) \<in> set (lru_entries s as)" by (force simp: lru_entries_def)
    then show ?thesis by (auto dest: weak_map_of_SomeI)
  qed
  then show ?thesis using upto [OF subset_refl] by (cases "lru_lookup s k") auto
qed

lemma lru_entries_distinct:
  assumes "lru_rep s as"
  shows "distinct (map fst (lru_entries s as))"
proof -
  have "inj_on (\<lambda>a. fst (the (lru_node s a))) (set as)"
  proof (rule inj_onI)
    fix a b assume "a \<in> set as" "b \<in> set as" "fst (the (lru_node s a)) = fst (the (lru_node s b))"
    moreover from this obtain k v k' w where "lru_node s a = Some (k, v)" "lru_node s b = Some (k', w)"
      using lru_repD(4) [OF assms] by (metis domD surj_pair)
    ultimately show "a = b" using lru_node_inj [OF assms] by simp
  qed
  moreover have "distinct as" using lru_repD(2) [OF assms] by simp
  ultimately show ?thesis by (simp add: lru_entries_def distinct_map comp_def)
qed

text \<open>The map has one key per node of the list.\<close>

lemma lru_size:
  assumes "lru_rep s as"
  shows "length (lru_keys s) = length as"
proof -
  have "set (map fst (lru_keys s)) = set (map fst (lru_entries s as))"
  proof -
    have "k \<in> set (map fst (lru_keys s)) \<longleftrightarrow> k \<in> set (map fst (lru_entries s as))" for k
    proof -
      have "k \<in> set (map fst (lru_keys s)) \<longleftrightarrow> lru_lookup s k \<noteq> None"
        using lru_lookup_None [OF assms, of k] map_of_eq_None_iff [of "lru_keys s" k] by simp
      also have "\<dots> \<longleftrightarrow> k \<in> set (map fst (lru_entries s as))"
        using lru_entries_lookup [OF assms, of k] map_of_eq_None_iff [of "lru_entries s as" k] by simp
      finally show ?thesis .
    qed
    then show ?thesis by blast
  qed
  then have "length (map fst (lru_keys s)) = length (map fst (lru_entries s as))"
    using lru_repD(3) [OF assms] lru_entries_distinct [OF assms] by (metis distinct_card)
  then show ?thesis by (simp add: lru_entries_def)
qed

section \<open>The operations on the list of entries\<close>

definition lru_spec_touch :: "'k \<Rightarrow> 'v \<Rightarrow> ('k \<times> 'v) list \<Rightarrow> ('k \<times> 'v) list" where
  "lru_spec_touch k v xs = filter (\<lambda>e. fst e \<noteq> k) xs @ [(k, v)]"

definition lru_spec_remove :: "'k \<Rightarrow> ('k \<times> 'v) list \<Rightarrow> ('k \<times> 'v) list" where
  "lru_spec_remove k xs = filter (\<lambda>e. fst e \<noteq> k) xs"

lemma lru_neighbours:
  assumes "lru_rep s (xs @ a # ys)"
  shows "lru_prev s a \<noteq> a" "lru_next s a \<noteq> a"
proof -
  from lru_repD(1) [OF assms] have path: "dll (lru_next s) (lru_prev s) 0 xs a"
    "dll (lru_next s) (lru_prev s) a ys 0" by auto
  have "lru_prev s a \<in> set (0 # xs)" "lru_next s a \<in> set (ys @ [0])"
    using dll_last [OF path(1)] dll_first [OF path(2)] by (auto simp: hd_append)
  then show "lru_prev s a \<noteq> a" "lru_next s a \<noteq> a"
    using lru_repD(2) [OF assms] by auto
qed

lemma lru_unlink_fields:
  assumes "lru_prev s a \<noteq> a"
  shows "lru_unlink a s = s\<lparr>lru_next := (lru_next s)(lru_prev s a := lru_next s a),
     lru_prev := (lru_prev s)(lru_next s a := lru_prev s a)\<rparr>"
  using assms by (simp add: lru_unlink_def set_next_def set_prev_def Let_def)

lemma lru_unlink_orders:
  assumes "lru_prev s a \<noteq> a" "lru_next s a \<noteq> a"
  shows "(let s = set_prev (lru_next s a) (lru_prev s a) s
          in set_next (lru_prev s a) (lru_next s a) s) = lru_unlink a s"
  using assms by (simp add: lru_unlink_def set_next_def set_prev_def Let_def)

lemma lru_link_back_fields:
  assumes "lru_prev s 0 \<noteq> a"
  shows "lru_link_back a s = s\<lparr>lru_next := (lru_next s)(a := 0, lru_prev s 0 := a),
     lru_prev := (lru_prev s)(a := lru_prev s 0, 0 := a)\<rparr>"
  using assms by (simp add: lru_link_back_def set_next_def set_prev_def Let_def)

lemma lru_unlink_path:
  assumes "lru_rep s (xs @ a # ys)"
  shows "dll (lru_next (lru_unlink a s)) (lru_prev (lru_unlink a s)) 0 (xs @ ys) 0"
  using dll_unlink [OF lru_repD(1) [OF assms]] lru_repD(2) [OF assms]
  by (simp add: lru_unlink_fields lru_neighbours [OF assms])

lemma lru_link_back_path:
  assumes "dll (lru_next s) (lru_prev s) 0 as 0" "distinct (0 # as)" "a \<notin> set (0 # as)"
  shows "dll (lru_next (lru_link_back a s)) (lru_prev (lru_link_back a s)) 0 (as @ [a]) 0"
proof -
  have "lru_prev s 0 \<noteq> a" using dll_last [OF assms(1)] assms(3) by auto
  moreover have "dll ((lru_next s)(a := 0, lru_prev s 0 := a)) ((lru_prev s)(a := lru_prev s 0, 0 := a))
      0 (as @ [a]) 0"
    by (rule dll_link_back [OF assms(1)]) (use assms in auto)
  ultimately show ?thesis by (simp add: lru_link_back_fields)
qed

lemma lru_links_frame [simp]:
  "lru_keys (lru_unlink a s) = lru_keys s" "lru_node (lru_unlink a s) = lru_node s"
  "lru_fresh (lru_unlink a s) = lru_fresh s" "lru_capacity (lru_unlink a s) = lru_capacity s"
  "lru_keys (lru_link_back a s) = lru_keys s" "lru_node (lru_link_back a s) = lru_node s"
  "lru_fresh (lru_link_back a s) = lru_fresh s" "lru_capacity (lru_link_back a s) = lru_capacity s"
  by (simp_all add: lru_unlink_def lru_link_back_def set_next_def set_prev_def Let_def)

text \<open>Unlinking a node and linking it before the sentinel moves it to the back.\<close>

lemma lru_move_rep:
  assumes rep: "lru_rep s (xs @ a # ys)"
  shows "lru_rep (lru_link_back a (lru_unlink a s)) (xs @ ys @ [a])"
proof -
  have "dll (lru_next (lru_link_back a (lru_unlink a s))) (lru_prev (lru_link_back a (lru_unlink a s)))
      0 ((xs @ ys) @ [a]) 0"
    by (rule lru_link_back_path [OF lru_unlink_path [OF rep]]) (use lru_repD(2) [OF rep] in auto)
  then show ?thesis using rep by (auto simp: lru_rep_def)
qed

lemma lru_entries_filter:
  assumes rep: "lru_rep s (xs @ a # ys)" and a: "lru_node s a = Some (k, v)"
  shows "filter (\<lambda>e. fst e \<noteq> k) (lru_entries s (xs @ a # ys)) = lru_entries s (xs @ ys)"
proof -
  have "fst (the (lru_node s b)) \<noteq> k" if "b \<in> set (xs @ ys)" for b
  proof
    assume "fst (the (lru_node s b)) = k"
    moreover from that have "b \<in> dom (lru_node s)" using lru_repD(4) [OF rep] by auto
    ultimately have "lru_node s b = Some (k, snd (the (lru_node s b)))" by auto
    from lru_node_inj [OF rep this a] that show False using lru_repD(2) [OF rep] by auto
  qed
  then show ?thesis using a by (simp add: lru_entries_def filter_map comp_def)
qed

lemma lru_Get_miss: "lru_lookup s k = None \<Longrightarrow> lru_rep s as \<Longrightarrow> lru_Get k s = (None, s)"
  by (simp add: lru_Get_def lru_lookup_None)

lemma lru_Get_hit:
  assumes rep: "lru_rep s as" and cap: "lru_capacity s \<noteq> 0" and hit: "lru_lookup s k = Some v"
  shows "\<exists>s' as'. lru_Get k s = (Some v, s') \<and> lru_rep s' as' \<and> lru_lookup s' = lru_lookup s
     \<and> lru_entries s' as' = lru_spec_touch k v (lru_entries s as)"
proof -
  from hit obtain a where key: "map_of (lru_keys s) k = Some a" and a: "lru_node s a = Some (k, v)"
    using lru_key_node [OF rep] by (fastforce simp: lru_lookup_def split: option.splits)
  then obtain xs ys where as: "as = xs @ a # ys"
    using lru_repD(4) [OF rep] by (metis domI split_list)
  let ?s = "lru_link_back a (lru_unlink a s)"
  have "lru_Get k s = (Some v, ?s)"
    using cap key a lru_unlink_orders [OF lru_neighbours [OF rep [unfolded as]]]
    by (simp add: lru_Get_def Let_def)
  moreover have "lru_rep ?s (xs @ ys @ [a])" using rep lru_move_rep as by blast
  moreover have "lru_lookup ?s = lru_lookup s"
    by (rule ext) (simp add: lru_lookup_def split: option.split)
  moreover have "lru_entries ?s (xs @ ys @ [a]) = lru_spec_touch k v (lru_entries s as)"
    using lru_entries_filter [OF rep [unfolded as] a] a
    by (simp add: as lru_spec_touch_def) (simp add: lru_entries_def)
  ultimately show ?thesis by blast
qed

text \<open>The guard of \<^verbatim>\<open>Evict\<close> returns when there is something to evict.\<close>

lemma lru_Evict_id:
  assumes rep: "lru_rep s as"
  shows "lru_Evict s = s"
proof (cases "lru_keys s = []")
  case True
  then have "as = []" using lru_size [OF rep] by simp
  then show ?thesis using lru_repD(1) [OF rep] by (simp add: lru_Evict_def Let_def)
qed (simp add: lru_Evict_def)

lemma lru_Put_present:
  assumes rep: "lru_rep s as" and cap: "lru_capacity s \<noteq> 0" and hit: "lru_lookup s k \<noteq> None"
  shows "\<exists>as'. lru_rep (lru_Put k v s) as' \<and> lru_lookup (lru_Put k v s) = (lru_lookup s)(k \<mapsto> v)
     \<and> length as' = length as
     \<and> lru_entries (lru_Put k v s) as' = lru_spec_touch k v (lru_entries s as)"
proof -
  from hit obtain a where key: "map_of (lru_keys s) k = Some a"
    using lru_lookup_None [OF rep, of k] by auto
  from lru_key_node [OF rep key] obtain w where a: "lru_node s a = Some (k, w)" "a \<in> set as" .
  then obtain xs ys where as: "as = xs @ a # ys" by (metis split_list)
  let ?m = "lru_link_back a (lru_unlink a s)" and ?as = "xs @ ys @ [a]"
  have put: "lru_Put k v s = ?m\<lparr>lru_node := (lru_node s)(a \<mapsto> (k, v))\<rparr>"
    using cap key by (simp add: lru_Put_def Let_def)
  have m: "lru_rep ?m ?as" using rep lru_move_rep as by blast
  have keys: "map_of (lru_keys s) k' = Some b
      \<longleftrightarrow> (\<exists>u. ((lru_node s)(a \<mapsto> (k, v))) b = Some (k', u))" for k' b
    using lru_repD(7) [OF rep, of k' b] a key by auto
  have dom: "dom ((lru_node s)(a \<mapsto> (k, v))) = set ?as"
    using lru_repD(4) [OF m] a by auto
  have rep': "lru_rep (lru_Put k v s) ?as"
    using lru_repD(1,2,3,5,6) [OF m] keys dom unfolding put lru_rep_def by simp
  have "lru_lookup (lru_Put k v s) k' = ((lru_lookup s)(k \<mapsto> v)) k'" for k'
  proof (cases "map_of (lru_keys s) k' = Some a")
    case True
    then have "k' = k" using lru_repD(7) [OF rep, of k' a] a by auto
    with True show ?thesis by (simp add: put lru_lookup_def)
  next
    case False
    then have "k' \<noteq> k" using key by auto
    with False show ?thesis by (auto simp: put lru_lookup_def split: option.splits)
  qed
  moreover have "lru_entries (lru_Put k v s) ?as = lru_spec_touch k v (lru_entries s as)"
  proof -
    have "a \<notin> set (xs @ ys)" using lru_repD(2) [OF rep] as by auto
    then show ?thesis
      using lru_entries_filter [OF rep [unfolded as] a(1)]
      by (simp add: as lru_spec_touch_def) (auto simp: put lru_entries_def)
  qed
  ultimately show ?thesis using rep' as by (intro exI [of _ ?as]) auto
qed

lemma lru_Put_absent:
  assumes rep: "lru_rep s as" and cap: "lru_capacity s \<noteq> 0" and miss: "lru_lookup s k = None"
  shows "\<exists>as'. lru_rep (lru_Put k v s) as' \<and> lru_lookup (lru_Put k v s) = (lru_lookup s)(k \<mapsto> v)
     \<and> length as' = Suc (length as)
     \<and> lru_entries (lru_Put k v s) as' = lru_spec_touch k v (lru_entries s as)"
proof -
  let ?a = "lru_fresh s" and ?t = "s\<lparr>lru_fresh := Suc (lru_fresh s)\<rparr>"
  have key: "map_of (lru_keys s) k = None" using miss lru_lookup_None [OF rep] by simp
  have put: "lru_Put k v s = (lru_link_back ?a ?t)\<lparr>lru_node := (lru_node s)(?a \<mapsto> (k, v)),
      lru_keys := AList.update k ?a (lru_keys s)\<rparr>"
    using cap key lru_Evict_id [OF rep] by (simp add: lru_Put_def lru_New_def Let_def)
  have new: "?a \<notin> set (0 # as)" using lru_repD(5,6) [OF rep] by auto
  then have free: "lru_node s ?a = None" using lru_repD(4) [OF rep] by auto
  have path: "dll (lru_next (lru_link_back ?a ?t)) (lru_prev (lru_link_back ?a ?t)) 0 (as @ [?a]) 0"
    by (rule lru_link_back_path) (use lru_repD(1,2) [OF rep] new in simp_all)
  have absent: "lru_node s b \<noteq> Some (k, u)" for b u
    using lru_repD(7) [OF rep, of k b] key by auto
  have keys: "map_of (AList.update k ?a (lru_keys s)) k' = Some b
      \<longleftrightarrow> (\<exists>u. ((lru_node s)(?a \<mapsto> (k, v))) b = Some (k', u))" for k' b
    using lru_repD(7) [OF rep, of k' b] free absent
    by (cases "k' = k") (auto simp: update_conv)
  have "lru_rep (lru_Put k v s) (as @ [?a])"
    using path keys lru_repD(2,3,4,5,6) [OF rep] new distinct_update [of "lru_keys s" k ?a]
    unfolding put lru_rep_def by (auto simp: less_SucI)
  moreover have "lru_lookup (lru_Put k v s) k' = ((lru_lookup s)(k \<mapsto> v)) k'" for k'
  proof -
    have "map_of (lru_keys s) k' \<noteq> Some ?a" using lru_repD(7) [OF rep, of k' ?a] free by auto
    then show ?thesis by (auto simp: put lru_lookup_def update_conv split: option.splits)
  qed
  moreover have "lru_entries (lru_Put k v s) (as @ [?a]) = lru_spec_touch k v (lru_entries s as)"
  proof -
    have "filter (\<lambda>e. fst e \<noteq> k) (lru_entries s as) = lru_entries s as"
      using lru_entries_lookup [OF rep, of k] miss by (auto simp: map_of_eq_None_iff intro: filter_True)
    then show ?thesis using new by (auto simp: put lru_entries_def lru_spec_touch_def)
  qed
  ultimately show ?thesis by (intro exI [of _ "as @ [?a]"]) auto
qed

lemma lru_Remove_ok:
  assumes rep: "lru_rep s as" and cap: "lru_capacity s \<noteq> 0"
  shows "\<exists>s' as'. lru_Remove k s = (lru_lookup s k, s') \<and> lru_rep s' as'
     \<and> lru_lookup s' = (lru_lookup s)(k := None)
     \<and> lru_entries s' as' = lru_spec_remove k (lru_entries s as)"
proof (cases "map_of (lru_keys s) k")
  case None
  then have miss: "lru_lookup s k = None" using lru_lookup_None [OF rep] by simp
  have "(lru_lookup s)(k := None) = lru_lookup s" using miss by (simp add: fun_upd_idem)
  moreover from miss have "filter (\<lambda>e. fst e \<noteq> k) (lru_entries s as) = lru_entries s as"
    using lru_entries_lookup [OF rep, of k] by (auto simp: map_of_eq_None_iff intro: filter_True)
  ultimately show ?thesis
    using None rep miss cap
    by (intro exI [of _ s] exI [of _ as]) (simp add: lru_Remove_def lru_spec_remove_def)
next
  case (Some a)
  from lru_key_node [OF rep Some] obtain v where a: "lru_node s a = Some (k, v)" "a \<in> set as" .
  then obtain xs ys where as: "as = xs @ a # ys" by (metis split_list)
  let ?s = "lru_Free a (lru_unlink a s)\<lparr>lru_keys := AList.delete k (lru_keys s)\<rparr>"
  have rm: "lru_Remove k s = (Some v, ?s)"
    using cap Some a by (simp add: lru_Remove_def lru_Free_def Let_def)
  have keys: "map_of (AList.delete k (lru_keys s)) k' = Some b
      \<longleftrightarrow> (\<exists>u. ((lru_node s)(a := None)) b = Some (k', u))" for k' b
  proof (cases "k' = k")
    case True
    have "b = a" if "lru_node s b = Some (k, u)" for u
      using lru_node_inj [OF rep a(1) that] by simp
    then show ?thesis using True by (auto simp: delete_conv')
  next
    case False
    then have "map_of (AList.delete k (lru_keys s)) k' = map_of (lru_keys s) k'"
      by (simp add: delete_conv')
    moreover have "b \<noteq> a" if "lru_node s b = Some (k', u)" for u using that a False by auto
    ultimately show ?thesis using lru_repD(7) [OF rep, of k' b] by auto
  qed
  have "lru_rep ?s (xs @ ys)"
    using lru_unlink_path [OF rep [unfolded as]] keys lru_repD(2-6) [OF rep]
      distinct_delete [of "lru_keys s" k]
    unfolding lru_rep_def as lru_Free_def by auto
  moreover have "lru_lookup ?s k' = ((lru_lookup s)(k := None)) k'" for k'
  proof -
    have "map_of (lru_keys s) k' = Some a \<Longrightarrow> k' = k" using lru_repD(7) [OF rep, of k' a] a by auto
    then show ?thesis by (auto simp: lru_Free_def lru_lookup_def delete_conv split: option.splits)
  qed
  moreover have "lru_entries ?s (xs @ ys) = lru_spec_remove k (lru_entries s as)"
  proof -
    have "a \<notin> set (xs @ ys)" using lru_repD(2) [OF rep] as by auto
    then show ?thesis
      using lru_entries_filter [OF rep [unfolded as] a(1)]
      by (simp add: as lru_spec_remove_def) (auto simp: lru_Free_def lru_entries_def)
  qed
  moreover have "lru_lookup s k = Some v" using Some a by (simp add: lru_lookup_def)
  ultimately show ?thesis using rm by (intro exI [of _ ?s] exI [of _ "xs @ ys"]) auto
qed

section \<open>The contract holds\<close>

lemma lru_ops_simps [simp]:
  "c_get lru_ops = lru_Get" "c_put lru_ops = lru_Put" "c_remove lru_ops = lru_Remove"
  by (simp_all add: lru_ops_def)

lemma lru_invE: "lru_inv s \<Longrightarrow> (\<And>as. lru_rep s as \<Longrightarrow> Q) \<Longrightarrow> Q"
  by (auto simp: lru_inv_def)

lemma lru_disabled:
  assumes "lru_capacity s = 0"
  shows "lru_Get k s = (None, s)" "lru_Put k v s = s" "lru_Remove k s = (None, s)"
  using assms by (simp_all add: lru_Get_def lru_Put_def lru_Remove_def)

lemma lru_Get_cases:
  assumes "lru_rep s as"
  shows "lru_Get k s = (None, s) \<or>
    (\<exists>v s' as'. lru_lookup s k = Some v \<and> lru_Get k s = (Some v, s') \<and> lru_rep s' as'
       \<and> lru_lookup s' = lru_lookup s)"
proof (cases "lru_capacity s = 0 \<or> lru_lookup s k = None")
  case True
  then show ?thesis using lru_disabled(1) [of s k] lru_Get_miss [OF _ assms, of k] by auto
next
  case False
  then obtain v where "lru_lookup s k = Some v" by auto
  with False show ?thesis using lru_Get_hit [OF assms] by blast
qed

lemma lru_Put_ok:
  assumes "lru_rep s as" "lru_capacity s \<noteq> 0"
  shows "\<exists>as'. lru_rep (lru_Put k v s) as' \<and> lru_lookup (lru_Put k v s) = (lru_lookup s)(k \<mapsto> v)
     \<and> lru_entries (lru_Put k v s) as' = lru_spec_touch k v (lru_entries s as)"
  using lru_Put_absent [OF assms, of k v] lru_Put_present [OF assms, of k v]
  by (cases "lru_lookup s k") auto

text \<open>A disabled cache never holds anything: \<open>lru_ok\<close> is kept from the empty cache on.\<close>

definition lru_ok :: "('k, 'v) lru \<Rightarrow> bool" where
  "lru_ok s \<longleftrightarrow> lru_inv s \<and> (lru_capacity s = 0 \<longrightarrow> lru_keys s = [])"

lemma lru_capacity_const [simp]:
  "lru_capacity (snd (lru_Get k s)) = lru_capacity s"
  "lru_capacity (lru_Put k v s) = lru_capacity s"
  "lru_capacity (snd (lru_Remove k s)) = lru_capacity s"
  by (auto simp: lru_Get_def lru_Put_def lru_Remove_def lru_Evict_def lru_Free_def lru_New_def
      set_prev_def set_next_def Let_def split: option.split)

lemma lru_ok_init: "lru_ok (lru_init capacity)"
  using lru_init_rep by (auto simp: lru_ok_def lru_inv_def lru_init_def)

interpretation lru: cache lru_ops lru_lookup lru_ok
proof
  fix c :: "('k, 'v) lru" and k v k' w
  assume ok: "lru_ok c"
  then obtain as where rep: "lru_rep c as" by (auto simp: lru_ok_def lru_inv_def)
  have disabled: "lru_lookup c = (\<lambda>_. None)" if "lru_capacity c = 0"
    using that ok by (auto simp: lru_ok_def lru_lookup_def)
  show "fst (c_get lru_ops k c) = Some v \<Longrightarrow> lru_lookup c k = Some v"
    using lru_Get_cases [OF rep, of k] by auto
  show "lru_lookup (snd (c_get lru_ops k c)) = lru_lookup c"
    using lru_Get_cases [OF rep, of k] by auto
  show "lru_ok (snd (c_get lru_ops k c))"
    using lru_Get_cases [OF rep, of k] lru_disabled(1) [of c k] ok
    by (auto simp: lru_ok_def lru_inv_def)
  show "lru_lookup (c_put lru_ops k v c) k' = Some w \<Longrightarrow>
      (if k' = k then w = v else lru_lookup c k' = Some w)"
    using lru_Put_ok [OF rep, of k v] disabled
    by (cases "lru_capacity c = 0") (auto simp: lru_disabled)
  show "lru_ok (c_put lru_ops k v c)"
    using lru_Put_ok [OF rep, of k v] lru_disabled(2) [of c k v] ok
    by (cases "lru_capacity c = 0") (auto simp: lru_ok_def lru_inv_def)
  show "lru_lookup (snd (c_remove lru_ops k c)) = (lru_lookup c)(k := None)"
    using lru_Remove_ok [OF rep, of k] disabled by (cases "lru_capacity c = 0") (auto simp: lru_disabled)
  show "lru_ok (snd (c_remove lru_ops k c))"
    using lru_Remove_ok [OF rep, of k] lru_disabled(3) [of c k] ok
    by (cases "lru_capacity c = 0") (auto simp: lru_ok_def lru_inv_def)
qed

section \<open>The cache as a list\<close>



text \<open>
  C32: Nothing is ever evicted. After any number of puts of different keys the cache holds all of
  them, however small its capacity is, as long as it is not zero.
\<close>

theorem lru_unbounded:
  assumes "distinct (map fst xs)" "capacity \<noteq> 0"
  shows "length (lru_keys (fold (\<lambda>(k, v). lru_Put k v) xs (lru_init capacity))) = length xs
    \<and> lru_lookup (fold (\<lambda>(k, v). lru_Put k v) xs (lru_init capacity)) k = map_of xs k"
proof -
  let ?run = "\<lambda>xs. fold (\<lambda>(k, v). lru_Put k v) xs (lru_init capacity)"
  have "\<exists>as. lru_rep (?run xs) as \<and> length as = length xs \<and> lru_capacity (?run xs) = capacity
      \<and> lru_lookup (?run xs) = map_of xs" using assms(1)
  proof (induction xs rule: rev_induct)
    case Nil
    then show ?case using lru_init_rep [of capacity] by (auto simp: lru_init_def lru_lookup_def)
  next
    case (snoc x xs)
    obtain k v where x: "x = (k, v)" by fastforce
    from snoc obtain as where as: "lru_rep (?run xs) as" "length as = length xs" "lru_capacity (?run xs) = capacity"
      "lru_lookup (?run xs) = map_of xs" by auto
    have k: "map_of xs k = None" using snoc.prems x by (auto simp: map_of_eq_None_iff)
    then have miss: "lru_lookup (?run xs) k = None" by (simp add: as(4))
    have "lru_capacity (?run xs) \<noteq> 0" using as(3) assms(2) by simp
    from lru_Put_absent [OF as(1) this miss, of v] obtain as' where
      "lru_rep (lru_Put k v (?run xs)) as'" "lru_lookup (lru_Put k v (?run xs)) = (map_of xs)(k \<mapsto> v)"
      "length as' = Suc (length as)" unfolding as(4) by blast
    moreover have "map_of (xs @ [(k, v)]) = (map_of xs)(k \<mapsto> v)"
      using k by (intro ext) (auto simp: map_add_def split: option.split)
    ultimately show ?case using as(2,3) x by (intro exI [of _ as']) simp
  qed
  then obtain as where as: "lru_rep (?run xs) as" "length as = length xs" "lru_lookup (?run xs) = map_of xs" by blast
  from lru_size [OF as(1)] as(2,3) show ?thesis by simp
qed

lemma lru_unbounded_witness:
  "length (lru_keys (fold (\<lambda>(k, v). lru_Put k v) [(1 :: nat, 1 :: nat), (2, 2), (3, 3)] (lru_init 1))) = 3"
  using lru_unbounded [of "[(1 :: nat, 1 :: nat), (2, 2), (3, 3)]" 1] by simp

section \<open>The destructor\<close>

lemma lru_destroy_path:
  "dll (lru_next s) p a as 0 \<Longrightarrow> distinct (0 # as) \<Longrightarrow> set as \<subseteq> dom (lru_node s) \<Longrightarrow>
     \<exists>s'. lru_destroy_from (lru_next s a) s = Some s' \<and> dom (lru_node s') = dom (lru_node s) - set as"
proof (induction as arbitrary: a s)
  case Nil
  then show ?case by (simp add: lru_destroy_from.simps [of 0])
next
  case (Cons x xs)
  let ?t = "lru_Free x s"
  have t: "lru_next ?t = lru_next s" "lru_node ?t = (lru_node s)(x := None)" by (simp_all add: lru_Free_def)
  obtain e where e: "lru_node s x = Some e" using Cons.prems(3) by auto
  have "lru_destroy_from (lru_next s a) s = lru_destroy_from (lru_next ?t x) ?t"
    using Cons.prems(1,2) e t(1) by (subst lru_destroy_from.simps) simp
  moreover have "set xs \<subseteq> dom (lru_node ?t)" using Cons.prems(2,3) t(2) by auto
  with Cons.IH [of ?t x] Cons.prems(1,2) obtain s' where
    "lru_destroy_from (lru_next ?t x) ?t = Some s'" "dom (lru_node s') = dom (lru_node ?t) - set xs"
    unfolding t(1) by auto
  moreover have "dom (lru_node ?t) - set xs = dom (lru_node s) - set (x # xs)" using t(2) by auto
  ultimately show ?case by simp
qed

text \<open>The calls that a client makes between the construction and the destruction of a cache.\<close>

datatype ('k, 'v) lru_call = CallGet 'k | CallPut 'k 'v | CallRemove 'k

fun lru_exec :: "('k, 'v) lru_call \<Rightarrow> ('k, 'v) lru \<Rightarrow> ('k, 'v) lru" where
  "lru_exec (CallGet k) s = snd (lru_Get k s)"
| "lru_exec (CallPut k v) s = lru_Put k v s"
| "lru_exec (CallRemove k) s = snd (lru_Remove k s)"

lemma lru_exec_ok: "lru_ok s \<Longrightarrow> lru_ok (lru_exec c s)"
  using lru.get_inv [of s] lru.put_inv [of s] lru.remove_inv [of s] by (cases c) simp_all

lemma lru_execs_ok: "lru_ok s \<Longrightarrow> lru_ok (fold lru_exec cs s)"
  by (induction cs arbitrary: s) (simp_all add: lru_exec_ok)

text \<open>
  A cache can be destroyed after any sequence of calls: the loop of the destructor ends, reads
  no node that has been freed and frees none twice, and leaves no node allocated.
\<close>

lemma lru_destroy_frees:
  fixes cs :: "('k, 'v) lru_call list"
  shows "\<exists>s. lru_destroy (fold lru_exec cs (lru_init capacity)) = Some s \<and> lru_node s = (\<lambda>_. None)"
proof -
  let ?s = "fold lru_exec cs (lru_init capacity)"
  obtain as where as: "lru_rep ?s as"
    using lru_execs_ok [OF lru_ok_init, of cs capacity] by (auto simp: lru_ok_def lru_inv_def)
  note r = lru_repD [OF as]
  have "set as \<subseteq> dom (lru_node ?s)" using r(4) by simp
  from lru_destroy_path [OF r(1,2) this] obtain s where
    "lru_destroy_from (lru_next ?s 0) ?s = Some s" "dom (lru_node s) = {}" using r(4) by auto
  then show ?thesis by (auto simp: lru_destroy_def)
qed

end
