(* ===== verification/FileManager.thy ===== *)
theory FileManager
  imports MetadataManager Iterators LruCache
begin

text \<open>
  \<^verbatim>\<open>file_manager.h\<close> and \<^verbatim>\<open>src/file_manager.cc\<close>: the active data file that
  records are appended to, the roll to a new file when it is full, the index log that becomes
  the index file, and the cache of open files. Work handed to the executor is an explicit list
  of pending tasks. The size of a data file, \<open>kMaxFileBytes\<close> in the source, is the
  parameter \<open>cap\<close>. A result \<open>None\<close> is an access outside the memory of a file or
  through a null pointer, or a loop that does not end.
\<close>

section \<open>State\<close>

datatype 'a task = TSyncFile file_id mrw_file | TCreateIndexFile file_id 'a

record 'a fm =
  fm_fs :: fsys
  fm_meta :: mm
  fm_open_files :: "(file_id, rfile) lru"
  fm_index_log :: "'a option"
  fm_data_file :: "mrw_file option"
  fm_active_id :: file_id
  fm_pending :: "'a task list"

definition fm_new :: "fsys \<Rightarrow> mm \<Rightarrow> u8 \<Rightarrow> 'a fm" where
  "fm_new fs m max_open_files = \<lparr>fm_fs = fs, fm_meta = m,
     fm_open_files = lru_init (unat max_open_files), fm_index_log = None, fm_data_file = None,
     fm_active_id = 0, fm_pending = []\<rparr>"

section \<open>Creating and initialising files\<close>

text \<open>
  The loop of \<^verbatim>\<open>CreateFile\<close> that rebuilds the index log from the records in the file.
\<close>

partial_function (option) fm_rebuild ::
    "'a pedrolib \<Rightarrow> readable_buffer_t \<Rightarrow> u32 \<Rightarrow> 'a \<Rightarrow> (u32 \<times> 'a) option" where
  "fm_rebuild P buf off log =
     (case rec_unpack P rdb_ops buf of
        NoEntry \<Rightarrow> Some (off, log)
      | Overrun \<Rightarrow> None
      | Got r \<Rightarrow>
          fm_rebuild P (snd r) (off + rec_sizeof (fst r))
            (idx_pack P \<lparr>ix_key = re_key (fst r), ix_type = re_type (fst r), ix_offset = off,
                         ix_len = rec_sizeof (fst r)\<rparr> log))"

text \<open>
  The first part of \<^verbatim>\<open>CreateFile\<close>: the old active file is handed to the executor,
  and its index log is moved out of the manager.
\<close>

definition fm_retire :: "'a fm \<Rightarrow> 'a fm" where
  "fm_retire s =
     (case fm_data_file s of
        None \<Rightarrow> s
      | Some f \<Rightarrow>
          let s1 = s\<lparr>fm_pending := fm_pending s @ [TSyncFile (fm_active_id s) f]\<rparr> in
          case fm_index_log s of
            None \<Rightarrow> s1
          | Some log \<Rightarrow>
              s1\<lparr>fm_index_log := None,
                 fm_pending := fm_pending s1 @ [TCreateIndexFile (fm_active_id s) log]\<rparr>)"

definition fm_CreateFile ::
    "'a pedrolib \<Rightarrow> nat \<Rightarrow> io \<Rightarrow> file_id \<Rightarrow> 'a fm \<Rightarrow> (status \<times> 'a fm) option" where
  "fm_CreateFile P cap io fid s =
     (let s = fm_retire s in
      case mrw_Open io (mm_GetDataFilePath P (fm_meta s) fid) cap (fm_fs s) of
        (Inl err, fs) \<Rightarrow> Some (err, s\<lparr>fm_fs := fs\<rparr>)
      | (Inr file, fs) \<Rightarrow>
          (case fm_rebuild P (mrw_GetReadableBuffer fs file) 0 (ab_new P) of
             None \<Rightarrow> None
           | Some (off, log) \<Rightarrow>
               let file = (if off \<noteq> 0 then mrw_SetWriteOffset (unat off) file else file);
                   (_, m, fs) = mm_CreateFile P io fid (fm_meta s) fs
               in Some (kOk, s\<lparr>fm_fs := fs, fm_meta := m, fm_index_log := Some log,
                               fm_data_file := Some file, fm_active_id := fid\<rparr>)))"

definition fm_Recovery ::
    "'a pedrolib \<Rightarrow> nat \<Rightarrow> io \<Rightarrow> file_id \<Rightarrow> 'a fm \<Rightarrow> (status \<times> 'a fm) option" where
  "fm_Recovery P cap io active s = fm_CreateFile P cap io active s"

definition fm_Init :: "'a pedrolib \<Rightarrow> nat \<Rightarrow> io \<Rightarrow> 'a fm \<Rightarrow> (status \<times> 'a fm) option" where
  "fm_Init P cap io s =
     (let files = mm_GetFiles (fm_meta s)
      in if files = [] then fm_CreateFile P cap io 1 s
         else fm_Recovery P cap io (last files) s)"

section \<open>Tasks of the executor\<close>

definition fm_SyncFile :: "io \<Rightarrow> file_id \<Rightarrow> mrw_file \<Rightarrow> 'a fm \<Rightarrow> 'a fm" where
  "fm_SyncFile io fid f s =
     (if mrw_Sync io f then s else s\<lparr>fm_pending := fm_pending s @ [TSyncFile fid f]\<rparr>)"

definition fm_CreateIndexFile ::
    "'a pedrolib \<Rightarrow> io \<Rightarrow> file_id \<Rightarrow> 'a \<Rightarrow> 'a fm \<Rightarrow> 'a fm option" where
  "fm_CreateIndexFile P io fid log s =
     (let n = length (ab_bytes P log) in
      case mrw_Open io (mm_GetIndexFilePath P (fm_meta s) fid) n (fm_fs s) of
        (Inl _, fs) \<Rightarrow>
          Some (s\<lparr>fm_fs := fs, fm_pending := fm_pending s @ [TCreateIndexFile fid log]\<rparr>)
      | (Inr file, fs) \<Rightarrow>
          let (buf, file) = mrw_Allocate n fs file in
          (case wbf_Append (ab_bytes P log) buf of
             None \<Rightarrow> None
           | Some buf \<Rightarrow> Some (s\<lparr>fm_fs := fs_store (mrw_ino file) (wbf_mem buf) fs\<rparr>)))"

definition fm_run_task :: "'a pedrolib \<Rightarrow> io \<Rightarrow> 'a fm \<Rightarrow> 'a fm option" where
  "fm_run_task P io s =
     (case fm_pending s of
        [] \<Rightarrow> Some s
      | TSyncFile fid f # ts \<Rightarrow> Some (fm_SyncFile io fid f (s\<lparr>fm_pending := ts\<rparr>))
      | TCreateIndexFile fid log # ts \<Rightarrow> fm_CreateIndexFile P io fid log (s\<lparr>fm_pending := ts\<rparr>))"

section \<open>Open files\<close>

definition fm_ReleaseDataFile :: "file_id \<Rightarrow> 'a fm \<Rightarrow> 'a fm" where
  "fm_ReleaseDataFile fid s = s\<lparr>fm_open_files := snd (lru_Remove fid (fm_open_files s))\<rparr>"

text \<open>The file is \<open>None\<close> where the code hands out a null pointer.\<close>

definition fm_AcquireDataFile ::
    "'a pedrolib \<Rightarrow> io \<Rightarrow> file_id \<Rightarrow> 'a fm \<Rightarrow> status \<times> rfile option \<times> 'a fm" where
  "fm_AcquireDataFile P io fid s =
     (if fid = fm_active_id s then (kOk, map_option RMapping (fm_data_file s), s)
      else
        let (hit, cache) = lru_Get fid (fm_open_files s); s = s\<lparr>fm_open_files := cache\<rparr> in
        case hit of
          Some f \<Rightarrow> (kOk, Some f, s)
        | None \<Rightarrow>
            (case pro_Open io (mm_GetDataFilePath P (fm_meta s) fid) (fm_fs s) of
               Inl err \<Rightarrow> (err, None, s)
             | Inr p \<Rightarrow>
                 (kOk, Some (RPosix p),
                  s\<lparr>fm_open_files := lru_Put fid (RPosix p) (fm_open_files s)\<rparr>)))"

definition fm_AcquireIndexFile :: "'a pedrolib \<Rightarrow> io \<Rightarrow> file_id \<Rightarrow> 'a fm \<Rightarrow> status + rfile" where
  "fm_AcquireIndexFile P io fid s =
     (case pro_Open io (mm_GetIndexFilePath P (fm_meta s) fid) (fm_fs s) of
        Inl err \<Rightarrow> Inl err | Inr p \<Rightarrow> Inr (RPosix p))"

definition fm_RemoveFile ::
    "'a pedrolib \<Rightarrow> io \<Rightarrow> file_id \<Rightarrow> 'a fm \<Rightarrow> status \<times> 'a fm" where
  "fm_RemoveFile P io fid s =
     (let s = fm_ReleaseDataFile fid s;
          data_path = mm_GetDataFilePath P (fm_meta s) fid;
          index_path = mm_GetIndexFilePath P (fm_meta s) fid;
          (status, m, fs) = mm_DeleteFile P io fid (fm_meta s) (fm_fs s);
          s = s\<lparr>fm_meta := m, fm_fs := fs\<rparr>
      in if status \<noteq> kOk then (status, s)
         else (kOk, s\<lparr>fm_fs := fs_remove index_path (fs_remove data_path (fm_fs s))\<rparr>))"

definition fm_Flush :: "bool \<Rightarrow> 'a fm \<Rightarrow> status" where
  "fm_Flush force s =
     (case fm_data_file s of
        None \<Rightarrow> kOk
      | Some f \<Rightarrow> if mrw_Flush force f then kOk else kIOError)"

definition fm_Sync :: "io \<Rightarrow> 'a fm \<Rightarrow> status" where
  "fm_Sync io s =
     (case fm_data_file s of
        None \<Rightarrow> kOk
      | Some f \<Rightarrow>
          if \<not> mrw_Flush True f then kIOError else if \<not> mrw_Sync io f then kIOError else kOk)"

section \<open>Append\<close>

text \<open>
  The part under the lock of the data file, on the file and the index log that the thread has
  read before: allocate, pack, log the index entry. \<open>Some (Inl ())\<close>: the file is full.
\<close>

definition fm_append_file ::
    "'a pedrolib \<Rightarrow> rec_entry \<Rightarrow> file_id \<Rightarrow> mrw_file \<Rightarrow> 'a option \<Rightarrow> fsys
       \<Rightarrow> (unit + location \<times> mrw_file \<times> 'a \<times> fsys) option" where
  "fm_append_file P e file_id data_file index_log fs =
     (let (buf, f) = mrw_Allocate (unat (rec_sizeof e)) fs data_file in
      if wbf_GetOffset buf \<noteq> size_max then
        (case rec_pack P wbf_ops e buf of
           None \<Rightarrow> None
         | Some (_, buf) \<Rightarrow>
             (case index_log of
                None \<Rightarrow> None
              | Some log \<Rightarrow>
                  let off = of_nat (wbf_GetOffset buf) :: u32;
                      log = idx_pack P \<lparr>ix_key = re_key e, ix_type = re_type e,
                                        ix_offset = off, ix_len = rec_sizeof e\<rparr> log
                  in Some (Inr (Location file_id off, f, log,
                       fs_store (mrw_ino f) (wbf_mem buf) fs))))
      else Some (Inl ()))"

text \<open>
  The thread reads the active file, its number and its index log, and appends to them before any
  other thread does anything.
\<close>

definition fm_append_active ::
    "'a pedrolib \<Rightarrow> rec_entry \<Rightarrow> 'a fm \<Rightarrow> (unit + location \<times> 'a fm) option" where
  "fm_append_active P e s =
     (case fm_data_file s of
        None \<Rightarrow> None
      | Some f \<Rightarrow>
          (case fm_append_file P e (fm_active_id s) f (fm_index_log s) (fm_fs s) of
             None \<Rightarrow> None
           | Some (Inl _) \<Rightarrow> Some (Inl ())
           | Some (Inr (loc, f, log, fs)) \<Rightarrow>
               Some (Inr (loc, s\<lparr>fm_fs := fs, fm_data_file := Some f, fm_index_log := Some log\<rparr>))))"

text \<open>
  The loop of \<^verbatim>\<open>Append\<close>. Without another thread the active file cannot change between
  the two critical sections, so the test \<^verbatim>\<open>file_id != active_file_id_\<close> never holds.
\<close>

partial_function (option) fm_Append ::
    "'a pedrolib \<Rightarrow> nat \<Rightarrow> io \<Rightarrow> rec_entry \<Rightarrow> 'a fm \<Rightarrow> (status \<times> location \<times> 'a fm) option" where
  "fm_Append P cap io e s =
     (case fm_append_active P e s of
        None \<Rightarrow> None
      | Some (Inr r) \<Rightarrow> Some (kOk, fst r, snd r)
      | Some (Inl _) \<Rightarrow>
          (case fm_CreateFile P cap io (fm_active_id s + 1) s of
             None \<Rightarrow> None
           | Some r \<Rightarrow>
               if fst r \<noteq> kOk then Some (fst r, Location 0 0, snd r)
               else fm_Append P cap io e (snd r)))"

section \<open>The records of a file and their index\<close>

text \<open>The record at an offset of a log, if one starts there.\<close>

fun log_at :: "rec_entry list \<Rightarrow> nat \<Rightarrow> rec_entry option" where
  "log_at [] off = None"
| "log_at (e # es) off = (if off = 0 then Some e else if off < rec_size e then None
     else log_at es (off - rec_size e))"

lemma log_at_split: "log_at es off = Some e \<longleftrightarrow> (\<exists>pre post. es = pre @ e # post \<and> log_size pre = off)"
proof (induction es off rule: log_at.induct)
  case (2 x es off)
  show ?case
  proof (cases "off = 0")
    case True
    have "log_size pre = 0 \<longleftrightarrow> pre = []" for pre
      by (cases pre) (simp_all add: rec_size_def)
    then show ?thesis using True by auto
  next
    case False
    show ?thesis
    proof (cases "off < rec_size x")
      case True
      have "log_size pre \<noteq> off" if "x # es = pre @ e # post" for pre post
        using that True False by (cases pre) simp_all
      then have "\<not> (\<exists>pre post. x # es = pre @ e # post \<and> log_size pre = off)" by blast
      then show ?thesis using True False by simp
    next
      case nl: False
      have "(\<exists>pre post. es = pre @ e # post \<and> log_size pre = off - rec_size x)
          \<longleftrightarrow> (\<exists>pre post. x # es = pre @ e # post \<and> log_size pre = off)" (is "?L \<longleftrightarrow> ?R")
      proof
        assume ?L
        then obtain pre post where "es = pre @ e # post" "log_size pre = off - rec_size x" by blast
        then have "x # es = (x # pre) @ e # post \<and> log_size (x # pre) = off" using nl by simp
        then show ?R by blast
      next
        assume ?R
        then obtain pre post where pp: "x # es = pre @ e # post" "log_size pre = off" by blast
        then obtain pre' where "pre = x # pre'" using False by (cases pre) auto
        with pp show ?L by auto
      qed
      with 2 False nl show ?thesis by simp
    qed
  qed
qed simp

lemma log_at_append: "log_at es off = Some e \<Longrightarrow> log_at (es @ fs) off = Some e"
  unfolding log_at_split by (metis append.assoc append_Cons)

lemma log_at_last: "log_at (es @ [e]) (log_size es) = Some e"
  unfolding log_at_split by blast

lemma log_at_bound: "log_at es off = Some e \<Longrightarrow> off + rec_size e \<le> log_size es"
  unfolding log_at_split by auto

lemma log_at_in: "log_at es off = Some e \<Longrightarrow> e \<in> set es"
  unfolding log_at_split by auto

text \<open>The index entries of a log that starts at an offset, and their bytes.\<close>

fun log_index :: "nat \<Rightarrow> rec_entry list \<Rightarrow> idx_entry list" where
  "log_index off [] = []"
| "log_index off (e # es) = \<lparr>ix_key = re_key e, ix_type = re_type e, ix_offset = of_nat off,
     ix_len = rec_sizeof e\<rparr> # log_index (off + rec_size e) es"

definition idx_log_bytes :: "'a pedrolib \<Rightarrow> idx_entry list \<Rightarrow> bytes" where
  "idx_log_bytes P xs = concat (map (idx_bytes P) xs)"

lemma idx_log_bytes_simps [simp]:
  "idx_log_bytes P [] = []" "idx_log_bytes P (x # xs) = idx_bytes P x @ idx_log_bytes P xs"
  "idx_log_bytes P (xs @ ys) = idx_log_bytes P xs @ idx_log_bytes P ys"
  by (simp_all add: idx_log_bytes_def)

lemma log_index_append:
  "log_index off (es @ fs) = log_index off es @ log_index (off + log_size es) fs"
  by (induction off es rule: log_index.induct) (simp_all add: add.assoc)

lemma log_index_wf:
  "\<forall>e \<in> set es. rec_wf e \<Longrightarrow> \<forall>x \<in> set (log_index off es). idx_wf x"
  by (induction off es rule: log_index.induct) (auto simp: idx_wf_def rec_wf_def)

lemma rec_sizeof_offset:
  assumes "rec_wf e"
  shows "(of_nat off :: u32) + rec_sizeof e = of_nat (off + rec_size e)"
  by (simp add: rec_sizeof_of_nat)

text \<open>Rebuilding reads every record of the log and ends at the zeros behind it.\<close>

lemma fm_rebuild_log:
  assumes P: "pedrolib_ok P"
  shows "rdb_inv buf \<Longrightarrow> rb_bytes rdb_ops buf = log_bytes P es @ replicate n 0 \<Longrightarrow>
     \<forall>e \<in> set es. rec_wf e \<Longrightarrow>
     \<exists>log'. fm_rebuild P buf (of_nat off) log = Some (of_nat (off + log_size es), log')
       \<and> ab_bytes P log' = ab_bytes P log @ idx_log_bytes P (log_index off es)"
proof (induction es arbitrary: buf off log)
  case Nil
  then have "rec_unpack P rdb_ops buf = NoEntry"
    using rdb.rec_unpack_zeros [of P buf n] P by simp
  then show ?case by (simp add: fm_rebuild.simps)
next
  case (Cons e es)
  have A: "array_buffer_ok P" "codec_ok P" using P by simp_all
  obtain buf' where r: "rec_unpack P rdb_ops buf = Got (e, buf')" "rdb_inv buf'"
    "rb_bytes rdb_ops buf' = log_bytes P es @ replicate n 0"
    using rdb.rec_unpack_bytes [OF A(2) Cons.prems(1), of e "log_bytes P es @ replicate n 0"]
      Cons.prems by auto
  let ?x = "\<lparr>ix_key = re_key e, ix_type = re_type e, ix_offset = of_nat off, ix_len = rec_sizeof e\<rparr>"
  have "\<forall>e \<in> set es. rec_wf e" using Cons.prems by simp
  from Cons.IH [OF r(2,3) this, of "off + rec_size e" "idx_pack P ?x log"]
  show ?case
    using r A by (subst fm_rebuild.simps) (simp add: rec_sizeof_of_nat add.assoc)
qed

section \<open>Rebuilding an index log\<close>

text \<open>
  When a file becomes active again its index log is rebuilt from its data: the loop of
  \<^verbatim>\<open>CreateFile\<close> stops behind the last record, and the log it has packed is the one
  that the appends of these records had written, so that the next rotation writes the same index
  file.
\<close>

lemma rebuild_index_log:
  assumes "pedrolib_ok P" "log_file P cap es m" "cap < 2 ^ 64"
  shows "\<exists>log. fm_rebuild P (readable_buffer_new m cap) 0 (ab_new P) = Some (of_nat (log_size es), log)
     \<and> ab_bytes P log = idx_log_bytes P (log_index 0 es)"
proof -
  have len: "length m = cap" using log_file_length [OF _ assms(2)] assms(1) by simp
  then have b: "rdb_inv (readable_buffer_new m cap)" "rb_bytes rdb_ops (readable_buffer_new m cap) = m"
    using rdb_new [of m] assms(3) by auto
  have m: "m = log_bytes P es @ replicate (cap - log_size es) 0" "\<forall>e \<in> set es. rec_wf e"
    using assms(2) by (simp_all add: log_file_def)
  have "rb_bytes rdb_ops (readable_buffer_new m cap) = log_bytes P es @ replicate (cap - log_size es) 0" using b(2) m(1) by simp
  from fm_rebuild_log [OF assms(1) b(1) this m(2), of 0 "ab_new P"] assms(1) show ?thesis by simp
qed

end
