(* ===== verification/SegmentCache.thy ===== *)
theory SegmentCache
  imports LruCache
begin

text \<open>
  \<^verbatim>\<open>include/pedrodb/cache/segment_cache.h\<close>: a cache split into segments by the hash of
  the key. The class is a template over the cache of a segment; the model takes its operations
  as a record, and the locale \<open>segment_cache\<close> shows that segments that keep the contract
  \<open>cache\<close> make up a cache that keeps it. The hash of a key is a parameter.
\<close>

section \<open>The class\<close>

type_synonym 'c segments = "'c list"

definition seg_locate :: "('k \<Rightarrow> nat) \<Rightarrow> 'c segments \<Rightarrow> 'k \<Rightarrow> nat" where
  "seg_locate h segs key = h key mod length segs"

definition seg_SegmentSize :: "'c segments \<Rightarrow> nat" where
  "seg_SegmentSize segs = length segs"

definition seg_SegmentAdd :: "'c \<Rightarrow> 'c segments \<Rightarrow> 'c segments" where
  "seg_SegmentAdd c segs = segs @ [c]"

definition seg_Get ::
    "('k, 'v, 'c) cache_ops \<Rightarrow> ('k \<Rightarrow> nat) \<Rightarrow> 'k \<Rightarrow> 'c segments \<Rightarrow> 'v option \<times> 'c segments" where
  "seg_Get C h key segs =
     (let i = seg_locate h segs key; (r, c) = c_get C key (segs ! i) in (r, segs[i := c]))"

definition seg_Remove ::
    "('k, 'v, 'c) cache_ops \<Rightarrow> ('k \<Rightarrow> nat) \<Rightarrow> 'k \<Rightarrow> 'c segments \<Rightarrow> 'v option \<times> 'c segments" where
  "seg_Remove C h key segs =
     (let i = seg_locate h segs key; (r, c) = c_remove C key (segs ! i) in (r, segs[i := c]))"

definition seg_Put ::
    "('k, 'v, 'c) cache_ops \<Rightarrow> ('k \<Rightarrow> nat) \<Rightarrow> 'k \<Rightarrow> 'v \<Rightarrow> 'c segments \<Rightarrow> 'c segments" where
  "seg_Put C h key val segs =
     (let i = seg_locate h segs key in segs[i := c_put C key val (segs ! i)])"

text \<open>
  \<^verbatim>\<open>GetOrCompute\<close>: the supplier runs when the key is not cached; it may change a state
  \<open>'s\<close> of the caller, and its value is cached when its status is \<open>kOk\<close>.
\<close>

definition seg_GetOrCompute ::
    "('k, 'v, 'c) cache_ops \<Rightarrow> ('k \<Rightarrow> nat) \<Rightarrow> 'k \<Rightarrow> ('s \<Rightarrow> status \<times> 'v \<times> 's) \<Rightarrow> 's \<Rightarrow> 'c segments
       \<Rightarrow> status \<times> 'v \<times> 's \<times> 'c segments" where
  "seg_GetOrCompute C h key supplier st segs =
     (let i = seg_locate h segs key; (hit, c) = c_get C key (segs ! i); segs = segs[i := c]
      in case hit of
           Some v \<Rightarrow> (kOk, v, st, segs)
         | None \<Rightarrow>
             let (status, v, st) = supplier st
             in (status, v, st,
                 if status = kOk then segs[i := c_put C key v (segs ! i)] else segs))"

definition seg_ops ::
    "('k, 'v, 'c) cache_ops \<Rightarrow> ('k \<Rightarrow> nat) \<Rightarrow> ('k, 'v, 'c segments) cache_ops" where
  "seg_ops C h = \<lparr>c_get = seg_Get C h, c_put = seg_Put C h, c_remove = seg_Remove C h\<rparr>"

section \<open>Segments that are caches make a cache\<close>

definition seg_lookup ::
    "('c \<Rightarrow> 'k \<Rightarrow> 'v option) \<Rightarrow> ('k \<Rightarrow> nat) \<Rightarrow> 'c segments \<Rightarrow> 'k \<Rightarrow> 'v option" where
  "seg_lookup lookup h segs k = lookup (segs ! seg_locate h segs k) k"

definition seg_inv :: "('c \<Rightarrow> bool) \<Rightarrow> 'c segments \<Rightarrow> bool" where
  "seg_inv ok segs \<longleftrightarrow> segs \<noteq> [] \<and> (\<forall>c \<in> set segs. ok c)"

lemma seg_locate_less [simp]: "segs \<noteq> [] \<Longrightarrow> seg_locate h segs k < length segs"
  by (simp add: seg_locate_def)

lemma seg_locate_update [simp]: "seg_locate h (segs[i := c]) = seg_locate h segs"
  by (rule ext) (simp add: seg_locate_def)

lemma seg_inv_nth: "seg_inv ok segs \<Longrightarrow> ok (segs ! seg_locate h segs k)"
  by (simp add: seg_inv_def)

lemma seg_inv_update: "seg_inv ok segs \<Longrightarrow> ok c \<Longrightarrow> seg_inv ok (segs[i := c])"
  by (auto simp: seg_inv_def dest!: set_update_subset_insert [THEN subsetD])

locale segment_cache = cache C lookup inv
  for C :: "('k, 'v, 'c) cache_ops" and lookup :: "'c \<Rightarrow> 'k \<Rightarrow> 'v option" and inv :: "'c \<Rightarrow> bool" +
  fixes h :: "'k \<Rightarrow> nat"
begin

text \<open>Replacing the segment of \<open>k\<close> by one with the same entries changes no lookup.\<close>

lemma seg_lookup_same:
  assumes "seg_inv inv segs" "lookup c = lookup (segs ! seg_locate h segs k)"
  shows "seg_lookup lookup h (segs[seg_locate h segs k := c]) = seg_lookup lookup h segs"
proof
  fix k'
  show "seg_lookup lookup h (segs[seg_locate h segs k := c]) k' = seg_lookup lookup h segs k'"
    using assms by (cases "seg_locate h segs k = seg_locate h segs k'")
      (simp_all add: seg_lookup_def seg_inv_def)
qed

sublocale seg: cache "seg_ops C h" "seg_lookup lookup h" "seg_inv inv"
proof
  fix segs :: "'c segments" and k k' v w
  assume inv: "seg_inv inv segs"
  let ?i = "seg_locate h segs k" and ?c = "segs ! seg_locate h segs k"
  have i: "?i < length segs" using inv by (simp add: seg_inv_def)
  have c: "inv ?c" by (rule seg_inv_nth [OF inv])
  show "fst (c_get (seg_ops C h) k segs) = Some v \<Longrightarrow> seg_lookup lookup h segs k = Some v"
    using get_hit [OF c, of k v]
    by (simp add: seg_ops_def seg_Get_def seg_lookup_def Let_def case_prod_beta)
  show "seg_lookup lookup h (snd (c_get (seg_ops C h) k segs)) = seg_lookup lookup h segs"
    using seg_lookup_same [OF inv, of "snd (c_get C k ?c)" k] get_lookup [OF c, of k]
    by (simp add: seg_ops_def seg_Get_def Let_def case_prod_beta)
  show "seg_inv inv (snd (c_get (seg_ops C h) k segs))"
    using seg_inv_update [OF inv, of "snd (c_get C k ?c)"] get_inv [OF c, of k]
    by (simp add: seg_ops_def seg_Get_def Let_def case_prod_beta)
  show "if k' = k then w = v else seg_lookup lookup h segs k' = Some w"
    if r: "seg_lookup lookup h (c_put (seg_ops C h) k v segs) k' = Some w"
  proof (cases "seg_locate h segs k' = ?i")
    case True
    then have "lookup (c_put C k v ?c) k' = Some w"
      using r i by (simp add: seg_ops_def seg_Put_def seg_lookup_def Let_def)
    from put_lookup [OF c this] True show ?thesis by (simp add: seg_lookup_def)
  next
    case False
    then have "k' \<noteq> k" by auto
    with r False show ?thesis by (simp add: seg_ops_def seg_Put_def seg_lookup_def Let_def)
  qed
  show "seg_inv inv (c_put (seg_ops C h) k v segs)"
    using seg_inv_update [OF inv] put_inv [OF c] by (simp add: seg_ops_def seg_Put_def Let_def)
  show "seg_lookup lookup h (snd (c_remove (seg_ops C h) k segs)) = (seg_lookup lookup h segs)(k := None)"
  proof
    fix x
    show "seg_lookup lookup h (snd (c_remove (seg_ops C h) k segs)) x
        = ((seg_lookup lookup h segs)(k := None)) x"
      using remove_lookup [OF c, of k] i
      by (cases "?i = seg_locate h segs x")
        (auto simp: seg_ops_def seg_Remove_def seg_lookup_def Let_def case_prod_beta)
  qed
  show "seg_inv inv (snd (c_remove (seg_ops C h) k segs))"
    using seg_inv_update [OF inv, of "snd (c_remove C k ?c)"] remove_inv [OF c, of k]
    by (simp add: seg_ops_def seg_Remove_def Let_def case_prod_beta)
qed

text \<open>
  \<^verbatim>\<open>GetOrCompute\<close> returns a cached value or what the supplier computed, and keeps the
  cache sound if the supplier's values are.
\<close>

lemma get_or_compute:
  assumes inv: "seg_inv inv segs" and sound: "cache_sound (seg_lookup lookup h) Q segs"
    and r: "seg_GetOrCompute C h k supplier st segs = (status, v, st', segs')"
    and supplier: "\<And>v st'. supplier st = (kOk, v, st') \<Longrightarrow> Q k v"
  shows "seg_inv inv segs'" and "cache_sound (seg_lookup lookup h) Q segs'"
    and "status = kOk \<Longrightarrow> Q k v"
    and "st' = st \<or> (\<exists>s w. supplier st = (s, w, st'))"
proof -
  obtain hit segs1 where get: "seg_Get C h k segs = (hit, segs1)" by fastforce
  have g: "c_get (seg_ops C h) k segs = (hit, segs1)" using get by (simp add: seg_ops_def)
  have inv1: "seg_inv inv segs1" and sound1: "cache_sound (seg_lookup lookup h) Q segs1"
    using seg.get_inv [OF inv, of k] seg.sound_get [OF inv sound, of k] g by simp_all
  have loc: "seg_locate h segs1 = seg_locate h segs"
    using get by (auto simp: seg_Get_def Let_def split: prod.splits)
  have r': "(status, v, st', segs') = (case hit of Some v \<Rightarrow> (kOk, v, st, segs1)
      | None \<Rightarrow> let (s, w, st2) = supplier st
               in (s, w, st2, if s = kOk then seg_Put C h k w segs1 else segs1))"
    using r get loc
    by (auto simp: seg_GetOrCompute_def seg_Get_def seg_Put_def Let_def split: prod.splits option.splits)
  have put: "seg_inv inv (seg_Put C h k w segs1)"
    "Q k w \<Longrightarrow> cache_sound (seg_lookup lookup h) Q (seg_Put C h k w segs1)" for w
    using seg.put_inv [OF inv1, of k w] seg.sound_put [OF inv1 sound1, of k w]
    by (simp_all add: seg_ops_def)
  show "seg_inv inv segs'" "cache_sound (seg_lookup lookup h) Q segs'" "status = kOk \<Longrightarrow> Q k v"
    "st' = st \<or> (\<exists>s w. supplier st = (s, w, st'))"
    using r' inv1 sound1 put supplier seg.sound_hit [OF inv sound, of k] g
    by (auto split: option.splits prod.splits if_splits)
qed

end

interpretation lru_segments: segment_cache lru_ops lru_lookup lru_ok h for h
  by unfold_locales

lemma seg_inv_lru_init: "0 < n \<Longrightarrow> seg_inv lru_ok (replicate n (lru_init capacity))"
  by (simp add: seg_inv_def lru_ok_init)

text \<open>
  \<^verbatim>\<open>GetOrCompute\<close> memoises. A cached value is returned without running the
  supplier; otherwise the supplier runs, and its value is cached exactly when its status is
  \<open>kOk\<close>. No other key changes, in this segment or another.
\<close>

lemma get_or_compute_memoises:
  assumes "seg_inv lru_ok segs" "\<forall>c \<in> set segs. lru_capacity c \<noteq> 0"
    and "seg_GetOrCompute lru_ops h k supplier st segs = (status, v, st', segs')"
  shows "(status, v, st') = (case seg_lookup lru_lookup h segs k of Some w \<Rightarrow> (kOk, w, st) | None \<Rightarrow> supplier st)
     \<and> seg_lookup lru_lookup h segs' =
         (if status = kOk then (seg_lookup lru_lookup h segs)(k \<mapsto> v) else seg_lookup lru_lookup h segs)"
proof -
  let ?i = "seg_locate h segs k" and ?c = "segs ! seg_locate h segs k"
  have i: "?i < length segs" using assms(1) by (simp add: seg_inv_def)
  have cap: "lru_capacity ?c \<noteq> 0" using assms(2) i by simp
  obtain as where rep: "lru_rep ?c as" using seg_inv_nth [OF assms(1), of h k] by (auto simp: lru_ok_def lru_inv_def)
  have put: "seg_lookup lru_lookup h (segs[?i := lru_Put k v ?c]) = (seg_lookup lru_lookup h segs)(k \<mapsto> v)"
  proof
    fix x
    show "seg_lookup lru_lookup h (segs[?i := lru_Put k v ?c]) x = ((seg_lookup lru_lookup h segs)(k \<mapsto> v)) x"
      using lru_Put_ok [OF rep cap, of k v] i by (cases "seg_locate h segs x = ?i") (auto simp: seg_lookup_def)
  qed
  show ?thesis
  proof (cases "lru_lookup ?c k")
    case None
    then have "lru_Get k ?c = (None, ?c)" by (rule lru_Get_miss [OF _ rep])
    then show ?thesis using assms(3) None put i
      by (auto simp: seg_GetOrCompute_def seg_lookup_def [of _ h segs k] Let_def split: prod.splits if_splits)
  next
    case (Some w)
    from lru_Get_hit [OF rep cap Some] obtain c where c: "lru_Get k ?c = (Some w, c)" "lru_lookup c = lru_lookup ?c" by blast
    have "seg_lookup lru_lookup h (segs[?i := c]) = seg_lookup lru_lookup h segs"
      by (rule lru_segments.seg_lookup_same [OF assms(1) c(2)])
    moreover have "(seg_lookup lru_lookup h segs)(k \<mapsto> w) = seg_lookup lru_lookup h segs"
      using Some by (auto simp: seg_lookup_def)
    ultimately show ?thesis using assms(3) c(1) Some
      by (auto simp: seg_GetOrCompute_def seg_lookup_def [of _ h segs k] Let_def)
  qed
qed

lemma get_or_compute_capacity:
  assumes "\<forall>c \<in> set segs. lru_capacity c \<noteq> 0" "segs \<noteq> []"
    and "seg_GetOrCompute lru_ops h k supplier st segs = (status, v, st', segs')"
  shows "\<forall>c \<in> set segs'. lru_capacity c \<noteq> 0"
proof -
  let ?i = "seg_locate h segs k" and ?c = "segs ! seg_locate h segs k"
  have i: "?i < length segs" using assms(2) by simp
  have cap: "lru_capacity ?c \<noteq> 0" using assms(1) i by simp
  obtain hit c where g: "lru_Get k ?c = (hit, c)" by fastforce
  have c: "lru_capacity c \<noteq> 0" using lru_capacity_const(1) [of k ?c] cap unfolding g by simp
  have "\<exists>c'. segs' = segs[?i := c'] \<and> lru_capacity c' \<noteq> 0"
    using assms(3) g c i by (auto simp: seg_GetOrCompute_def Let_def split: option.splits prod.splits if_splits)
  then show ?thesis using assms(1) set_update_subset_insert by fastforce
qed

end
