(* ===== verification/ReadCache.thy ===== *)
theory ReadCache
  imports SegmentCache Files
begin

text \<open>
  \<^verbatim>\<open>include/pedrodb/cache/read_cache.h\<close>: records of files that are no longer written
  are read through a cache of 4096 byte blocks. A block index is a 64 bit number made of the
  file and the offset; the segments of the cache are \<open>SegmentCache\<close>s of LRU caches. The
  locale \<open>file_opener\<close> is what the cache relies on: the opener of the database returns a
  file that reads the content. Inside it, a read of any range returns the bytes of the file,
  whatever blocks are cached, as long as the cached ones are the blocks of the file.
\<close>

section \<open>Block indices\<close>

definition kBit :: nat where
  "kBit = 12"

definition rc_block_size :: nat where
  "rc_block_size = 2 ^ kBit"

definition rc_GetOffset :: "u64 \<Rightarrow> u32" where
  "rc_GetOffset block_idx = ucast (push_bit kBit block_idx)"

definition rc_GetFile :: "u64 \<Rightarrow> file_id" where
  "rc_GetFile block_idx = ucast (drop_bit 32 (push_bit kBit block_idx))"

definition rc_GetBlockIdx :: "file_id \<Rightarrow> u32 \<Rightarrow> u64" where
  "rc_GetBlockIdx file_idx offset = drop_bit kBit (push_bit 32 (ucast file_idx) OR ucast offset)"

section \<open>The context of a read\<close>

text \<open>
  \<open>rc_file\<close> is the file once it has been opened; \<open>rc_block_ref\<close> is the view into a
  block when one block holds the whole range, and \<open>rc_buf\<close> collects the pieces otherwise.
\<close>

record 'f rc_context =
  rc_file :: "'f option"
  rc_file_idx :: file_id
  rc_begin :: u32
  rc_end :: u32
  rc_entry :: "rec_entry option"
  rc_buf :: bytes
  rc_block_ref :: "bytes option"

definition rc_Context :: "location \<Rightarrow> u32 \<Rightarrow> 'f rc_context" where
  "rc_Context loc n = \<lparr>rc_file = None, rc_file_idx = loc_id loc, rc_begin = loc_offset loc,
     rc_end = loc_offset loc + n, rc_entry = None, rc_buf = [], rc_block_ref = None\<rparr>"

definition rc_Size :: "'f rc_context \<Rightarrow> nat" where
  "rc_Size ctx = unat (rc_end ctx - rc_begin ctx)"

text \<open>\<open>None\<close>: the sizes in the header reach outside the view.\<close>

definition rc_Build :: "'a pedrolib \<Rightarrow> 'f rc_context \<Rightarrow> (status \<times> 'f rc_context) option" where
  "rc_Build P ctx =
     (let buf = (case rc_block_ref ctx of Some view \<Rightarrow> view | None \<Rightarrow> rc_buf ctx)
      in case rec_unpack P rv_ops (readable_view_new buf (length buf)) of
           NoEntry \<Rightarrow> Some (kCorruption, ctx)
         | Overrun \<Rightarrow> None
         | Got (e, _) \<Rightarrow> Some (kOk, ctx\<lparr>rc_entry := Some e\<rparr>))"

section \<open>Reading\<close>

type_synonym rc_cache = "(u64, bytes) lru segments"

definition rc_hash :: "'a pedrolib \<Rightarrow> u64 \<Rightarrow> nat" where
  "rc_hash P x = unat (std_hash_u64 P x)"

text \<open>
  The constructor; without segments it divides by zero.
\<close>

definition rc_new :: "nat \<Rightarrow> nat \<Rightarrow> rc_cache option" where
  "rc_new segments capacity =
     (if segments = 0 then None
      else Some (replicate segments
             (lru_init (drop_bit kBit (size_sub (capacity + segments) 1 div segments)))))"

text \<open>
  The supplier of a missing block. \<open>'s\<close> is the state behind the opener; the state becomes
  \<open>None\<close> when the file pointer is null or the read leaves the mapping.
\<close>

definition rc_load ::
    "(file_id \<Rightarrow> 's \<Rightarrow> status \<times> 'f option \<times> 's) \<Rightarrow> ('s \<Rightarrow> 'f file_ops) \<Rightarrow> u64
       \<Rightarrow> ('f option \<times> 's) option \<Rightarrow> status \<times> bytes \<times> ('f option \<times> 's) option" where
  "rc_load opener F block_idx st =
     (case st of
        None \<Rightarrow> (kIOError, [], None)
      | Some (file, s) \<Rightarrow>
          let block = replicate rc_block_size 0;
              (stat, file, s) = (case file of Some f \<Rightarrow> (kOk, Some f, s)
                                 | None \<Rightarrow> opener (rc_GetFile block_idx) s)
          in if stat \<noteq> kOk then (stat, block, Some (file, s))
             else case file of
               None \<Rightarrow> (kIOError, block, None)
             | Some f \<Rightarrow>
                 (case f_Read (F s) f (unat (rc_GetOffset block_idx)) rc_block_size of
                    None \<Rightarrow> (kIOError, block, None)
                  | Some xs \<Rightarrow>
                      if length xs \<noteq> rc_block_size then (kIOError, overwrite block 0 xs, Some (file, s))
                      else (kOk, xs, Some (file, s))))"

text \<open>
  \<^verbatim>\<open>Get(block_idx, ctx)\<close>. \<open>None\<close> also where the view would leave the block.
\<close>

definition rc_Get_block ::
    "'a pedrolib \<Rightarrow> (file_id \<Rightarrow> 's \<Rightarrow> status \<times> 'f option \<times> 's) \<Rightarrow> ('s \<Rightarrow> 'f file_ops) \<Rightarrow> u64
       \<Rightarrow> 'f rc_context \<Rightarrow> 's \<Rightarrow> rc_cache \<Rightarrow> (status \<times> 'f rc_context \<times> 's \<times> rc_cache) option" where
  "rc_Get_block P opener F block_idx ctx s bc =
     (case seg_GetOrCompute lru_ops (rc_hash P) block_idx (rc_load opener F block_idx)
             (Some (rc_file ctx, s)) bc of
        (stat, block, None, bc) \<Rightarrow> None
      | (stat, block, Some (file, s), bc) \<Rightarrow>
          let ctx = ctx\<lparr>rc_file := file\<rparr> in
          if stat \<noteq> kOk then Some (stat, ctx, s, bc)
          else
            let begin = max (rc_GetOffset block_idx) (rc_begin ctx);
                end = min (rc_GetOffset (block_idx + 1)) (rc_end ctx);
                left = unat (begin - rc_GetOffset block_idx);
                n = unat (end - begin)
            in if left + n > length block then None
               else
                 let view = slice block left n in
                 Some (kOk,
                   if length view = rc_Size ctx then ctx\<lparr>rc_block_ref := Some view\<rparr>
                   else ctx\<lparr>rc_buf := rc_buf ctx @ view\<rparr>, s, bc))"

text \<open>The loop of \<^verbatim>\<open>Get(ctx)\<close>, and the call of \<^verbatim>\<open>Build\<close> behind it.\<close>

partial_function (option) rc_Get_from ::
    "'a pedrolib \<Rightarrow> (file_id \<Rightarrow> 's \<Rightarrow> status \<times> 'f option \<times> 's) \<Rightarrow> ('s \<Rightarrow> 'f file_ops) \<Rightarrow> u64
       \<Rightarrow> 'f rc_context \<Rightarrow> 's \<Rightarrow> rc_cache \<Rightarrow> (status \<times> 'f rc_context \<times> 's \<times> rc_cache) option" where
  "rc_Get_from P opener F i ctx s bc =
     (if rc_GetOffset i < rc_end ctx
      then case rc_Get_block P opener F i ctx s bc of
             None \<Rightarrow> None
           | Some (stat, ctx, s, bc) \<Rightarrow>
               if stat \<noteq> kOk then Some (stat, ctx, s, bc)
               else rc_Get_from P opener F (i + 1) ctx s bc
      else case rc_Build P ctx of
             None \<Rightarrow> None
           | Some (stat, ctx) \<Rightarrow> Some (stat, ctx, s, bc))"

definition rc_Get ::
    "'a pedrolib \<Rightarrow> (file_id \<Rightarrow> 's \<Rightarrow> status \<times> 'f option \<times> 's) \<Rightarrow> ('s \<Rightarrow> 'f file_ops)
       \<Rightarrow> 'f rc_context \<Rightarrow> 's \<Rightarrow> rc_cache \<Rightarrow> (status \<times> 'f rc_context \<times> 's \<times> rc_cache) option" where
  "rc_Get P opener F ctx s bc =
     rc_Get_from P opener F (rc_GetBlockIdx (rc_file_idx ctx) (rc_begin ctx)) ctx s bc"

section \<open>Block indices and offsets\<close>

text \<open>The index of block \<open>k\<close> of a file.\<close>

definition rc_idx :: "file_id \<Rightarrow> nat \<Rightarrow> u64" where
  "rc_idx fid k = of_nat (unat fid * 2 ^ 20 + k)"

lemma rc_idx_bound: "k < 2 ^ 20 \<Longrightarrow> unat fid * 2 ^ 20 + k < 2 ^ 52"
  for fid :: file_id
  using unat_u32_bound [of fid] by simp

lemma unat_of_nat64: "n < 2 ^ 64 \<Longrightarrow> unat (of_nat n :: u64) = n"
  by (simp add: unat_of_nat take_bit_nat_eq_self)

lemma rc_push_idx:
  assumes "k < 2 ^ 20"
  shows "unat (push_bit kBit (rc_idx fid k)) = unat fid * 2 ^ 32 + k * 2 ^ 12"
proof -
  have b: "unat fid * 2 ^ 20 + k < 2 ^ 52" by (rule rc_idx_bound [OF assms])
  have "push_bit kBit (rc_idx fid k) = of_nat ((unat fid * 2 ^ 20 + k) * 2 ^ 12)"
    by (simp add: rc_idx_def kBit_def push_bit_eq_mult)
  moreover have "(unat fid * 2 ^ 20 + k) * 2 ^ 12 < 2 ^ 64" using b by simp
  ultimately have "unat (push_bit kBit (rc_idx fid k)) = (unat fid * 2 ^ 20 + k) * 2 ^ 12"
    using unat_of_nat64 by (simp only:)
  then show ?thesis by simp
qed

lemma rc_GetOffset_idx:
  assumes "k < 2 ^ 20"
  shows "unat (rc_GetOffset (rc_idx fid k)) = k * 2 ^ 12"
proof -
  have "unat (rc_GetOffset (rc_idx fid k)) = (unat fid * 2 ^ 32 + k * 2 ^ 12) mod 2 ^ 32"
    unfolding rc_GetOffset_def unsigned_ucast_eq rc_push_idx [OF assms] by (simp add: take_bit_eq_mod)
  also have "\<dots> = k * 2 ^ 12" using assms by simp
  finally show ?thesis .
qed

lemma rc_GetFile_idx:
  assumes "k < 2 ^ 20"
  shows "rc_GetFile (rc_idx fid k) = fid"
proof (rule unsigned_word_eqI [where ?'a = nat])
  have "unat (drop_bit 32 (push_bit kBit (rc_idx fid k))) = (unat fid * 2 ^ 32 + k * 2 ^ 12) div 2 ^ 32"
    unfolding unat_drop_bit_eq rc_push_idx [OF assms] by (simp only: drop_bit_eq_div)
  also have "\<dots> = unat fid" using assms by simp
  finally show "unat (rc_GetFile (rc_idx fid k)) = unat fid"
    using unat_u32_bound [of fid]
    unfolding rc_GetFile_def unsigned_ucast_eq by (simp add: take_bit_nat_eq_self)
qed

lemma rc_address: "unat (push_bit 32 (ucast fid) OR ucast off :: u64) = unat fid * 2 ^ 32 + unat off"
  for fid :: file_id and off :: u32
proof -
  let ?f = "push_bit 32 (ucast fid) :: u64" and ?o = "ucast off :: u64"
  have "?f AND ?o = 0"
    by (rule bit_word_eqI) (auto simp: bit_simps dest: bit_imp_le_length)
  then have "?f OR ?o = ?f + ?o" using word_plus_and_or [of ?f ?o] by simp
  also have "\<dots> = of_nat (unat fid * 2 ^ 32 + unat off)"
    by (simp add: push_bit_eq_mult)
  finally have "?f OR ?o = of_nat (unat fid * 2 ^ 32 + unat off)" .
  moreover have "unat fid * 2 ^ 32 + unat off < 2 ^ 64"
    using unat_u32_bound [of fid] unat_u32_bound [of off] by simp
  ultimately show ?thesis using unat_of_nat64 by (simp only:)
qed

lemma rc_GetBlockIdx_idx: "rc_GetBlockIdx fid off = rc_idx fid (unat off div 2 ^ 12)"
proof (rule unsigned_word_eqI [where ?'a = nat])
  have "unat off div 2 ^ 12 < 2 ^ 20" using unat_u32_bound [of off] by simp
  then have b: "unat fid * 2 ^ 20 + unat off div 2 ^ 12 < 2 ^ 64"
    using rc_idx_bound [of "unat off div 2 ^ 12" fid] by simp
  have "unat (rc_GetBlockIdx fid off) = (unat fid * 2 ^ 32 + unat off) div 2 ^ 12"
    unfolding rc_GetBlockIdx_def unat_drop_bit_eq rc_address by (simp only: drop_bit_eq_div kBit_def)
  also have "\<dots> = unat fid * 2 ^ 20 + unat off div 2 ^ 12" by simp
  also have "\<dots> = unat (rc_idx fid (unat off div 2 ^ 12))"
    unfolding rc_idx_def by (rule unat_of_nat64 [OF b, symmetric])
  finally show "unat (rc_GetBlockIdx fid off) = unat (rc_idx fid (unat off div 2 ^ 12))" .
qed

lemma rc_idx_Suc: "rc_idx fid k + 1 = rc_idx fid (Suc k)"
  by (simp add: rc_idx_def)

lemma rc_idx_inj:
  assumes "rc_idx fid k = rc_idx fid' k'" "k < 2 ^ 20" "k' < 2 ^ 20"
  shows "fid = fid'" and "k = k'"
proof -
  show "fid = fid'" using rc_GetFile_idx assms by metis
  show "k = k'" using rc_GetOffset_idx [OF assms(2), of fid] rc_GetOffset_idx [OF assms(3), of fid'] assms(1)
    by simp
qed

section \<open>The contract of the opener\<close>

text \<open>
  \<open>holds (view s) fid c\<close>: the file \<open>fid\<close> has the content \<open>c\<close>. Opening a file
  keeps the view of the state, and what it returns reads the content.
\<close>

locale file_opener =
  fixes opener :: "file_id \<Rightarrow> 's \<Rightarrow> status \<times> 'f option \<times> 's"
    and F :: "'s \<Rightarrow> 'f file_ops"
    and good :: "'s \<Rightarrow> bool"
    and view :: "'s \<Rightarrow> 'v"
    and holds :: "'v \<Rightarrow> file_id \<Rightarrow> bytes \<Rightarrow> bool"
    and reads :: "'s \<Rightarrow> 'f \<Rightarrow> bytes \<Rightarrow> bool"
  assumes open_ok: "good s \<Longrightarrow> holds (view s) fid c \<Longrightarrow>
          \<exists>f s'. opener fid s = (kOk, Some f, s') \<and> good s' \<and> view s' = view s \<and> reads s' f c"
    and read_ok: "good s \<Longrightarrow> reads s f c \<Longrightarrow> off + n \<le> length c \<Longrightarrow>
          f_Read (F s) f off n = Some (slice c off n)"
    and holds_unique: "holds v fid c \<Longrightarrow> holds v fid c' \<Longrightarrow> c = c'"

text \<open>
  A cached block is the block of a file that satisfies \<open>A\<close>, if that file is still there.
\<close>

definition rc_block_ok ::
    "(file_id \<Rightarrow> bytes \<Rightarrow> bool) \<Rightarrow> (file_id \<Rightarrow> bool) \<Rightarrow> u64 \<Rightarrow> bytes \<Rightarrow> bool" where
  "rc_block_ok H A idx b \<longleftrightarrow> A (rc_GetFile idx) \<and> (\<forall>fid k c. H fid c \<longrightarrow> k < 2 ^ 20 \<longrightarrow> idx = rc_idx fid k \<longrightarrow>
     (k + 1) * 4096 \<le> length c \<longrightarrow> b = slice c (k * 4096) 4096)"

definition rc_cache_ok ::
    "'a pedrolib \<Rightarrow> (file_id \<Rightarrow> bytes \<Rightarrow> bool) \<Rightarrow> (file_id \<Rightarrow> bool) \<Rightarrow> rc_cache \<Rightarrow> bool" where
  "rc_cache_ok P H A bc \<longleftrightarrow> seg_inv lru_ok bc
     \<and> cache_sound (seg_lookup lru_lookup (rc_hash P)) (rc_block_ok H A) bc"

lemma rc_cache_ok_mono:
  assumes "rc_cache_ok P H A bc" "\<And>fid c. A fid \<Longrightarrow> H' fid c \<Longrightarrow> H fid c" "\<And>fid. A fid \<Longrightarrow> A' fid"
  shows "rc_cache_ok P H' A' bc"
proof -
  have "rc_block_ok H' A' idx b" if ok: "rc_block_ok H A idx b" for idx b
  proof -
    have "A fid" if "k < 2 ^ 20" "idx = rc_idx fid k" for fid k
      using ok that rc_GetFile_idx [of k fid] by (simp add: rc_block_ok_def)
    then show ?thesis using ok assms(2,3) unfolding rc_block_ok_def by blast
  qed
  then show ?thesis using assms(1) unfolding rc_cache_ok_def cache_sound_def by blast
qed

lemma rc_block_size [simp]: "rc_block_size = 4096"
  by (simp add: rc_block_size_def kBit_def)

lemma rc_new_ok:
  assumes "rc_new segments capacity = Some bc"
  shows "rc_cache_ok P H A bc"
proof -
  have n: "0 < segments" and bc: "bc = replicate segments
      (lru_init (drop_bit kBit (size_sub (capacity + segments) 1 div segments)))"
    using assms by (auto simp: rc_new_def split: if_splits)
  have "seg_lookup lru_lookup (rc_hash P) bc k = None" for k
    using n by (simp add: seg_lookup_def bc lru_lookup_def lru_init_def seg_locate_def)
  then show ?thesis using seg_inv_lru_init [OF n] by (simp add: rc_cache_ok_def cache_sound_def bc)
qed

text \<open>The part of the range that lies in block \<open>k\<close>.\<close>

definition rc_piece :: "bytes \<Rightarrow> nat \<Rightarrow> nat \<Rightarrow> nat \<Rightarrow> bytes" where
  "rc_piece c b e k = slice c (max (k * 4096) b) (min ((k + 1) * 4096) e - max (k * 4096) b)"

lemma rc_block_of:
  "(n :: nat) < (n div 4096 + 1) * 4096" "0 < m \<Longrightarrow> n div 4096 * 4096 < n + m"
proof -
  show "n < (n div 4096 + 1) * 4096"
    using dividend_less_div_times [of 4096 n] by simp
  show "n div 4096 * 4096 < n + m" if "0 < m"
    using div_times_less_eq_dividend [of n 4096] that by linarith
qed

text \<open>One block adds its part of the range to the context.\<close>

definition rc_add :: "bytes \<Rightarrow> 'f rc_context \<Rightarrow> 'f rc_context" where
  "rc_add x ctx = (if length x = rc_Size ctx then ctx\<lparr>rc_block_ref := Some x\<rparr>
     else ctx\<lparr>rc_buf := rc_buf ctx @ x\<rparr>)"

lemma rc_Get_block_range:
  assumes g: "seg_GetOrCompute lru_ops (rc_hash P) (rc_idx fid k) (rc_load opener F (rc_idx fid k))
        (Some (rc_file ctx, s)) bc = (kOk, blk, Some (file', s'), bc')"
    and blk: "length blk = 4096" and k: "Suc k < 2 ^ 20"
    and be: "unat (rc_begin ctx) = b" "unat (rc_end ctx) = e" "b < e" "b < (k + 1) * 4096" "k * 4096 < e"
  shows "rc_Get_block P opener F (rc_idx fid k) ctx s bc
     = Some (kOk, rc_add (slice blk (max (k * 4096) b - k * 4096) (min ((k + 1) * 4096) e - max (k * 4096) b))
         (ctx\<lparr>rc_file := file'\<rparr>), s', bc')"
proof -
  let ?ctx = "ctx\<lparr>rc_file := file'\<rparr>"
  let ?b = "max (k * 4096) b" and ?e = "min ((k + 1) * 4096) e"
  have o1: "unat (rc_GetOffset (rc_idx fid k)) = k * 4096"
    "unat (rc_GetOffset (rc_idx fid k + 1)) = (k + 1) * 4096"
    using rc_GetOffset_idx [of k fid] rc_GetOffset_idx [OF k, of fid] k by (simp_all add: rc_idx_Suc)
  have mx: "unat (max (rc_GetOffset (rc_idx fid k)) (rc_begin ctx)) = ?b"
    using o1 be by (auto simp: max_def word_le_nat_alt)
  have mn: "unat (min (rc_GetOffset (rc_idx fid k + 1)) (rc_end ctx)) = ?e"
    using o1 be by (auto simp: min_def word_le_nat_alt)
  have left: "unat (max (rc_GetOffset (rc_idx fid k)) (rc_begin ctx) - rc_GetOffset (rc_idx fid k))
      = ?b - k * 4096"
    using mx o1 by (subst unat_sub) (auto simp: word_le_nat_alt)
  have n: "unat (min (rc_GetOffset (rc_idx fid k + 1)) (rc_end ctx)
      - max (rc_GetOffset (rc_idx fid k)) (rc_begin ctx)) = ?e - ?b"
    using mx mn be by (subst unat_sub) (auto simp: word_le_nat_alt)
  have "(?b - k * 4096) + (?e - ?b) \<le> 4096" using be by auto
  then have "\<not> (?b - k * 4096) + (?e - ?b) > length blk" using blk by simp
  moreover have sel: "rc_begin ?ctx = rc_begin ctx" "rc_end ?ctx = rc_end ctx" "rc_buf ?ctx = rc_buf ctx"
    by simp_all
  ultimately show ?thesis
    unfolding rc_Get_block_def g rc_add_def rc_Size_def
    by (simp only: prod.case option.case Let_def sel left n if_False not_True_eq_False simp_thms)
qed

text \<open>Whatever the opener does, a block that has been read is cached from then on.\<close>

definition rc_capacities :: "rc_cache \<Rightarrow> bool" where
  "rc_capacities bc \<longleftrightarrow> (\<forall>c \<in> set bc. lru_capacity c \<noteq> 0)"

abbreviation rc_lookup :: "'a pedrolib \<Rightarrow> rc_cache \<Rightarrow> u64 \<Rightarrow> bytes option" where
  "rc_lookup P \<equiv> seg_lookup lru_lookup (rc_hash P)"

lemma rc_Get_block_caches:
  assumes r: "rc_Get_block P opener F i ctx s bc = Some (kOk, ctx', s', bc')"
    and bc: "seg_inv lru_ok bc" "rc_capacities bc"
  shows "rc_lookup P bc' i \<noteq> None" and "rc_capacities bc'"
proof -
  obtain st v w bc1 where g: "seg_GetOrCompute lru_ops (rc_hash P) i (rc_load opener F i) (Some (rc_file ctx, s)) bc
      = (st, v, w, bc1)" by (metis prod_cases4)
  have st: "st = kOk" "bc1 = bc'"
    using r unfolding rc_Get_block_def g by (auto simp: Let_def split: option.splits if_splits)
  have cap: "\<forall>c \<in> set bc. lru_capacity c \<noteq> 0" using bc(2) by (simp add: rc_capacities_def)
  show "rc_lookup P bc' i \<noteq> None" using get_or_compute_memoises [OF bc(1) cap g] st by simp
  have "bc \<noteq> []" using bc(1) by (simp add: seg_inv_def)
  from get_or_compute_capacity [OF cap this g] show "rc_capacities bc'" using st(2) by (simp add: rc_capacities_def)
qed

text \<open>
  A block is never read again: when the cached one has only zeros where a record has been written
  since, the record is not found.
\<close>

lemma rc_Get_stale:
  fixes F :: "'s \<Rightarrow> 'f file_ops"
  assumes P: "codec_ok P" and bc: "seg_inv lru_ok bc" "rc_capacities bc" "rc_lookup P bc (rc_idx fid k) = Some blk"
    and blk: "length blk = 4096" "slice blk (unat off - k * 4096) (unat n) = replicate (unat n) 0"
    and k: "Suc k < 2 ^ 20" "k * 4096 \<le> unat off" "0 < unat n" "unat off + unat n \<le> (k + 1) * 4096"
  shows "\<exists>ctx bc'. rc_Get P opener F (rc_Context (Location fid off) n) s bc = Some (kCorruption, ctx, s, bc')"
proof -
  let ?ctx = "rc_Context (Location fid off) n :: 'f rc_context"
  have cap: "\<forall>c \<in> set bc. lru_capacity c \<noteq> 0" using bc(2) by (simp add: rc_capacities_def)
  obtain st v w bc' where g0: "seg_GetOrCompute lru_ops (rc_hash P) (rc_idx fid k) (rc_load opener F (rc_idx fid k))
      (Some (rc_file ?ctx, s)) bc = (st, v, w, bc')" by (metis prod_cases4)
  then have g: "seg_GetOrCompute lru_ops (rc_hash P) (rc_idx fid k) (rc_load opener F (rc_idx fid k))
      (Some (rc_file ?ctx, s)) bc = (kOk, blk, Some (None, s), bc')"
    using get_or_compute_memoises [OF bc(1) cap g0] bc(3) by (simp add: rc_Context_def)
  have "(k + 1) * 4096 < 2 ^ 32" using k(1) by simp
  then have sum: "unat off + unat n < 2 ^ 32" using k(4) by linarith
  then have e: "unat (off + n) = unat off + unat n" by (simp add: unat_add_lem [THEN iffD1])
  have sub: "off + n - off = n" by simp
  have b: "unat (rc_begin ?ctx) = unat off" "unat (rc_end ?ctx) = unat off + unat n" "rc_Size ?ctx = unat n"
    using e sub by (simp_all add: rc_Context_def rc_Size_def)
  have lt: "unat off < unat off + unat n" "unat off < (k + 1) * 4096" "k * 4096 < unat off + unat n"
    using k by linarith+
  have "max (k * 4096) (unat off) = unat off" "min ((k + 1) * 4096) (unat off + unat n) = unat off + unat n"
    using k(2,4) by linarith+
  then have blk': "rc_Get_block P opener F (rc_idx fid k) ?ctx s bc
      = Some (kOk, rc_add (replicate (unat n) 0) (?ctx\<lparr>rc_file := None\<rparr>), s, bc')"
    using rc_Get_block_range [OF g blk(1) k(1) b(1,2) lt] blk(2) by simp
  have "unat off div 4096 = k" using k(2) lt(2) by (intro div_nat_eqI) simp_all
  then have idx: "rc_GetBlockIdx fid off = rc_idx fid k" by (simp add: rc_GetBlockIdx_idx)
  have o1: "unat (rc_GetOffset (rc_idx fid k)) = k * 4096" "unat (rc_GetOffset (rc_idx fid (Suc k))) = (k + 1) * 4096"
    using rc_GetOffset_idx [of k fid] rc_GetOffset_idx [OF k(1), of fid] k(1) by simp_all
  have "rc_GetOffset (rc_idx fid k) < rc_end ?ctx" "\<not> rc_GetOffset (rc_idx fid (Suc k)) < rc_end ?ctx"
    using o1 b(2) lt(3) k(4) by (simp_all add: word_less_nat_alt)
  moreover have "rc_Build P (rc_add (replicate (unat n) 0) (?ctx\<lparr>rc_file := None\<rparr>))
      = Some (kCorruption, rc_add (replicate (unat n) 0) (?ctx\<lparr>rc_file := None\<rparr>))"
  proof -
    let ?v = "readable_view_new (replicate (unat n) 0) (length (replicate (unat n) (0 :: u8)))"
    have "length (replicate (unat n) (0 :: u8)) < 2 ^ 64" using unat_u32_bound [of n] by simp
    then have "rv_inv ?v" "rb_bytes rv_ops ?v = replicate (unat n) 0" using rv_new [of "replicate (unat n) 0"] by simp_all
    then have "rec_unpack P rv_ops ?v = NoEntry" using rv.rec_unpack_zeros [of P ?v] P by simp
    moreover have "rc_block_ref (rc_add (replicate (unat n) 0) (?ctx\<lparr>rc_file := None\<rparr>)) = Some (replicate (unat n) 0)"
      using b(3) by (simp add: rc_add_def rc_Size_def)
    ultimately show ?thesis by (simp add: rc_Build_def)
  qed
  moreover have "rc_end (rc_add (replicate (unat n) 0) (?ctx\<lparr>rc_file := None\<rparr>)) = rc_end ?ctx"
    by (simp add: rc_add_def)
  ultimately have "rc_Get P opener F ?ctx s bc = Some (kCorruption, rc_add (replicate (unat n) 0) (?ctx\<lparr>rc_file := None\<rparr>), s, bc')"
    using blk' by (simp add: rc_Get_def rc_Get_from.simps [of P opener F "rc_idx fid k"] rc_Get_from.simps [of P opener F "rc_idx fid (Suc k)"]
        rc_idx_Suc rc_Context_def [of "Location fid off"] idx)
  then show ?thesis by blast
qed

context file_opener begin

definition rc_file_ok :: "'s \<Rightarrow> 'f option \<Rightarrow> bytes \<Rightarrow> bool" where
  "rc_file_ok s file c \<longleftrightarrow> (case file of None \<Rightarrow> True | Some f \<Rightarrow> reads s f c)"

lemma rc_load_ok:
  assumes s: "good s" "holds (view s) fid c" and fo: "rc_file_ok s file c"
    and k: "k < 2 ^ 20" "(k + 1) * 4096 \<le> length c"
  shows "\<exists>f s'. rc_load opener F (rc_idx fid k) (Some (file, s))
       = (kOk, slice c (k * 4096) 4096, Some (Some f, s'))
     \<and> good s' \<and> view s' = view s \<and> reads s' f c"
proof -
  obtain f s' where o1: "(case file of Some f \<Rightarrow> (kOk, Some f, s) | None \<Rightarrow> opener fid s) = (kOk, Some f, s')"
    "good s'" "view s' = view s" "reads s' f c"
  proof (cases "file")
    case None
    from open_ok [OF s] obtain f s' where "opener fid s = (kOk, Some f, s')" "good s'"
      "view s' = view s" "reads s' f c" by blast
    then show ?thesis using that None by simp
  next
    case (Some f)
    then show ?thesis using that [of f s] s fo by (simp add: rc_file_ok_def)
  qed
  have "f_Read (F s') f (k * 4096) 4096 = Some (slice c (k * 4096) 4096)"
    using k by (intro read_ok [OF o1(2,4)]) simp
  moreover have "length (slice c (k * 4096) 4096) = 4096" using k by simp
  ultimately show ?thesis
    using o1 rc_GetOffset_idx [OF k(1), of fid]
    unfolding rc_load_def rc_GetFile_idx [OF k(1)] by (simp add: Let_def)
qed

lemma rc_GetOrCompute_ok:
  assumes s: "good s" "holds (view s) fid c" and fo: "rc_file_ok s file c"
    and k: "k < 2 ^ 20" "(k + 1) * 4096 \<le> length c" and bc: "rc_cache_ok P (holds (view s)) A bc" "A fid"
  shows "\<exists>file' s' bc'. seg_GetOrCompute lru_ops (rc_hash P) (rc_idx fid k)
         (rc_load opener F (rc_idx fid k)) (Some (file, s)) bc
       = (kOk, slice c (k * 4096) 4096, Some (file', s'), bc')
     \<and> good s' \<and> view s' = view s \<and> rc_file_ok s' file' c \<and> rc_cache_ok P (holds (view s)) A bc'"
proof -
  let ?load = "rc_load opener F (rc_idx fid k)"
  obtain st v w bc' where r: "seg_GetOrCompute lru_ops (rc_hash P) (rc_idx fid k) ?load (Some (file, s)) bc
      = (st, v, w, bc')" by (metis prod_cases4)
  obtain f s1 where l: "?load (Some (file, s)) = (kOk, slice c (k * 4096) 4096, Some (Some f, s1))"
    "good s1" "view s1 = view s" "reads s1 f c"
    using rc_load_ok [OF s fo k] by blast
  have own: "rc_block_ok (holds (view s)) A (rc_idx fid k) v'" if "v' = slice c (k * 4096) 4096" for v'
    unfolding rc_block_ok_def
    using rc_idx_inj [OF _ k(1)] holds_unique [OF s(2)] that bc(2) rc_GetFile_idx [OF k(1)] by metis
  have st: "st = kOk"
    using r l(1) by (auto simp: seg_GetOrCompute_def Let_def split: prod.splits option.splits)
  note g = lru_segments.get_or_compute [of bc "rc_hash P" "rc_block_ok (holds (view s)) A" "rc_idx fid k"
      ?load "Some (file, s)" st v w bc']
  have ok: "seg_inv lru_ok bc'" "cache_sound (seg_lookup lru_lookup (rc_hash P)) (rc_block_ok (holds (view s)) A) bc'"
    "rc_block_ok (holds (view s)) A (rc_idx fid k) v"
    "w = Some (file, s) \<or> w = Some (Some f, s1)"
    using g bc r l own st by (auto simp: rc_cache_ok_def)
  have "v = slice c (k * 4096) 4096"
    using ok(3) s(2) k unfolding rc_block_ok_def by blast
  then show ?thesis
    using ok r st l s fo by (auto simp: rc_cache_ok_def rc_file_ok_def)
qed

text \<open>The context of a read of the range from \<open>b\<close> to \<open>e\<close>.\<close>

definition rc_ctx_ok :: "'s \<Rightarrow> 'f rc_context \<Rightarrow> file_id \<Rightarrow> bytes \<Rightarrow> nat \<Rightarrow> nat \<Rightarrow> bool" where
  "rc_ctx_ok s ctx fid c b e \<longleftrightarrow> rc_file_ok s (rc_file ctx) c \<and> rc_file_idx ctx = fid
     \<and> unat (rc_begin ctx) = b \<and> unat (rc_end ctx) = e \<and> b < e \<and> e \<le> length c
     \<and> 4096 dvd length c \<and> length c < 2 ^ 32"

lemma rc_ctx_blocks:
  assumes "rc_ctx_ok s ctx fid c b e" "k * 4096 < e"
  shows "(k + 1) * 4096 \<le> length c" "Suc k < 2 ^ 20" "k < 2 ^ 20"
proof -
  obtain n where n: "length c = 4096 * n" using assms by (auto simp: rc_ctx_ok_def)
  then have "k < n" "n < 2 ^ 20" using assms by (auto simp: rc_ctx_ok_def)
  then show "(k + 1) * 4096 \<le> length c" "Suc k < 2 ^ 20" "k < 2 ^ 20" using n by auto
qed

lemma rc_Get_block_ok:
  assumes s: "good s" "holds (view s) fid c" and ctx: "rc_ctx_ok s ctx fid c b e"
    and bc: "rc_cache_ok P (holds (view s)) A bc" "A fid" and k: "b < (k + 1) * 4096" "k * 4096 < e"
  shows "\<exists>ctx' s' bc'. rc_Get_block P opener F (rc_idx fid k) ctx s bc
         = Some (kOk, rc_add (rc_piece c b e k) ctx', s', bc')
     \<and> good s' \<and> view s' = view s \<and> rc_ctx_ok s' ctx' fid c b e
     \<and> rc_cache_ok P (holds (view s)) A bc' \<and> rc_buf ctx' = rc_buf ctx
     \<and> rc_block_ref ctx' = rc_block_ref ctx"
proof -
  note kb = rc_ctx_blocks [OF ctx k(2)]
  have f: "rc_file_ok s (rc_file ctx) c" using ctx by (simp add: rc_ctx_ok_def)
  from rc_GetOrCompute_ok [OF s f kb(3,1) bc] obtain file' s' bc' where
    g: "seg_GetOrCompute lru_ops (rc_hash P) (rc_idx fid k) (rc_load opener F (rc_idx fid k))
          (Some (rc_file ctx, s)) bc = (kOk, slice c (k * 4096) 4096, Some (file', s'), bc')"
      "good s'" "view s' = view s" "rc_file_ok s' file' c" "rc_cache_ok P (holds (view s)) A bc'" by blast
  let ?ctx = "ctx\<lparr>rc_file := file'\<rparr>"
  let ?b = "max (k * 4096) b" and ?e = "min ((k + 1) * 4096) e"
  have be: "unat (rc_begin ctx) = b" "unat (rc_end ctx) = e" "b < e" using ctx by (simp_all add: rc_ctx_ok_def)
  have fits: "(?b - k * 4096) + (?e - ?b) \<le> 4096" using k be by auto
  have piece: "slice (slice c (k * 4096) 4096) (?b - k * 4096) (?e - ?b) = rc_piece c b e k"
    using slice_slice [OF fits, of c "k * 4096"] by (simp add: rc_piece_def)
  have len: "length (slice c (k * 4096) 4096) = 4096" using kb(1) by simp
  have "rc_Get_block P opener F (rc_idx fid k) ctx s bc = Some (kOk, rc_add (rc_piece c b e k) ?ctx, s', bc')"
    using rc_Get_block_range [OF g(1) len kb(2) be k] unfolding piece .
  moreover have "rc_ctx_ok s' ?ctx fid c b e" using ctx g(4) by (simp add: rc_ctx_ok_def)
  ultimately show ?thesis using g by (intro exI [of _ ?ctx] exI [of _ s'] exI [of _ bc']) simp
qed

text \<open>What the read has collected when the loop reaches block \<open>k\<close>.\<close>

definition rc_range :: "'f rc_context \<Rightarrow> bytes \<Rightarrow> nat \<Rightarrow> nat \<Rightarrow> bool" where
  "rc_range ctx c b e \<longleftrightarrow> (case rc_block_ref ctx of Some x \<Rightarrow> x | None \<Rightarrow> rc_buf ctx) = slice c b (e - b)"

lemma rc_Get_end:
  assumes ctx: "rc_ctx_ok s ctx fid c b e" "rc_range ctx c b e" and P: "codec_ok P"
    and k: "e \<le> k * 4096" "k < 2 ^ 20" and e: "rec_wf r" "slice c b (e - b) = rec_bytes P r"
  shows "rc_Get_from P opener F (rc_idx fid k) ctx s bc = Some (kOk, ctx\<lparr>rc_entry := Some r\<rparr>, s, bc)"
proof -
  have "\<not> rc_GetOffset (rc_idx fid k) < rc_end ctx"
    using rc_GetOffset_idx [OF k(2), of fid] ctx(1) k(1) by (simp add: word_less_nat_alt rc_ctx_ok_def)
  moreover have "rc_Build P ctx = Some (kOk, ctx\<lparr>rc_entry := Some r\<rparr>)"
  proof -
    let ?v = "readable_view_new (rec_bytes P r) (length (rec_bytes P r))"
    have "length (rec_bytes P r) < 2 ^ 64" using e P by (simp add: rec_wf_def)
    then have "rv_inv ?v" "rb_bytes rv_ops ?v = rec_bytes P r @ []" using rv_new [of "rec_bytes P r"] by simp_all
    from rv.rec_unpack_bytes [OF P this e(1)] obtain v' where "rec_unpack P rv_ops ?v = Got (r, v')" by blast
    then show ?thesis using ctx(2) e(2) by (simp add: rc_Build_def rc_range_def Let_def)
  qed
  ultimately show ?thesis by (subst rc_Get_from.simps) simp
qed

lemma rc_Get_step:
  assumes s: "good s" "holds (view s) fid c" and ctx: "rc_ctx_ok s ctx fid c b e"
    and bc: "rc_cache_ok P (holds (view s)) A bc" "A fid" and k: "b < (k + 1) * 4096" "k * 4096 < e"
  shows "\<exists>ctx' s' bc'. rc_Get_from P opener F (rc_idx fid k) ctx s bc
       = rc_Get_from P opener F (rc_idx fid (Suc k)) (rc_add (rc_piece c b e k) ctx') s' bc'
     \<and> good s' \<and> view s' = view s \<and> rc_ctx_ok s' ctx' fid c b e
     \<and> rc_cache_ok P (holds (view s)) A bc' \<and> rc_buf ctx' = rc_buf ctx
     \<and> rc_block_ref ctx' = rc_block_ref ctx"
proof -
  note kb = rc_ctx_blocks [OF ctx k(2)]
  have "rc_GetOffset (rc_idx fid k) < rc_end ctx"
    using rc_GetOffset_idx [OF kb(3), of fid] ctx k by (simp add: word_less_nat_alt rc_ctx_ok_def)
  then have step: "rc_Get_from P opener F (rc_idx fid k) ctx s bc
      = rc_Get_from P opener F (rc_idx fid (Suc k)) x s' bc'"
    if "rc_Get_block P opener F (rc_idx fid k) ctx s bc = Some (kOk, x, s', bc')" for x s' bc'
    using that by (simp add: rc_Get_from.simps [of P opener F "rc_idx fid k" ctx] rc_idx_Suc)
  from rc_Get_block_ok [OF s ctx bc k] show ?thesis using step by meson
qed

lemma rc_add_piece:
  assumes ctx: "rc_ctx_ok s ctx fid c b e" and k: "b < (k + 1) * 4096" "k * 4096 < e"
    and buf: "rc_block_ref ctx = None" "rc_buf ctx = slice c b (k * 4096 - b)"
  shows "rc_ctx_ok s (rc_add (rc_piece c b e k) ctx) fid c b e"
    and "e \<le> (k + 1) * 4096 \<Longrightarrow> rc_range (rc_add (rc_piece c b e k) ctx) c b e"
    and "(k + 1) * 4096 < e \<Longrightarrow> rc_block_ref (rc_add (rc_piece c b e k) ctx) = None
      \<and> rc_buf (rc_add (rc_piece c b e k) ctx) = slice c b ((k + 1) * 4096 - b)"
proof -
  have sz: "rc_Size ctx = e - b" and e: "b < e" "e \<le> length c"
    using ctx unat_sub [of "rc_begin ctx" "rc_end ctx"]
    by (simp_all add: rc_Size_def rc_ctx_ok_def word_le_nat_alt)
  have whole: "rc_buf ctx @ rc_piece c b e k = slice c b (min ((k + 1) * 4096) e - b)"
  proof (cases "b < k * 4096")
    case True
    have "rc_piece c b e k = slice c (b + (k * 4096 - b)) (min ((k + 1) * 4096) e - k * 4096)"
      using True by (simp add: rc_piece_def max_def)
    moreover have "(k * 4096 - b) + (min ((k + 1) * 4096) e - k * 4096) = min ((k + 1) * 4096) e - b"
      using True k by auto
    ultimately show ?thesis using slice_append_slice buf(2) by metis
  next
    case False
    then show ?thesis by (simp add: buf(2) rc_piece_def max_def)
  qed
  have len: "length (rc_piece c b e k) = min ((k + 1) * 4096) e - max (k * 4096) b"
    using e by (auto simp: rc_piece_def)
  show "rc_ctx_ok s (rc_add (rc_piece c b e k) ctx) fid c b e"
    using ctx by (simp add: rc_add_def rc_ctx_ok_def)
  show "rc_range (rc_add (rc_piece c b e k) ctx) c b e" if last: "e \<le> (k + 1) * 4096"
  proof (cases "length (rc_piece c b e k) = rc_Size ctx")
    case True
    then have "\<not> b < k * 4096" using sz len last e k by (auto simp: min_def max_def split: if_splits)
    then have "rc_buf ctx = []" by (simp add: buf)
    then show ?thesis using True whole last by (simp add: rc_add_def rc_range_def min_def)
  next
    case False
    then show ?thesis using buf(1) whole last by (simp add: rc_add_def rc_range_def min_def)
  qed
  assume more: "(k + 1) * 4096 < e"
  then have "length (rc_piece c b e k) \<noteq> rc_Size ctx"
    using sz len e by (auto simp: min_def max_def split: if_splits)
  then show "rc_block_ref (rc_add (rc_piece c b e k) ctx) = None
      \<and> rc_buf (rc_add (rc_piece c b e k) ctx) = slice c b ((k + 1) * 4096 - b)"
    using buf(1) whole more by (simp add: rc_add_def min_def)
qed

lemma rc_Get_from_ok:
  assumes P: "codec_ok P" and e: "rec_wf r" "slice c b (e - b) = rec_bytes P r"
  shows "good s \<Longrightarrow> holds (view s) fid c \<Longrightarrow> rc_ctx_ok s ctx fid c b e \<Longrightarrow>
     rc_cache_ok P (holds (view s)) A bc \<Longrightarrow> A fid \<Longrightarrow> b < (k + 1) * 4096 \<Longrightarrow> k * 4096 < e \<Longrightarrow>
     rc_block_ref ctx = None \<Longrightarrow> rc_buf ctx = slice c b (k * 4096 - b) \<Longrightarrow>
     \<exists>ctx' s' bc'. rc_Get_from P opener F (rc_idx fid k) ctx s bc = Some (kOk, ctx', s', bc')
       \<and> rc_entry ctx' = Some r \<and> good s' \<and> view s' = view s \<and> rc_cache_ok P (holds (view s)) A bc'"
proof (induction "e - k * 4096" arbitrary: k ctx s bc rule: less_induct)
  case less
  note kb = rc_ctx_blocks [OF less.prems(3,7)]
  from rc_Get_step [OF less.prems(1-7)] obtain ctx1 s1 bc1 where
    st: "rc_Get_from P opener F (rc_idx fid k) ctx s bc
       = rc_Get_from P opener F (rc_idx fid (Suc k)) (rc_add (rc_piece c b e k) ctx1) s1 bc1"
      "good s1" "view s1 = view s" "rc_ctx_ok s1 ctx1 fid c b e" "rc_cache_ok P (holds (view s)) A bc1"
      "rc_buf ctx1 = slice c b (k * 4096 - b)" "rc_block_ref ctx1 = None"
    using less.prems by auto
  note add = rc_add_piece [OF st(4) less.prems(6,7) st(7,6)]
  show ?case
  proof (cases "e \<le> (k + 1) * 4096")
    case True
    from rc_Get_end [OF add(1) add(2) [OF True] P _ kb(2) e, of bc1] True
    show ?thesis using st by simp
  next
    case False
    then have more: "(k + 1) * 4096 < e" by simp
    have "e - Suc k * 4096 < e - k * 4096" using less.prems(7) by simp
    from less.hyps [OF this st(2) _ add(1) _ _ _ _ conjunct1 [OF add(3) [OF more]]] 
    show ?thesis using st less.prems add(3) [OF more] more by simp
  qed
qed

text \<open>A read through the cache returns the record at the location.\<close>

theorem rc_Get_ok:
  assumes P: "codec_ok P" and r: "rec_wf r" "slice c (unat off) (rec_size r) = rec_bytes P r"
    and s: "good s" "holds (view s) fid c" and bc: "rc_cache_ok P (holds (view s)) A bc" "A fid"
    and c: "unat off + rec_size r \<le> length c" "4096 dvd length c" "length c < 2 ^ 32"
  shows "\<exists>ctx' s' bc'. rc_Get P opener F (rc_Context (Location fid off) (rec_sizeof r)) s bc
       = Some (kOk, ctx', s', bc') \<and> rc_entry ctx' = Some r \<and> good s' \<and> view s' = view s
     \<and> rc_cache_ok P (holds (view s)) A bc'"
proof -
  let ?ctx = "rc_Context (Location fid off) (rec_sizeof r) :: 'f rc_context" and ?b = "unat off"
  let ?e = "unat off + rec_size r" and ?k = "unat off div 4096"
  have "unat (off + rec_sizeof r) = ?e"
    using c r by (simp add: unat_add_lem [THEN iffD1])
  then have ctx: "rc_ctx_ok s ?ctx fid c ?b ?e"
    using c by (simp add: rc_ctx_ok_def rc_Context_def rc_file_ok_def)
  have k: "?b < (?k + 1) * 4096" "?k * 4096 < ?e" by (simp_all only: rc_block_of rec_size_pos)
  have "rc_block_ref ?ctx = None" "rc_buf ?ctx = slice c ?b (?k * 4096 - ?b)"
    by (simp_all add: rc_Context_def)
  moreover have "slice c ?b (?e - ?b) = rec_bytes P r" using r by simp
  moreover have "rc_Get P opener F ?ctx s bc = rc_Get_from P opener F (rc_idx fid ?k) ?ctx s bc"
    by (simp add: rc_Get_def rc_GetBlockIdx_idx rc_Context_def)
  ultimately show ?thesis
    using rc_Get_from_ok [OF P r(1) _ s ctx bc k] by simp
qed

text \<open>A read within one block leaves the block in the cache.\<close>

lemma rc_Get_caches:
  assumes P: "codec_ok P" and r: "rec_wf r" "slice c (unat off) (rec_size r) = rec_bytes P r"
    and s: "good s" "holds (view s) fid c" and bc: "rc_cache_ok P (holds (view s)) A bc" "A fid" "rc_capacities bc"
    and c: "unat off + rec_size r \<le> length c" "4096 dvd length c" "length c < 2 ^ 32"
    and k: "k = unat off div 4096" "unat off + rec_size r \<le> (k + 1) * 4096"
  shows "\<exists>ctx' s' bc'. rc_Get P opener F (rc_Context (Location fid off) (rec_sizeof r)) s bc
       = Some (kOk, ctx', s', bc') \<and> rc_entry ctx' = Some r \<and> good s' \<and> view s' = view s
     \<and> rc_cache_ok P (holds (view s)) A bc'
     \<and> rc_lookup P bc' (rc_idx fid k) = Some (slice c (k * 4096) 4096) \<and> rc_capacities bc'"
proof -
  let ?ctx = "rc_Context (Location fid off) (rec_sizeof r) :: 'f rc_context" and ?b = "unat off"
  let ?e = "unat off + rec_size r"
  have "unat (off + rec_sizeof r) = ?e" using c r by (simp add: unat_add_lem [THEN iffD1])
  then have ctx: "rc_ctx_ok s ?ctx fid c ?b ?e" using c by (simp add: rc_ctx_ok_def rc_Context_def rc_file_ok_def)
  have k': "?b < (k + 1) * 4096" "k * 4096 < ?e" unfolding k(1) by (simp_all only: rc_block_of rec_size_pos)
  note kb = rc_ctx_blocks [OF ctx k'(2)]
  from rc_Get_block_ok [OF s ctx bc(1,2) k'] obtain ctx1 s1 bc1 where
    b: "rc_Get_block P opener F (rc_idx fid k) ?ctx s bc = Some (kOk, rc_add (rc_piece c ?b ?e k) ctx1, s1, bc1)"
      "good s1" "view s1 = view s" "rc_ctx_ok s1 ctx1 fid c ?b ?e" "rc_cache_ok P (holds (view s)) A bc1"
      "rc_buf ctx1 = rc_buf ?ctx" "rc_block_ref ctx1 = rc_block_ref ?ctx" by blast
  have none: "rc_block_ref ctx1 = None" "rc_buf ctx1 = slice c ?b (k * 4096 - ?b)"
    using b(6,7) k(1) by (simp_all add: rc_Context_def)
  have inv: "seg_inv lru_ok bc" using bc(1) by (simp add: rc_cache_ok_def)
  note ca = rc_Get_block_caches [OF b(1) inv bc(3)]
  from ca(1) obtain v where v: "rc_lookup P bc1 (rc_idx fid k) = Some v" by blast
  then have "rc_block_ok (holds (view s)) A (rc_idx fid k) v" using b(5) unfolding rc_cache_ok_def cache_sound_def by blast
  then have "v = slice c (k * 4096) 4096" using s(2) kb(1,3) unfolding rc_block_ok_def by blast
  moreover have "rc_GetOffset (rc_idx fid k) < rc_end ?ctx"
    using rc_GetOffset_idx [OF kb(3), of fid] ctx k' by (simp add: word_less_nat_alt rc_ctx_ok_def)
  then have "rc_Get P opener F ?ctx s bc = rc_Get_from P opener F (rc_idx fid (Suc k)) (rc_add (rc_piece c ?b ?e k) ctx1) s1 bc1"
    using b(1) k(1) by (simp add: rc_Get_def rc_GetBlockIdx_idx rc_Get_from.simps [of P opener F "rc_idx fid (unat off div 4096)"] rc_idx_Suc rc_Context_def)
  moreover note add = rc_add_piece [OF b(4) k' none]
  moreover have sl: "slice c ?b (?e - ?b) = rec_bytes P r" using r by simp
  have last: "?e \<le> Suc k * 4096" using k(2) by simp
  note rc_Get_end [OF add(1) add(2) [OF k(2)] P last kb(2) r(1) sl, of bc1]
  ultimately show ?thesis using b(2,3,5) v ca(2) by simp
qed

end

section \<open>Block addresses\<close>

text \<open>
  The index of a block is an address: it gives back the file, and the offset of the block
  that holds the offset; two positions have the same index exactly when they are in the same
  block of the same file.
\<close>

lemma block_index_round_trip:
  "rc_GetFile (rc_GetBlockIdx fid off) = fid \<and> unat (rc_GetOffset (rc_GetBlockIdx fid off)) = unat off div 4096 * 4096
     \<and> (rc_GetBlockIdx fid off = rc_GetBlockIdx fid' off' \<longleftrightarrow> fid = fid' \<and> unat off div 4096 = unat off' div 4096)"
proof -
  have k: "unat (o' :: u32) div 4096 < 2 ^ 20" for o' using unat_u32_bound [of o'] by simp
  have idx: "rc_GetBlockIdx f o' = rc_idx f (unat o' div 4096)" for f o' using rc_GetBlockIdx_idx [of f o'] by simp
  show ?thesis
    unfolding idx rc_GetFile_idx [OF k] rc_GetOffset_idx [OF k] using rc_idx_inj [OF _ k k] by auto
qed

end
