(* ===== verification/DBImpl.thy ===== *)
theory DBImpl
  imports FileManager ReadCache
begin

text \<open>
  \<^verbatim>\<open>db_impl.h\<close>, \<^verbatim>\<open>src/db_impl.cc\<close>, \<^verbatim>\<open>src/db.cc\<close> and
  \<^verbatim>\<open>options.h\<close>: the database. The in-memory index maps a key to the location of its
  latest record; a put appends a record and moves the index, a get reads the record at the
  indexed location, recovery rebuilds the index from the files, and compaction moves the live
  records of a file to the active one. Work for the executor (the sync and compaction timers) is
  modelled by the steps that it runs. A result \<open>None\<close> is undefined behaviour of the source,
  a call of \<^verbatim>\<open>PEDRODB_FATAL\<close> or a loop that does not end.
\<close>

section \<open>Options\<close>

record options =
  opt_max_open_files :: u8
  opt_threshold_bytes :: u64
  opt_compress_value :: bool
  opt_sync_max_io_error :: int
  opt_cache_enable :: bool
  opt_cache_bytes :: nat
  opt_cache_segments :: nat

section \<open>State\<close>

datatype compact_state = kNop | kQueued | kScheduling | kCompacting

record file_state =
  free_bytes :: u64
  compact_state :: compact_state

text \<open>
  The hat-trie \<^verbatim>\<open>indices_\<close> is the map it implements. \<open>db_buf\<close> is the buffer that
  the record iterators of the thread share; \<open>db_failed_count\<close> is the counter that the sync
  worker captures.
\<close>

record 'a db =
  db_options :: options
  db_max_file :: file_id
  db_indices :: "bytes \<Rightarrow> dir option"
  db_fm :: "'a fm"
  db_readonly :: bool
  db_read_cache :: rc_cache
  db_compact_tasks :: "file_id list"
  db_file_states :: "file_id \<Rightarrow> file_state option"
  db_buf :: 'a
  db_failed_count :: int

text \<open>\<^verbatim>\<open>file_states_[id]\<close> creates the entry when there is none.\<close>

definition file_state_of :: "'a db \<Rightarrow> file_id \<Rightarrow> file_state" where
  "file_state_of s fid = (case db_file_states s fid of
     Some st \<Rightarrow> st | None \<Rightarrow> \<lparr>free_bytes = 0, compact_state = kNop\<rparr>)"

definition set_file_state :: "file_id \<Rightarrow> file_state \<Rightarrow> 'a db \<Rightarrow> 'a db" where
  "set_file_state fid st s = s\<lparr>db_file_states := (db_file_states s)(fid \<mapsto> st)\<rparr>"

section \<open>The constructor\<close>

definition db_new :: "'a pedrolib \<Rightarrow> options \<Rightarrow> path \<Rightarrow> 'a \<Rightarrow> fsys \<Rightarrow> 'a db option" where
  "db_new P opts name buf fs =
     (case rc_new (opt_cache_segments opts) (opt_cache_bytes opts) of
        None \<Rightarrow> None
      | Some bc \<Rightarrow> Some \<lparr>db_options = opts, db_max_file = 0, db_indices = (\<lambda>_. None),
          db_fm = fm_new fs (mm_new name) (opt_max_open_files opts), db_readonly = False,
          db_read_cache = bc, db_compact_tasks = [], db_file_states = (\<lambda>_. None), db_buf = buf,
          db_failed_count = 0\<rparr>)"

section \<open>Space accounting\<close>

definition db_UpdateUnused :: "location \<Rightarrow> u64 \<Rightarrow> 'a db \<Rightarrow> 'a db" where
  "db_UpdateUnused loc unused s =
     (let hint = file_state_of s (loc_id loc);
          hint = hint\<lparr>free_bytes := free_bytes hint + unused\<rparr>
      in if free_bytes hint \<ge> opt_threshold_bytes (db_options s) \<and> compact_state hint = kNop
         then let s = set_file_state (loc_id loc) (hint\<lparr>compact_state := kQueued\<rparr>) s
              in s\<lparr>db_compact_tasks := db_compact_tasks s @ [loc_id loc]\<rparr>
         else set_file_state (loc_id loc) hint s)"

definition db_PollCompactTask :: "'a db \<Rightarrow> file_id list \<times> 'a db" where
  "db_PollCompactTask s =
     (let tasks = db_compact_tasks s in
      (tasks, foldl (\<lambda>s fid. set_file_state fid
                (file_state_of s fid\<lparr>compact_state := kScheduling\<rparr>) s)
              (s\<lparr>db_compact_tasks := []\<rparr>) tasks))"

section \<open>Put and Delete\<close>

text \<open>The index update of \<^verbatim>\<open>HandlePut\<close>, under the lock.\<close>

definition db_put_index ::
    "bytes \<Rightarrow> bytes \<Rightarrow> rec_entry \<Rightarrow> location \<Rightarrow> 'a db \<Rightarrow> status \<times> 'a db" where
  "db_put_index key val e loc s =
     (let it = db_indices s key;
          s = s\<lparr>db_max_file := max (db_max_file s) (loc_id loc)\<rparr>
      in case it of
           None \<Rightarrow>
             if val = [] then (kNotFound, db_UpdateUnused loc (ucast (rec_sizeof e)) s)
             else (kOk, s\<lparr>db_indices := (db_indices s)(key \<mapsto>
                     \<lparr>dir_entry_size = rec_sizeof e, dir_loc = loc\<rparr>)\<rparr>)
         | Some d \<Rightarrow>
             let s = db_UpdateUnused (dir_loc d) (ucast (dir_entry_size d)) s;
                 s = s\<lparr>db_indices := (db_indices s)(key := None)\<rparr>
             in (kOk, if val \<noteq> [] then s\<lparr>db_indices := (db_indices s)(key \<mapsto>
                        \<lparr>dir_entry_size = rec_sizeof e, dir_loc = loc\<rparr>)\<rparr> else s))"

text \<open>The record that \<^verbatim>\<open>HandlePut\<close> writes.\<close>

definition db_entry :: "'a pedrolib \<Rightarrow> 'a db \<Rightarrow> bytes \<Rightarrow> bytes \<Rightarrow> rec_entry" where
  "db_entry P s key val =
     (let v = (if opt_compress_value (db_options s) then Compress P val else val)
      in \<lparr>re_checksum = rec_checksum P key v, re_type = (if val = [] then kDelete else kSet),
          re_key = key, re_value = v, re_timestamp = 0\<rparr>)"

text \<open>
  \<^verbatim>\<open>HandlePut\<close>; \<open>sync\<close> is the write option, and the result of the sync is not
  looked at. \<^verbatim>\<open>Sync\<close> writes nothing in the model: the mapping is the file.
\<close>

definition db_HandlePut ::
    "'a pedrolib \<Rightarrow> nat \<Rightarrow> io \<Rightarrow> bool \<Rightarrow> bytes \<Rightarrow> bytes \<Rightarrow> 'a db \<Rightarrow> (status \<times> 'a db) option" where
  "db_HandlePut P cap io sync key val s =
     (if db_readonly s then Some (kNotSupported, s)
      else
        let e = db_entry P s key val in
        if unat (rec_sizeof e) > cap then Some (kNotSupported, s)
        else case fm_Append P cap io e (db_fm s) of
          None \<Rightarrow> None
        | Some (status, loc, fm) \<Rightarrow>
            let s = s\<lparr>db_fm := fm\<rparr> in
            if status \<noteq> kOk then Some (status, s)
            else
              let (status, s) = db_put_index key val e loc s;
                  _ = (if sync \<and> status = kOk then fm_Sync io (db_fm s) else kOk)
              in Some (status, s))"

definition db_Put ::
    "'a pedrolib \<Rightarrow> nat \<Rightarrow> io \<Rightarrow> bool \<Rightarrow> bytes \<Rightarrow> bytes \<Rightarrow> 'a db \<Rightarrow> (status \<times> 'a db) option" where
  "db_Put P cap io sync key val s = db_HandlePut P cap io sync key val s"

definition db_Delete ::
    "'a pedrolib \<Rightarrow> nat \<Rightarrow> io \<Rightarrow> bool \<Rightarrow> bytes \<Rightarrow> 'a db \<Rightarrow> (status \<times> 'a db) option" where
  "db_Delete P cap io sync key s = db_HandlePut P cap io sync key [] s"

section \<open>Get\<close>

definition db_value :: "'a pedrolib \<Rightarrow> 'a db \<Rightarrow> rec_entry \<Rightarrow> bytes" where
  "db_value P s e = (if opt_compress_value (db_options s) then Uncompress P (re_value e)
     else re_value e)"

text \<open>The direct path: the record at the location, through a record iterator.\<close>

definition db_get_direct ::
    "'a pedrolib \<Rightarrow> io \<Rightarrow> dir \<Rightarrow> 'a db \<Rightarrow> (status \<times> bytes option \<times> 'a db) option" where
  "db_get_direct P io d s =
     (let (stat, file, fm) = fm_AcquireDataFile P io (loc_id (dir_loc d)) (db_fm s);
          s = s\<lparr>db_fm := fm\<rparr>
      in if stat \<noteq> kOk then Some (stat, None, s)
         else case file of
           None \<Rightarrow> None
         | Some f \<Rightarrow>
             let F = rf_ops (fm_fs fm);
                 (it, buf) = ri_Seek P (loc_offset (dir_loc d)) (ri_new F f) (db_buf s)
             in case ri_Valid P F it buf of
                  None \<Rightarrow> None
                | Some (valid, it, buf) \<Rightarrow>
                    let s = s\<lparr>db_buf := buf\<rparr> in
                    if \<not> valid then Some (kCorruption, None, s)
                    else
                      let (e, it) = ri_Next it in
                      if \<not> rec_validate P e then Some (kCorruption, None, s)
                      else Some (kOk, Some (db_value P s e), s))"

text \<open>The cached path; the entry of the context is default-constructed before it is built.\<close>

definition db_get_cached ::
    "'a pedrolib \<Rightarrow> io \<Rightarrow> dir \<Rightarrow> 'a db \<Rightarrow> (status \<times> bytes option \<times> 'a db) option" where
  "db_get_cached P io d s =
     (case rc_Get P (fm_AcquireDataFile P io) (\<lambda>fm. rf_ops (fm_fs fm))
             (rc_Context (dir_loc d) (dir_entry_size d)) (db_fm s) (db_read_cache s) of
        None \<Rightarrow> None
      | Some (stat, ctx, fm, bc) \<Rightarrow>
          let s = s\<lparr>db_fm := fm, db_read_cache := bc\<rparr>;
              e = (case rc_entry ctx of Some e \<Rightarrow> e | None \<Rightarrow> rec_entry_default)
          in if stat \<noteq> kOk then Some (stat, None, s)
             else if \<not> rec_validate P e then Some (kCorruption, None, s)
             else Some (kOk, Some (db_value P s e), s))"

text \<open>
  \<^verbatim>\<open>HandleGet\<close>; \<open>use_read_cache\<close> is the read option. The second component is what is
  stored in \<^verbatim>\<open>*value\<close>, if anything is.
\<close>

definition db_HandleGet ::
    "'a pedrolib \<Rightarrow> io \<Rightarrow> bool \<Rightarrow> bytes \<Rightarrow> 'a db \<Rightarrow> (status \<times> bytes option \<times> 'a db) option" where
  "db_HandleGet P io use_read_cache key s =
     (case db_indices s key of
        None \<Rightarrow> Some (kNotFound, None, s)
      | Some d \<Rightarrow>
          let directly_read = (\<not> use_read_cache \<or> \<not> opt_cache_enable (db_options s)
                               \<or> loc_id (dir_loc d) = db_max_file s)
          in if directly_read then db_get_direct P io d s else db_get_cached P io d s)"

definition db_Get ::
    "'a pedrolib \<Rightarrow> io \<Rightarrow> bool \<Rightarrow> bytes \<Rightarrow> 'a db \<Rightarrow> (status \<times> bytes option \<times> 'a db) option" where
  "db_Get P io use_read_cache key s = db_HandleGet P io use_read_cache key s"

section \<open>Recovery\<close>

text \<open>\<^verbatim>\<open>Recovery(id, entry)\<close>: one record enters the index.\<close>

definition db_recover_entry :: "file_id \<Rightarrow> idx_entry \<Rightarrow> 'a db \<Rightarrow> 'a db option" where
  "db_recover_entry fid entry s =
     (let loc = Location fid (ix_offset entry);
          it = db_indices s (ix_key entry);
          dir = \<lparr>dir_entry_size = ix_len entry, dir_loc = loc\<rparr>
      in if ix_type entry = kSet then
           (case it of
              None \<Rightarrow> Some (s\<lparr>db_indices := (db_indices s)(ix_key entry \<mapsto> dir)\<rparr>)
            | Some d \<Rightarrow>
                if location_greater (dir_loc d) loc
                then Some (db_UpdateUnused loc (ucast (ix_len entry)) s)
                else if location_eq (dir_loc d) loc then None
                else
                  let s = db_UpdateUnused (dir_loc d) (ucast (dir_entry_size d)) s
                  in Some (s\<lparr>db_indices := (db_indices s)(ix_key entry \<mapsto> dir)\<rparr>))
         else if ix_type entry = kDelete then
           let s = db_UpdateUnused loc (ucast (ix_len entry)) s in
           (case it of
              None \<Rightarrow> Some s
            | Some d \<Rightarrow>
                if location_greater (dir_loc d) loc then Some s
                else
                  let s = db_UpdateUnused (dir_loc d) (ucast (dir_entry_size d)) s
                  in Some (s\<lparr>db_indices := (db_indices s)(ix_key entry := None)\<rparr>))
         else Some s)"

partial_function (option) db_recover_index ::
    "'a pedrolib \<Rightarrow> file_id \<Rightarrow> 'a \<Rightarrow> 'a db \<Rightarrow> 'a db option" where
  "db_recover_index P fid buf s =
     (case ii_Valid P buf of
        None \<Rightarrow> Some s
      | Some (entry, buf) \<Rightarrow>
          (case db_recover_entry fid entry s of
             None \<Rightarrow> None
           | Some s \<Rightarrow> db_recover_index P fid buf s))"

partial_function (option) db_recover_data ::
    "'a pedrolib \<Rightarrow> file_id \<Rightarrow> rfile record_iterator \<Rightarrow> 'a db \<Rightarrow> 'a db option" where
  "db_recover_data P fid it s =
     (case ri_Valid P (rf_ops (fm_fs (db_fm s))) it (db_buf s) of
        None \<Rightarrow> None
      | Some (valid, it, buf) \<Rightarrow>
          let s = s\<lparr>db_buf := buf\<rparr> in
          if \<not> valid then Some s
          else
            let offset = ri_GetOffset it; (next, it) = ri_Next it
            in case db_recover_entry fid \<lparr>ix_key = re_key next, ix_type = re_type next,
                      ix_offset = offset, ix_len = rec_sizeof next\<rparr> s of
                 None \<Rightarrow> None
               | Some s \<Rightarrow> db_recover_data P fid it s)"

definition db_recover_file ::
    "'a pedrolib \<Rightarrow> io \<Rightarrow> file_id \<Rightarrow> 'a db \<Rightarrow> (status \<times> 'a db) option" where
  "db_recover_file P io fid s =
     (case fm_AcquireIndexFile P io fid (db_fm s) of
        Inr f \<Rightarrow>
          (case ii_new P (rf_ops (fm_fs (db_fm s))) f of
             None \<Rightarrow> None
           | Some buf \<Rightarrow> map_option (Pair kOk) (db_recover_index P fid buf s))
      | Inl _ \<Rightarrow>
          (case fm_AcquireDataFile P io fid (db_fm s) of
             (stat, file, fm) \<Rightarrow>
               let s = s\<lparr>db_fm := fm\<rparr> in
               if stat \<noteq> kOk then Some (kIOError, s)
               else case file of
                 None \<Rightarrow> None
               | Some f \<Rightarrow>
                   (case db_recover_data P fid (ri_new (rf_ops (fm_fs fm)) f) s of
                      None \<Rightarrow> None
                    | Some s \<Rightarrow> Some (kOk, s\<lparr>db_fm := fm_ReleaseDataFile fid (db_fm s)\<rparr>))))"

fun db_recover_files ::
    "'a pedrolib \<Rightarrow> io \<Rightarrow> file_id list \<Rightarrow> 'a db \<Rightarrow> (status \<times> 'a db) option" where
  "db_recover_files P io [] s = Some (kOk, s)"
| "db_recover_files P io (fid # fids) s =
     (let s = s\<lparr>db_max_file := max (db_max_file s) fid\<rparr> in
      case db_recover_file P io fid s of
        None \<Rightarrow> None
      | Some (status, s) \<Rightarrow>
          if status \<noteq> kOk then Some (status, s) else db_recover_files P io fids s)"

definition db_Recovery :: "'a pedrolib \<Rightarrow> io \<Rightarrow> 'a db \<Rightarrow> (status \<times> 'a db) option" where
  "db_Recovery P io s = db_recover_files P io (mm_GetFiles (fm_meta (db_fm s))) s"

definition db_Init :: "'a pedrolib \<Rightarrow> nat \<Rightarrow> io \<Rightarrow> 'a db \<Rightarrow> (status \<times> 'a db) option" where
  "db_Init P cap io s =
     (case mm_Init P io (fm_meta (db_fm s)) (fm_fs (db_fm s)) of
        None \<Rightarrow> None
      | Some (status, m, fs) \<Rightarrow>
          let s = s\<lparr>db_fm := (db_fm s)\<lparr>fm_meta := m, fm_fs := fs\<rparr>\<rparr> in
          if status \<noteq> kOk then Some (status, s)
          else case fm_Init P cap io (db_fm s) of
            None \<Rightarrow> None
          | Some (status, fm) \<Rightarrow>
              let s = s\<lparr>db_fm := fm\<rparr> in
              if status \<noteq> kOk then Some (status, s) else db_Recovery P io s)"

text \<open>\<^verbatim>\<open>DB::Open\<close>; the handle is set only when \<^verbatim>\<open>Init\<close> succeeds.\<close>

definition db_Open ::
    "'a pedrolib \<Rightarrow> nat \<Rightarrow> io \<Rightarrow> options \<Rightarrow> path \<Rightarrow> 'a \<Rightarrow> fsys
       \<Rightarrow> (status \<times> 'a db option \<times> fsys) option" where
  "db_Open P cap io opts name buf fs =
     (case db_new P opts name buf fs of
        None \<Rightarrow> None
      | Some s \<Rightarrow>
          (case db_Init P cap io s of
             None \<Rightarrow> None
           | Some (stat, s) \<Rightarrow>
               Some (stat, if stat \<noteq> kOk then None else Some s, fm_fs (db_fm s))))"

section \<open>Compaction\<close>

text \<open>
  The three parts of the loop of \<^verbatim>\<open>Compact(id)\<close>: the check under the lock, the append
  (of \<open>FileManager\<close>) and the index update under the lock.
\<close>

definition db_compact_check :: "file_id \<Rightarrow> u32 \<Rightarrow> rec_entry \<Rightarrow> 'a db \<Rightarrow> bool" where
  "db_compact_check fid offset e s =
     (case db_indices s (re_key e) of
        None \<Rightarrow> False
      | Some d \<Rightarrow> \<not> location_neq (dir_loc d) (Location fid offset))"

definition db_compact_update :: "rec_entry \<Rightarrow> location \<Rightarrow> 'a db \<Rightarrow> 'a db" where
  "db_compact_update e loc s =
     (case db_indices s (re_key e) of
        None \<Rightarrow> s
      | Some d \<Rightarrow>
          if location_less (dir_loc d) loc
          then s\<lparr>db_indices := (db_indices s)(re_key e \<mapsto>
                 \<lparr>dir_entry_size = rec_sizeof e, dir_loc = loc\<rparr>)\<rparr>
          else let st = file_state_of s (loc_id loc)
               in set_file_state (loc_id loc)
                    (st\<lparr>free_bytes := free_bytes st + ucast (rec_sizeof e)\<rparr>) s)"

text \<open>The Boolean tells whether the loop reached its end.\<close>

partial_function (option) db_compact_loop ::
    "'a pedrolib \<Rightarrow> nat \<Rightarrow> io \<Rightarrow> file_id \<Rightarrow> rfile record_iterator \<Rightarrow> 'a db \<Rightarrow> (bool \<times> 'a db) option" where
  "db_compact_loop P cap io fid it s =
     (case ri_Valid P (rf_ops (fm_fs (db_fm s))) it (db_buf s) of
        None \<Rightarrow> None
      | Some (valid, it, buf) \<Rightarrow>
          let s = s\<lparr>db_buf := buf\<rparr> in
          if \<not> valid then Some (True, s)
          else
            let offset = ri_GetOffset it; (next, it) = ri_Next it
            in if re_type next \<noteq> kSet then db_compact_loop P cap io fid it s
               else if \<not> db_compact_check fid offset next s then db_compact_loop P cap io fid it s
               else case fm_Append P cap io next (db_fm s) of
                 None \<Rightarrow> None
               | Some (status, loc, fm) \<Rightarrow>
                   let s = s\<lparr>db_fm := fm\<rparr> in
                   if status \<noteq> kOk then Some (False, s)
                   else db_compact_loop P cap io fid it (db_compact_update next loc s))"

definition db_compact_file :: "'a pedrolib \<Rightarrow> nat \<Rightarrow> io \<Rightarrow> file_id \<Rightarrow> 'a db \<Rightarrow> 'a db option" where
  "db_compact_file P cap io fid s =
     (if db_readonly s then Some s
      else case fm_AcquireDataFile P io fid (db_fm s) of
        (stat, file, fm) \<Rightarrow>
          let s = s\<lparr>db_fm := fm\<rparr> in
          if stat \<noteq> kOk then Some s
          else
            let s = set_file_state fid (file_state_of s fid\<lparr>compact_state := kCompacting\<rparr>) s in
            case file of
              None \<Rightarrow> None
            | Some f \<Rightarrow>
                (case db_compact_loop P cap io fid (ri_new (rf_ops (fm_fs fm)) f) s of
                   None \<Rightarrow> None
                 | Some (False, s) \<Rightarrow> Some s
                 | Some (True, s) \<Rightarrow>
                     Some (s\<lparr>db_file_states := (db_file_states s)(fid := None),
                             db_fm := snd (fm_RemoveFile P io fid (db_fm s))\<rparr>)))"

fun db_compact_files :: "'a pedrolib \<Rightarrow> nat \<Rightarrow> io \<Rightarrow> file_id list \<Rightarrow> 'a db \<Rightarrow> 'a db option" where
  "db_compact_files P cap io [] s = Some s"
| "db_compact_files P cap io (fid # fids) s =
     (case db_compact_file P cap io fid s of
        None \<Rightarrow> None | Some s \<Rightarrow> db_compact_files P cap io fids s)"

definition db_Compact :: "'a pedrolib \<Rightarrow> nat \<Rightarrow> io \<Rightarrow> 'a db \<Rightarrow> (status \<times> 'a db) option" where
  "db_Compact P cap io s =
     (let (tasks, s) = db_PollCompactTask s
      in map_option (Pair kOk) (db_compact_files P cap io (sort tasks) s))"

text \<open>
  The compaction timer: it polls the tasks and schedules each, in this order; the executor has one
  thread by default, so they run one after the other.
\<close>

definition db_compact_worker :: "'a pedrolib \<Rightarrow> nat \<Rightarrow> io \<Rightarrow> 'a db \<Rightarrow> 'a db option" where
  "db_compact_worker P cap io s =
     (let (tasks, s) = db_PollCompactTask s in db_compact_files P cap io tasks s)"

section \<open>Flush, the sync worker and the executor\<close>

definition db_Flush :: "'a db \<Rightarrow> status" where
  "db_Flush s = fm_Flush True (db_fm s)"

definition db_sync_worker :: "io \<Rightarrow> 'a db \<Rightarrow> 'a db" where
  "db_sync_worker io s =
     (let err = fm_Sync io (db_fm s);
          s = (if err \<noteq> kOk then s\<lparr>db_failed_count := db_failed_count s + 1\<rparr> else s)
      in if db_failed_count s > opt_sync_max_io_error (db_options s)
         then s\<lparr>db_readonly := True\<rparr> else s)"

text \<open>The executor runs the first task that the file manager has handed to it.\<close>

definition db_run_task :: "'a pedrolib \<Rightarrow> io \<Rightarrow> 'a db \<Rightarrow> 'a db option" where
  "db_run_task P io s = map_option (\<lambda>fm. s\<lparr>db_fm := fm\<rparr>) (fm_run_task P io (db_fm s))"

section \<open>The iterator\<close>

text \<open>
  The iterator owns a copy of the index; \<open>order\<close> is the enumeration in which the hat-trie
  delivers its entries. \<^verbatim>\<open>Valid\<close> takes the next entry off the list.
\<close>

record db_iterator =
  dbi_rest :: "(bytes \<times> dir) list"
  dbi_next :: rec_entry

definition db_GetIterator ::
    "((bytes \<Rightarrow> dir option) \<Rightarrow> (bytes \<times> dir) list) \<Rightarrow> 'a db \<Rightarrow> db_iterator" where
  "db_GetIterator order s = \<lparr>dbi_rest = order (db_indices s), dbi_next = rec_entry_default\<rparr>"

fun dbi_Valid_from ::
    "'a pedrolib \<Rightarrow> io \<Rightarrow> (bytes \<times> dir) list \<Rightarrow> rec_entry \<Rightarrow> 'a db \<Rightarrow> (bool \<times> db_iterator \<times> 'a db) option"
  where
  "dbi_Valid_from P io [] e s = Some (False, \<lparr>dbi_rest = [], dbi_next = e\<rparr>, s)"
| "dbi_Valid_from P io ((_, d) # rest) e s =
     (case fm_AcquireDataFile P io (loc_id (dir_loc d)) (db_fm s) of
        (status, file, fm) \<Rightarrow>
          let s = s\<lparr>db_fm := fm\<rparr> in
          if status \<noteq> kOk then dbi_Valid_from P io rest e s
          else case file of
            None \<Rightarrow> None
          | Some f \<Rightarrow>
              let F = rf_ops (fm_fs fm) in
              (case ri_Valid P F (ri_new F f) (db_buf s) of
                 None \<Rightarrow> None
               | Some (valid, it, buf) \<Rightarrow>
                   let s = s\<lparr>db_buf := buf\<rparr> in
                   if \<not> valid then dbi_Valid_from P io rest e s
                   else
                     let (next, it) = ri_Next it in
                     if \<not> rec_validate P next then dbi_Valid_from P io rest next s
                     else Some (True, \<lparr>dbi_rest = rest, dbi_next = next\<rparr>, s)))"

definition dbi_Valid ::
    "'a pedrolib \<Rightarrow> io \<Rightarrow> db_iterator \<Rightarrow> 'a db \<Rightarrow> (bool \<times> db_iterator \<times> 'a db) option" where
  "dbi_Valid P io it s = dbi_Valid_from P io (dbi_rest it) (dbi_next it) s"

definition dbi_Next :: "db_iterator \<Rightarrow> rec_entry" where
  "dbi_Next it = dbi_next it"

end
