(* ===== verification/FileManagerSpec.thy ===== *)
theory FileManagerSpec
  imports FileManager ReadCache
begin

text \<open>
  The correctness of the file manager. The invariant \<open>fm_ok\<close> describes the files by
  their logs: \<open>logs fid\<close> are the records of the data file \<open>fid\<close>. An append
  extends the log of the active file at the returned location, or opens the next file with an
  empty log; acquiring a file returns a handle on its inode; removing a file keeps the others.
\<close>

section \<open>Paths\<close>

lemma data_path_inj:
  assumes "pedrolib_ok P" "mm_GetDataFilePath P m a = mm_GetDataFilePath P m b"
  shows "a = b"
proof -
  have "inj (fmt_u32 P)" using assms(1) pedrolib_fmt fmt_ok_def by blast
  with assms(2) show ?thesis by (simp add: mm_GetDataFilePath_def inj_eq)
qed

lemma index_path_inj:
  assumes "pedrolib_ok P" "mm_GetIndexFilePath P m a = mm_GetIndexFilePath P m b"
  shows "a = b"
proof -
  have "inj (fmt_u32 P)" using assms(1) pedrolib_fmt fmt_ok_def by blast
  with assms(2) show ?thesis by (simp add: mm_GetIndexFilePath_def inj_eq)
qed

lemma data_index_path: "mm_GetDataFilePath P m a \<noteq> mm_GetIndexFilePath P m b"
proof
  assume "mm_GetDataFilePath P m a = mm_GetIndexFilePath P m b"
  then have "last (mm_GetDataFilePath P m a) = last (mm_GetIndexFilePath P m b)" by simp
  then show False by (simp add: mm_GetDataFilePath_def mm_GetIndexFilePath_def str_def)
qed

lemma path_name:
  "mm_name m' = mm_name m \<Longrightarrow> mm_GetDataFilePath P m' = mm_GetDataFilePath P m"
  "mm_name m' = mm_name m \<Longrightarrow> mm_GetIndexFilePath P m' = mm_GetIndexFilePath P m"
  by (rule ext, simp add: mm_GetDataFilePath_def mm_GetIndexFilePath_def)+

section \<open>The invariant\<close>

text \<open>
  \<open>disk_ok\<close>: the files on disk. \<open>paths_ok\<close>: the metadata file is none of the
  data or index files.
\<close>

definition paths_ok :: "'a pedrolib \<Rightarrow> mm \<Rightarrow> bool" where
  "paths_ok P m \<longleftrightarrow> (\<forall>fid. mm_path m \<noteq> mm_GetDataFilePath P m fid
     \<and> mm_path m \<noteq> mm_GetIndexFilePath P m fid)"

definition disk_ok :: "'a pedrolib \<Rightarrow> nat \<Rightarrow> (file_id \<Rightarrow> rec_entry list) \<Rightarrow> fsys \<Rightarrow> mm \<Rightarrow> bool" where
  "disk_ok P cap logs fs m \<longleftrightarrow>
     14 < cap \<and> cap < 2 ^ 32 \<and> fs_ok fs \<and> mm_ok P fs m \<and> paths_ok P m \<and>
     (\<forall>fid \<in> set (mm_files m). \<exists>i. fs_links fs (mm_GetDataFilePath P m fid) = Some i
        \<and> log_file P cap (logs fid) (fs_data fs i)) \<and>
     (\<forall>fid. fid \<notin> set (mm_files m) \<longrightarrow> fs_links fs (mm_GetDataFilePath P m fid) = None) \<and>
     (\<forall>fid i. fs_links fs (mm_GetIndexFilePath P m fid) = Some i \<longrightarrow>
        fs_data fs i = idx_log_bytes P (log_index 0 (logs fid)))"

text \<open>Every cached handle is on the inode of its data file.\<close>

definition handle_ok :: "'a pedrolib \<Rightarrow> nat \<Rightarrow> fsys \<Rightarrow> mm \<Rightarrow> file_id \<Rightarrow> rfile \<Rightarrow> bool" where
  "handle_ok P cap fs m fid f \<longleftrightarrow>
     (\<exists>i. fs_links fs (mm_GetDataFilePath P m fid) = Some i \<and> f = RPosix \<lparr>pro_ino = i, pro_length = cap\<rparr>)"

definition cache_ok :: "'a pedrolib \<Rightarrow> nat \<Rightarrow> 'a fm \<Rightarrow> bool" where
  "cache_ok P cap s \<longleftrightarrow> lru_ok (fm_open_files s)
     \<and> cache_sound lru_lookup (handle_ok P cap (fm_fs s) (fm_meta s)) (fm_open_files s)"

text \<open>
  The index logs that wait for the executor belong to files before \<open>n\<close>, and are no longer
  than a data file.
\<close>

definition task_ok ::
    "'a pedrolib \<Rightarrow> nat \<Rightarrow> (file_id \<Rightarrow> rec_entry list) \<Rightarrow> file_id \<Rightarrow> 'a task \<Rightarrow> bool" where
  "task_ok P cap logs n t = (case t of TSyncFile _ _ \<Rightarrow> True
     | TCreateIndexFile fid log \<Rightarrow> fid < n \<and> ab_bytes P log = idx_log_bytes P (log_index 0 (logs fid))
        \<and> length (ab_bytes P log) \<le> cap)"

definition pending_ok ::
    "'a pedrolib \<Rightarrow> nat \<Rightarrow> (file_id \<Rightarrow> rec_entry list) \<Rightarrow> file_id \<Rightarrow> 'a task list \<Rightarrow> bool" where
  "pending_ok P cap logs n ts \<longleftrightarrow> (\<forall>t \<in> set ts. task_ok P cap logs n t)"

lemma pending_ok_simps [simp]:
  "pending_ok P cap logs n []"
  "pending_ok P cap logs n (t # ts) \<longleftrightarrow> task_ok P cap logs n t \<and> pending_ok P cap logs n ts"
  "pending_ok P cap logs n (ts @ us) \<longleftrightarrow> pending_ok P cap logs n ts \<and> pending_ok P cap logs n us"
  by (auto simp: pending_ok_def)

lemma pending_ok_mono:
  assumes "pending_ok P cap logs n ts" "n \<le> n'" "\<And>fid. fid < n \<Longrightarrow> logs' fid = logs fid"
  shows "pending_ok P cap logs' n' ts"
  using assms unfolding pending_ok_def task_ok_def by (auto split: task.splits intro: less_le_trans)

definition active_ok :: "'a pedrolib \<Rightarrow> nat \<Rightarrow> (file_id \<Rightarrow> rec_entry list) \<Rightarrow> 'a fm \<Rightarrow> bool" where
  "active_ok P cap logs s \<longleftrightarrow>
     fm_active_id s \<in> set (mm_files (fm_meta s)) \<and>
     (\<forall>fid \<in> set (mm_files (fm_meta s)). fid \<le> fm_active_id s) \<and>
     (\<forall>fid. fs_links (fm_fs s) (mm_GetIndexFilePath P (fm_meta s) fid) \<noteq> None \<longrightarrow>
        fid < fm_active_id s) \<and>
     (\<exists>f log. fm_data_file s = Some f \<and> fm_index_log s = Some log \<and>
        fs_links (fm_fs s) (mm_GetDataFilePath P (fm_meta s) (fm_active_id s)) = Some (mrw_ino f) \<and>
        mrw_length f = cap \<and> mrw_write_index f = log_size (logs (fm_active_id s)) \<and>
        ab_bytes P log = idx_log_bytes P (log_index 0 (logs (fm_active_id s)))) \<and>
     pending_ok P cap logs (fm_active_id s) (fm_pending s)"

definition fm_ok :: "'a pedrolib \<Rightarrow> nat \<Rightarrow> (file_id \<Rightarrow> rec_entry list) \<Rightarrow> 'a fm \<Rightarrow> bool" where
  "fm_ok P cap logs s \<longleftrightarrow> disk_ok P cap logs (fm_fs s) (fm_meta s) \<and> cache_ok P cap s
     \<and> active_ok P cap logs s"

text \<open>The names of the data files lead to the same inodes as before.\<close>

definition links_kept :: "'a pedrolib \<Rightarrow> 'a fm \<Rightarrow> 'a fm \<Rightarrow> bool" where
  "links_kept P s s' \<longleftrightarrow> mm_name (fm_meta s') = mm_name (fm_meta s)
     \<and> (\<forall>x \<in> set (mm_files (fm_meta s)). fs_links (fm_fs s') (mm_GetDataFilePath P (fm_meta s) x)
          = fs_links (fm_fs s) (mm_GetDataFilePath P (fm_meta s) x))"

lemma disk_okD:
  assumes "disk_ok P cap logs fs m"
  shows "14 < cap" "cap < 2 ^ 32" "fs_ok fs" "mm_ok P fs m" "paths_ok P m"
    "\<And>fid. fid \<in> set (mm_files m) \<Longrightarrow> \<exists>i. fs_links fs (mm_GetDataFilePath P m fid) = Some i
        \<and> log_file P cap (logs fid) (fs_data fs i)"
    "\<And>fid. fid \<notin> set (mm_files m) \<Longrightarrow> fs_links fs (mm_GetDataFilePath P m fid) = None"
    "\<And>fid i. fs_links fs (mm_GetIndexFilePath P m fid) = Some i \<Longrightarrow>
        fs_data fs i = idx_log_bytes P (log_index 0 (logs fid))"
  using assms unfolding disk_ok_def by blast+

lemma disk_ok_log:
  assumes "disk_ok P cap logs fs m" "fid \<in> set (mm_files m)"
    "fs_links fs (mm_GetDataFilePath P m fid) = Some i"
  shows "log_file P cap (logs fid) (fs_data fs i)"
  using disk_okD(6) [OF assms(1,2)] assms(3) by auto

lemma fs_ok_inj: "fs_ok fs \<Longrightarrow> fs_links fs p = Some i \<Longrightarrow> fs_links fs q = Some i \<Longrightarrow> p = q"
  unfolding fs_ok_def by blast

lemma fs_ok_less: "fs_ok fs \<Longrightarrow> fs_links fs p = Some i \<Longrightarrow> i < fs_next fs"
  unfolding fs_ok_def by blast

lemma mm_ok_frame:
  assumes "mm_ok P fs m" "fs_links fs' (mm_path m) = fs_links fs (mm_path m)"
    "\<And>i. fs_links fs (mm_path m) = Some i \<Longrightarrow> fs_data fs' i = fs_data fs i"
  shows "mm_ok P fs' m"
  using assms unfolding mm_ok_def by metis

text \<open>Storing into a data file touches no other file.\<close>

lemma disk_ok_store:
  assumes P: "pedrolib_ok P" and ok: "disk_ok P cap logs fs m" and fid: "fid \<in> set (mm_files m)"
    and i: "fs_links fs (mm_GetDataFilePath P m fid) = Some i"
    and noidx: "fs_links fs (mm_GetIndexFilePath P m fid) = None"
    and log: "log_file P cap es mem"
  shows "disk_ok P cap (logs(fid := es)) (fs_store i mem fs) m"
proof -
  note d = disk_okD [OF ok]
  have other: "j \<noteq> i" if "fs_links fs p = Some j" "p \<noteq> mm_GetDataFilePath P m fid" for p j
    using fs_ok_inj [OF d(3) _ i, of p] that by blast
  have "mm_ok P (fs_store i mem fs) m"
    by (rule mm_ok_frame [OF d(4)]) (use other d(5) in \<open>auto simp: paths_ok_def\<close>)
  moreover have "\<exists>j. fs_links (fs_store i mem fs) (mm_GetDataFilePath P m x) = Some j
      \<and> log_file P cap ((logs(fid := es)) x) (fs_data (fs_store i mem fs) j)"
    if "x \<in> set (mm_files m)" for x
  proof (cases "x = fid")
    case True
    then show ?thesis using i log by simp
  next
    case False
    then have "mm_GetDataFilePath P m x \<noteq> mm_GetDataFilePath P m fid"
      using data_path_inj [OF P] by blast
    with d(6) [OF that] False other show ?thesis by fastforce
  qed
  moreover have "fs_data (fs_store i mem fs) j = idx_log_bytes P (log_index 0 ((logs(fid := es)) x))"
    if "fs_links (fs_store i mem fs) (mm_GetIndexFilePath P m x) = Some j" for x j
  proof -
    have "x \<noteq> fid" using that noidx by auto
    moreover have "j \<noteq> i" using other [of _ j] that data_index_path by (metis fs_store_simps(1))
    ultimately show ?thesis using d(8) that by simp
  qed
  ultimately show ?thesis using d(1-3,5,7) unfolding disk_ok_def by simp
qed

section \<open>Appending to the active file\<close>

text \<open>A value that is longer than the mapping is written outside of it, whatever was allocated.\<close>

lemma wbf_Append_length:
  "wbf_Append xs b = Some b' \<Longrightarrow> length (wbf_mem b') = length (wbf_mem b)"
  by (auto simp: wbf_Append_def split: option.splits if_splits)

lemma header_pack_length:
  "header_pack P wbf_ops h b = Some (r, b') \<Longrightarrow> length (wbf_mem b') = length (wbf_mem b)"
  by (auto simp: header_pack_def wbf_ops_def bind_eq_Some_conv wbf_Append_length split: if_splits)

lemma rec_pack_overflow:
  assumes "wbf_WritableBytes b = unat (rec_sizeof e)" "length (wbf_mem b) < length (re_value e)"
  shows "rec_pack P wbf_ops e b = None"
proof -
  have over: "wbf_Append (re_value e) b' = None" if "length (wbf_mem b') = length (wbf_mem b)" for b'
    using assms(2) that by (auto simp: wbf_Append_def split: option.splits)
  have ops: "wb_append wbf_ops = wbf_Append" "wb_writable wbf_ops = wbf_WritableBytes" by (simp_all add: wbf_ops_def)
  show ?thesis
  proof (cases "header_pack P wbf_ops (rec_header_of e) b")
    case None
    then show ?thesis using assms(1) by (simp add: rec_pack_def ops)
  next
    case (Some rb)
    obtain r b1 where rb: "rb = (r, b1)" by fastforce
    have b1: "length (wbf_mem b1) = length (wbf_mem b)" using header_pack_length [OF Some [unfolded rb]] .
    have "wbf_Append (re_value e) b2 = None" if "wbf_Append (re_key e) b1 = Some b2" for b2
      by (rule over) (use wbf_Append_length [OF that] b1 in simp)
    then show ?thesis using assms(1) Some rb
      by (cases "wbf_Append (re_key e) b1") (simp_all add: rec_pack_def ops)
  qed
qed

lemma rec_pack_allocated:
  assumes P: "pedrolib_ok P" and e: "rec_size e < 2 ^ 32" and room: "wi + rec_size e \<le> length mem"
    and mem: "length mem < 2 ^ 64"
  shows "\<exists>b. rec_pack P wbf_ops e (writable_buffer_new mem (Some wi) (rec_size e) off) = Some (True, b)
     \<and> wbf_mem b = overwrite mem wi (rec_bytes P e) \<and> wbf_GetOffset b = off"
proof -
  let ?b = "writable_buffer_new mem (Some wi) (rec_size e) off"
  have n: "rec_size e < 2 ^ 64" using room mem by simp
  note new = wbf_new [OF room n, of off]
  have "rec_size e \<le> wb_writable wbf_ops ?b" using new(3) by (simp add: wbf_ops_def)
  from wbf.rec_pack_ok [OF _ new(1) this e, of P] P obtain b where
    "rec_pack P wbf_ops e ?b = Some (True, b)" "wbf_inv mem wi off b" "wbf_written b = rec_bytes P e"
    using new(2) by auto
  then show ?thesis by (auto simp: wbf_inv_def wbf_GetOffset_def)
qed

text \<open>The state after a record has been appended to the active file.\<close>

definition fm_appended :: "'a pedrolib \<Rightarrow> rec_entry \<Rightarrow> mrw_file \<Rightarrow> 'a \<Rightarrow> 'a fm \<Rightarrow> 'a fm" where
  "fm_appended P e f log s = s\<lparr>
     fm_fs := fs_store (mrw_ino f)
       (overwrite (fs_data (fm_fs s) (mrw_ino f)) (mrw_write_index f) (rec_bytes P e)) (fm_fs s),
     fm_data_file := Some (f\<lparr>mrw_write_index := mrw_write_index f + rec_size e\<rparr>),
     fm_index_log := Some (idx_pack P \<lparr>ix_key = re_key e, ix_type = re_type e,
       ix_offset = of_nat (mrw_write_index f), ix_len = rec_sizeof e\<rparr> log)\<rparr>"

lemma active_okE:
  assumes "active_ok P cap logs s"
  obtains f log where "fm_data_file s = Some f" "fm_index_log s = Some log"
    "fs_links (fm_fs s) (mm_GetDataFilePath P (fm_meta s) (fm_active_id s)) = Some (mrw_ino f)"
    "mrw_length f = cap" "mrw_write_index f = log_size (logs (fm_active_id s))"
    "ab_bytes P log = idx_log_bytes P (log_index 0 (logs (fm_active_id s)))"
  using assms unfolding active_ok_def by blast

text \<open>
  The append to a file that has room, whether it is active or not; the first lemma is about any
  record, also one whose sizes do not fit the header.
\<close>

lemma fm_append_file_bytes:
  assumes P: "pedrolib_ok P" and e: "rec_size e < 2 ^ 32"
    and f: "mrw_length f = cap" "mrw_write_index f = off" "length (fs_data fs (mrw_ino f)) = cap" "cap < 2 ^ 32"
    and room: "off + rec_size e \<le> cap"
  shows "fm_append_file P e fid f (Some l) fs = Some (Inr (Location fid (of_nat off),
      f\<lparr>mrw_write_index := off + rec_size e\<rparr>,
      idx_pack P \<lparr>ix_key = re_key e, ix_type = re_type e, ix_offset = of_nat off, ix_len = rec_sizeof e\<rparr> l,
      fs_store (mrw_ino f) (overwrite (fs_data fs (mrw_ino f)) off (rec_bytes P e)) fs))"
proof -
  let ?mem = "fs_data fs (mrw_ino f)"
  have inv: "mrw_inv fs f" using f room by (simp add: mrw_inv_def)
  have sz: "unat (rec_sizeof e) = rec_size e" using e by (simp add: rec_sizeof_mod)
  have alloc: "mrw_Allocate (unat (rec_sizeof e)) fs f =
      (writable_buffer_new ?mem (Some (mrw_write_index f)) (rec_size e) (mrw_write_index f),
       f\<lparr>mrw_write_index := mrw_write_index f + rec_size e\<rparr>)"
    unfolding sz by (rule mrw_Allocate_fits [OF inv]) (use f room in simp)
  obtain b where b: "rec_pack P wbf_ops e (writable_buffer_new ?mem (Some (mrw_write_index f))
      (rec_size e) (mrw_write_index f)) = Some (True, b)"
    "wbf_mem b = overwrite ?mem (mrw_write_index f) (rec_bytes P e)"
    "wbf_GetOffset b = mrw_write_index f"
    using rec_pack_allocated [OF P e, of "mrw_write_index f" ?mem "mrw_write_index f"] f room by auto
  have notmax: "mrw_write_index f \<noteq> size_max" using f room by (simp add: size_max_def)
  show ?thesis
    using f alloc b notmax by (simp add: fm_append_file_def wbf_GetOffset_def writable_buffer_new_def Let_def)
qed

lemma fm_append_file_fits:
  assumes P: "pedrolib_ok P" and e: "rec_wf e" and log: "log_file P cap es (fs_data fs (mrw_ino f))"
    and f: "mrw_length f = cap" "mrw_write_index f = log_size es" "cap < 2 ^ 32"
    and room: "log_size es + rec_size e \<le> cap"
  shows "fm_append_file P e fid f (Some l) fs = Some (Inr (Location fid (of_nat (log_size es)),
      f\<lparr>mrw_write_index := log_size es + rec_size e\<rparr>,
      idx_pack P \<lparr>ix_key = re_key e, ix_type = re_type e, ix_offset = of_nat (log_size es), ix_len = rec_sizeof e\<rparr> l,
      fs_store (mrw_ino f) (overwrite (fs_data fs (mrw_ino f)) (log_size es) (rec_bytes P e)) fs))"
    and "log_file P cap (es @ [e]) (overwrite (fs_data fs (mrw_ino f)) (log_size es) (rec_bytes P e))"
proof -
  have A: "codec_ok P" using P by simp
  have size: "rec_size e < 2 ^ 32" using e by (simp add: rec_wf_def)
  show "fm_append_file P e fid f (Some l) fs = Some (Inr (Location fid (of_nat (log_size es)),
      f\<lparr>mrw_write_index := log_size es + rec_size e\<rparr>,
      idx_pack P \<lparr>ix_key = re_key e, ix_type = re_type e, ix_offset = of_nat (log_size es), ix_len = rec_sizeof e\<rparr> l,
      fs_store (mrw_ino f) (overwrite (fs_data fs (mrw_ino f)) (log_size es) (rec_bytes P e)) fs))"
    by (rule fm_append_file_bytes [OF P size f(1,2) log_file_length [OF A log] f(3) room])
  show "log_file P cap (es @ [e]) (overwrite (fs_data fs (mrw_ino f)) (log_size es) (rec_bytes P e))"
    by (rule log_file_append [OF A log e room])
qed

lemma fm_append_active_fits:
  assumes P: "pedrolib_ok P" and ok: "fm_ok P cap logs s" and e: "rec_wf e"
    and room: "log_size (logs (fm_active_id s)) + rec_size e \<le> cap"
  shows "\<exists>s'. fm_append_active P e s
       = Some (Inr (Location (fm_active_id s) (of_nat (log_size (logs (fm_active_id s)))), s'))
     \<and> fm_ok P cap (logs(fm_active_id s := logs (fm_active_id s) @ [e])) s'
     \<and> fm_active_id s' = fm_active_id s \<and> fm_meta s' = fm_meta s \<and> links_kept P s s'"
proof -
  let ?a = "fm_active_id s" and ?fs = "fm_fs s" and ?m = "fm_meta s"
  have dok: "disk_ok P cap logs ?fs ?m" and cok: "cache_ok P cap s" and aok: "active_ok P cap logs s"
    using ok by (simp_all add: fm_ok_def)
  from active_okE [OF aok] obtain f log where f: "fm_data_file s = Some f" "fm_index_log s = Some log"
    "fs_links ?fs (mm_GetDataFilePath P ?m ?a) = Some (mrw_ino f)" "mrw_length f = cap"
    "mrw_write_index f = log_size (logs ?a)" "ab_bytes P log = idx_log_bytes P (log_index 0 (logs ?a))" .
  have a: "?a \<in> set (mm_files ?m)" "fs_links ?fs (mm_GetIndexFilePath P ?m ?a) = None"
    using aok by (auto simp: active_ok_def)
  let ?mem = "fs_data ?fs (mrw_ino f)" and ?s = "fm_appended P e f log s"
  have log: "log_file P cap (logs ?a) ?mem" by (rule disk_ok_log [OF dok a(1) f(3)])
  have A: "codec_ok P" "array_buffer_ok P" using P by simp_all
  note app = fm_append_file_fits [OF P e log f(4,5) disk_okD(2) [OF dok] room]
  have r: "fm_append_active P e s = Some (Inr (Location ?a (of_nat (log_size (logs ?a))), ?s))"
    using f app(1) [of ?a log] by (simp add: fm_append_active_def fm_appended_def)
  have "log_file P cap (logs ?a @ [e]) (overwrite ?mem (mrw_write_index f) (rec_bytes P e))"
    unfolding f(5) by (rule app(2))
  from disk_ok_store [OF P dok a(1) f(3) a(2) this]
  have "disk_ok P cap (logs(?a := logs ?a @ [e])) (fm_fs ?s) (fm_meta ?s)"
    by (simp add: fm_appended_def)
  moreover have "cache_ok P cap ?s"
    using cok by (simp add: cache_ok_def fm_appended_def handle_ok_def [abs_def])
  moreover have "active_ok P cap (logs(?a := logs ?a @ [e])) ?s"
    using aok f A pending_ok_mono [of P cap logs ?a "fm_pending s" ?a "logs(?a := logs ?a @ [e])"]
    by (auto simp: active_ok_def fm_appended_def log_index_append)
  ultimately show ?thesis
    using r by (intro exI [of _ ?s]) (simp add: fm_ok_def fm_appended_def links_kept_def)
qed

lemma fm_append_active_full:
  assumes P: "pedrolib_ok P" and ok: "fm_ok P cap logs s" and e: "rec_wf e"
    and full: "cap < log_size (logs (fm_active_id s)) + rec_size e"
  shows "fm_append_active P e s = Some (Inl ())"
proof -
  let ?a = "fm_active_id s"
  have dok: "disk_ok P cap logs (fm_fs s) (fm_meta s)" and aok: "active_ok P cap logs s"
    using ok by (simp_all add: fm_ok_def)
  from active_okE [OF aok] obtain f log where f: "fm_data_file s = Some f" "fm_index_log s = Some log"
    "fs_links (fm_fs s) (mm_GetDataFilePath P (fm_meta s) ?a) = Some (mrw_ino f)" "mrw_length f = cap"
    "mrw_write_index f = log_size (logs ?a)" .
  have "?a \<in> set (mm_files (fm_meta s))" using aok by (simp add: active_ok_def)
  then have log: "log_file P cap (logs ?a) (fs_data (fm_fs s) (mrw_ino f))"
    by (rule disk_ok_log [OF dok _ f(3)])
  then have "mrw_inv (fm_fs s) f"
    using f disk_okD(2) [OF dok] log_file_length [OF _ log] P by (simp add: mrw_inv_def log_file_def)
  moreover have "unat (rec_sizeof e) > mrw_length f - mrw_write_index f"
    using e f full log by (auto simp: log_file_def)
  ultimately show ?thesis
    using f by (simp add: fm_append_active_def fm_append_file_def mrw_Allocate_full wbf_GetOffset_def writable_buffer_new_def)
qed

section \<open>Opening the next file\<close>

text \<open>No system call fails.\<close>

definition io_good :: "io \<Rightarrow> bool" where
  "io_good io \<longleftrightarrow> io_open io = (\<lambda>_. True) \<and> io_size io = (\<lambda>_. True) \<and> io_reserve io = (\<lambda>_. True)
     \<and> io_mmap io = (\<lambda>_. True) \<and> io_write io \<and> io_sync io"

lemma io_good_fine [simp]: "io_good io_fine"
  by (simp add: io_good_def io_fine_def)

lemma io_goodD [simp]:
  assumes "io_good io"
  shows "io_open io p" "io_size io p" "io_reserve io p" "io_mmap io p" "io_write io" "io_sync io"
  using assms by (simp_all add: io_good_def)

definition fs_create :: "path \<Rightarrow> bytes \<Rightarrow> fsys \<Rightarrow> fsys" where
  "fs_create p m fs = fs\<lparr>fs_links := (fs_links fs)(p \<mapsto> fs_next fs),
     fs_data := (fs_data fs)(fs_next fs := m), fs_next := Suc (fs_next fs)\<rparr>"

lemma fs_create_simps [simp]:
  "fs_links (fs_create p m fs) p = Some (fs_next fs)"
  "q \<noteq> p \<Longrightarrow> fs_links (fs_create p m fs) q = fs_links fs q"
  "fs_data (fs_create p m fs) (fs_next fs) = m"
  "i \<noteq> fs_next fs \<Longrightarrow> fs_data (fs_create p m fs) i = fs_data fs i"
  by (simp_all add: fs_create_def)

lemma fs_ok_create: "fs_ok fs \<Longrightarrow> fs_ok (fs_create p m fs)"
  unfolding fs_ok_def fs_create_def by (auto simp: less_Suc_eq)

lemma fs_create_old:
  "fs_ok fs \<Longrightarrow> fs_links fs q = Some i \<Longrightarrow> fs_data (fs_create p m fs) i = fs_data fs i"
  using fs_ok_less [of fs q i] by simp

text \<open>A new data file, logged in the metadata file.\<close>

lemma disk_ok_create:
  assumes P: "pedrolib_ok P" and ok: "disk_ok P cap logs fs m" and io: "io_good io"
    and fid: "fid \<notin> set (mm_files m)" and noidx: "fs_links fs (mm_GetIndexFilePath P m fid) = None"
  shows "\<exists>m' fs'. mm_CreateFile P io fid m
        (fs_create (mm_GetDataFilePath P m fid) (replicate cap 0) fs) = (kOk, m', fs')
     \<and> disk_ok P cap (logs(fid := [])) fs' m' \<and> mm_files m' = set_emplace fid (mm_files m)
     \<and> mm_name m' = mm_name m \<and> mm_path m' = mm_path m
     \<and> fs_links fs' = (fs_links fs)(mm_GetDataFilePath P m fid \<mapsto> fs_next fs)"
proof -
  let ?p = "mm_GetDataFilePath P m fid" and ?fs = "fs_create (mm_GetDataFilePath P m fid) (replicate cap 0) fs"
  note d = disk_okD [OF ok]
  have mp: "mm_path m \<noteq> mm_GetDataFilePath P m x" for x using d(5) by (simp add: paths_ok_def)
  have "mm_ok P ?fs m"
    by (rule mm_ok_frame [OF d(4)]) (use mp fs_create_old [OF d(3)] in auto)
  from mm_CreateFile_ok [OF P this, of io fid] io obtain m' fs' where
    r: "mm_CreateFile P io fid m ?fs = (kOk, m', fs')" "mm_ok P fs' m'"
      "mm_files m' = set_emplace fid (mm_files m)" "mm_name m' = mm_name m" "mm_path m' = mm_path m"
      "fs_links fs' = fs_links ?fs" "fs_next fs' = fs_next ?fs"
      "\<And>j. fs_links ?fs (mm_path m) \<noteq> Some j \<Longrightarrow> fs_data fs' j = fs_data ?fs j"
    by auto
  have data: "fs_data fs' j = fs_data ?fs j" if "fs_links ?fs q = Some j" "q \<noteq> mm_path m" for q j
    using r(8) fs_ok_inj [OF fs_ok_create [OF d(3)], of ?p "replicate cap 0" q j "mm_path m"] that by blast
  have old: "fs_data fs' j = fs_data fs j" if "fs_links fs q = Some j" "q \<noteq> mm_path m" "q \<noteq> ?p" for q j
    using data [of q j] that fs_create_old [OF d(3) that(1)] by simp
  have files: "\<exists>i. fs_links fs' (mm_GetDataFilePath P m x) = Some i
      \<and> log_file P cap ((logs(fid := [])) x) (fs_data fs' i)" if x: "x \<in> set (mm_files m')" for x
  proof (cases "x = fid")
    case True
    have "fs_data fs' (fs_next fs) = replicate cap 0" using data [of ?p "fs_next fs"] mp [of fid] by auto
    then show ?thesis using True r(6) by (simp add: log_file_empty)
  next
    case False
    then have "x \<in> set (mm_files m)" using x r(3) by auto
    from d(6) [OF this] obtain i where i: "fs_links fs (mm_GetDataFilePath P m x) = Some i"
      "log_file P cap (logs x) (fs_data fs i)" by blast
    have "mm_GetDataFilePath P m x \<noteq> ?p" "mm_GetDataFilePath P m x \<noteq> mm_path m"
      using False data_path_inj [OF P, of m x fid] mp [of x] by auto
    then show ?thesis using old [OF i(1)] i r(6) False by auto
  qed
  have idx: "fs_data fs' i = idx_log_bytes P (log_index 0 ((logs(fid := [])) x))"
    if "fs_links fs' (mm_GetIndexFilePath P m x) = Some i" for x i
  proof -
    have np: "mm_GetIndexFilePath P m x \<noteq> ?p" "mm_GetIndexFilePath P m x \<noteq> mm_path m"
      using data_index_path [of P m fid x] d(5) unfolding paths_ok_def by metis+
    then have l: "fs_links fs (mm_GetIndexFilePath P m x) = Some i" using that r(6) by simp
    then have "x \<noteq> fid" using noidx by auto
    then show ?thesis using d(8) [OF l] old [OF l np(2,1)] by simp
  qed
  have "fs_ok fs'"
    using fs_ok_create [OF d(3), of ?p "replicate cap 0"] r(6,7) unfolding fs_ok_def by simp
  moreover have "fs_links fs' (mm_GetDataFilePath P m x) = None" if "x \<notin> set (mm_files m')" for x
  proof -
    have x: "x \<noteq> fid" "x \<notin> set (mm_files m)" using that r(3) by auto
    then have "mm_GetDataFilePath P m x \<noteq> ?p" using data_path_inj [OF P, of m x fid] by blast
    then show ?thesis using d(7) [OF x(2)] r(6) by simp
  qed
  ultimately have "disk_ok P cap (logs(fid := [])) fs' m'"
    using r(2,4,5) files idx d(1,2,5) unfolding disk_ok_def path_name(1) [OF r(4)]
      path_name(2) [OF r(4)] paths_ok_def by simp
  then show ?thesis using r by (intro exI [of _ m'] exI [of _ fs']) (simp add: fs_create_def)
qed

lemma u32_succ:
  assumes "a \<noteq> (-1 :: u32)"
  shows "a < a + 1" "b \<le> a \<Longrightarrow> b < a + 1" "unat (a + 1) = Suc (unat a)"
proof -
  have "1 + a \<noteq> 0" using assms by (simp add: add_eq_0_iff)
  from unatSuc [OF this] show "unat (a + 1) = Suc (unat a)" by (simp add: add.commute)
  then show "a < a + 1" "b \<le> a \<Longrightarrow> b < a + 1"
    by (simp_all add: word_less_nat_alt word_le_nat_alt)
qed

text \<open>What the old active file leaves behind.\<close>

lemma fm_retire_simps [simp]:
  "fm_fs (fm_retire s) = fm_fs s" "fm_meta (fm_retire s) = fm_meta s"
  "fm_open_files (fm_retire s) = fm_open_files s" "fm_active_id (fm_retire s) = fm_active_id s"
  by (simp_all add: fm_retire_def Let_def split: option.split)

lemma fm_retire_pending:
  assumes "fm_data_file s = Some f" "fm_index_log s = Some log"
  shows "fm_pending (fm_retire s) = fm_pending s
     @ [TSyncFile (fm_active_id s) f, TCreateIndexFile (fm_active_id s) log]"
  using assms by (simp add: fm_retire_def)

lemma fm_rebuild_file:
  assumes P: "pedrolib_ok P" and log: "log_file P cap es m" and cap: "cap < 2 ^ 32"
  shows "\<exists>log. fm_rebuild P (readable_buffer_new m cap) 0 (ab_new P) = Some (of_nat (log_size es), log)
     \<and> ab_bytes P log = idx_log_bytes P (log_index 0 es)"
proof -
  have A: "array_buffer_ok P" "codec_ok P" using P by simp_all
  have len: "length m = cap" using log A log_file_length by blast
  then have new: "rdb_inv (readable_buffer_new m cap)"
    "rb_bytes rdb_ops (readable_buffer_new m cap) = log_bytes P es @ replicate (cap - log_size es) 0"
    using rdb_new [of m] cap log by (auto simp: log_file_def)
  have "\<forall>e \<in> set es. rec_wf e" using log by (simp add: log_file_def)
  from fm_rebuild_log [OF P new this, of 0 "ab_new P"] show ?thesis using A by simp
qed

lemma cache_ok_mono:
  assumes "cache_ok P cap s" "fm_open_files s' = fm_open_files s"
    and "\<And>fid f. handle_ok P cap (fm_fs s) (fm_meta s) fid f \<Longrightarrow> handle_ok P cap (fm_fs s') (fm_meta s') fid f"
  shows "cache_ok P cap s'"
  using assms unfolding cache_ok_def cache_sound_def by auto

lemma idx_log_bytes_length:
  assumes "codec_ok P"
  shows "length (idx_log_bytes P (log_index off es)) \<le> log_size es"
proof (induction off es rule: log_index.induct)
  case (2 off e es)
  then show ?case using assms by (simp add: rec_size_def)
qed simp

text \<open>Creating a file behind all others makes it the active one.\<close>

lemma fm_CreateFile_new:
  assumes P: "pedrolib_ok P" and dok: "disk_ok P cap logs (fm_fs s) (fm_meta s)" and cok: "cache_ok P cap s"
    and io: "io_good io" and le: "\<And>fid. fid \<in> set (mm_files (fm_meta s)) \<Longrightarrow> fid < n"
    and idx: "\<And>fid. fs_links (fm_fs s) (mm_GetIndexFilePath P (fm_meta s) fid) \<noteq> None \<Longrightarrow> fid < n"
    and pend: "pending_ok P cap logs n (fm_pending (fm_retire s))"
  shows "\<exists>s'. fm_CreateFile P cap io n s = Some (kOk, s')
     \<and> fm_ok P cap (logs(n := [])) s' \<and> fm_active_id s' = n
     \<and> mm_files (fm_meta s') = mm_files (fm_meta s) @ [n]
     \<and> mm_name (fm_meta s') = mm_name (fm_meta s) \<and> mm_path (fm_meta s') = mm_path (fm_meta s) \<and> links_kept P s s'"
proof -
  let ?fs = "fm_fs s" and ?m = "fm_meta s" and ?p = "mm_GetDataFilePath P (fm_meta s) n"
  note d = disk_okD [OF dok]
  have new: "n \<notin> set (mm_files ?m)" using le by blast
  have noidx: "fs_links ?fs (mm_GetIndexFilePath P ?m n) = None" using idx by blast
  from disk_ok_create [OF P dok io new noidx] obtain m' fs' where c:
    "mm_CreateFile P io n ?m (fs_create ?p (replicate cap 0) ?fs) = (kOk, m', fs')"
    "disk_ok P cap (logs(n := [])) fs' m'" "mm_files m' = set_emplace n (mm_files ?m)"
    "mm_name m' = mm_name ?m" "mm_path m' = mm_path ?m"
    "fs_links fs' = (fs_links ?fs)(?p \<mapsto> fs_next ?fs)" by blast
  let ?f = "\<lparr>mrw_ino = fs_next ?fs, mrw_write_index = 0, mrw_length = cap\<rparr>"
  have open_new: "mrw_Open io ?p cap ?fs = (Inr ?f, fs_create ?p (replicate cap 0) ?fs)"
    using mrw_Open_new [of ?fs ?p io cap] d(1,2,7) new io by (simp add: fs_create_def size_max_def)
  obtain log' where rb: "fm_rebuild P (readable_buffer_new (replicate cap 0) cap) 0 (ab_new P)
      = Some (0, log')" "ab_bytes P log' = []"
    using fm_rebuild_file [OF P log_file_empty d(2)] by auto
  let ?s = "(fm_retire s)\<lparr>fm_fs := fs', fm_meta := m', fm_index_log := Some log',
    fm_data_file := Some ?f, fm_active_id := n\<rparr>"
  have r: "fm_CreateFile P cap io n s = Some (kOk, ?s)"
    using open_new rb c(1) by (simp add: fm_CreateFile_def mrw_GetReadableBuffer_def Let_def)
  have files: "mm_files m' = mm_files ?m @ [n]"
    using c(3) new mm_ok_files [OF d(4)] le
    by (auto simp: set_emplace_def intro!: sorted_insort_is_snoc intro: less_imp_le)
  note names = path_name(1) [OF c(4), of P] path_name(2) [OF c(4), of P]
  have "cache_ok P cap ?s"
    by (rule cache_ok_mono [OF cok])
      (use d(7) [OF new] c(6) names in \<open>auto simp: handle_ok_def\<close>)
  moreover have "active_ok P cap (logs(n := [])) ?s"
    unfolding active_ok_def
  proof (intro conjI allI impI ballI)
    show "fm_active_id ?s \<in> set (mm_files (fm_meta ?s))" using files by simp
    show "fid \<le> fm_active_id ?s" if "fid \<in> set (mm_files (fm_meta ?s))" for fid
      using that files le by (auto intro: less_imp_le)
    show "fid < fm_active_id ?s" if "fs_links (fm_fs ?s) (mm_GetIndexFilePath P (fm_meta ?s) fid) \<noteq> None"
      for fid
      using that idx [of fid] c(6) names data_index_path [of P ?m n fid] by (auto split: if_splits)
    show "\<exists>f log. fm_data_file ?s = Some f \<and> fm_index_log ?s = Some log \<and>
        fs_links (fm_fs ?s) (mm_GetDataFilePath P (fm_meta ?s) (fm_active_id ?s)) = Some (mrw_ino f) \<and>
        mrw_length f = cap \<and> mrw_write_index f = log_size ((logs(n := [])) (fm_active_id ?s)) \<and>
        ab_bytes P log = idx_log_bytes P (log_index 0 ((logs(n := [])) (fm_active_id ?s)))"
      using c(6) names rb by simp
    show "pending_ok P cap (logs(n := [])) (fm_active_id ?s) (fm_pending ?s)"
      by (simp, rule pending_ok_mono [OF pend]) auto
  qed
  moreover have "fs_links fs' (mm_GetDataFilePath P ?m x) = fs_links ?fs (mm_GetDataFilePath P ?m x)"
    if "x \<in> set (mm_files ?m)" for x
  proof -
    have "mm_GetDataFilePath P ?m x \<noteq> ?p" using data_path_inj [OF P, of ?m x n] new that by blast
    then show ?thesis using c(6) by simp
  qed
  ultimately show ?thesis
    using r c(2,4,5) files by (intro exI [of _ ?s]) (simp add: fm_ok_def links_kept_def)
qed

text \<open>The roll: the file after the active one is created and becomes active.\<close>

lemma fm_CreateFile_next:
  assumes P: "pedrolib_ok P" and ok: "fm_ok P cap logs s" and io: "io_good io"
    and more: "fm_active_id s \<noteq> -1"
  shows "\<exists>s'. fm_CreateFile P cap io (fm_active_id s + 1) s = Some (kOk, s')
     \<and> fm_ok P cap (logs(fm_active_id s + 1 := [])) s' \<and> fm_active_id s' = fm_active_id s + 1
     \<and> mm_files (fm_meta s') = mm_files (fm_meta s) @ [fm_active_id s + 1]
     \<and> mm_name (fm_meta s') = mm_name (fm_meta s) \<and> mm_path (fm_meta s') = mm_path (fm_meta s) \<and> links_kept P s s'"
proof -
  let ?a = "fm_active_id s"
  have dok: "disk_ok P cap logs (fm_fs s) (fm_meta s)" and cok: "cache_ok P cap s"
    and aok: "active_ok P cap logs s"
    using ok by (simp_all add: fm_ok_def)
  from active_okE [OF aok] obtain f log where f: "fm_data_file s = Some f" "fm_index_log s = Some log"
    "fs_links (fm_fs s) (mm_GetDataFilePath P (fm_meta s) ?a) = Some (mrw_ino f)"
    "ab_bytes P log = idx_log_bytes P (log_index 0 (logs ?a))" .
  have a: "?a \<in> set (mm_files (fm_meta s))" using aok by (simp add: active_ok_def)
  have "log_size (logs ?a) \<le> cap" using disk_ok_log [OF dok a f(3)] by (simp add: log_file_def)
  then have "length (ab_bytes P log) \<le> cap"
    using idx_log_bytes_length [of P 0 "logs ?a"] P f(4) by simp
  then have "pending_ok P cap logs (?a + 1) (fm_pending (fm_retire s))"
    using aok f u32_succ [OF more] pending_ok_mono [of P cap logs ?a "fm_pending s" "?a + 1" logs]
    by (simp add: fm_retire_pending task_ok_def active_ok_def less_imp_le)
  moreover have "fid < ?a + 1" if "fid \<in> set (mm_files (fm_meta s))" for fid
    using aok that u32_succ(2) [OF more] by (simp add: active_ok_def)
  moreover have "fid < ?a + 1" if "fs_links (fm_fs s) (mm_GetIndexFilePath P (fm_meta s) fid) \<noteq> None" for fid
    using aok that u32_succ(2) [OF more] by (auto simp: active_ok_def intro: less_imp_le)
  ultimately show ?thesis using fm_CreateFile_new [OF P dok cok io, of "?a + 1"] by blast
qed

section \<open>Append\<close>

lemma fm_Append_fits:
  assumes P: "pedrolib_ok P" and ok: "fm_ok P cap logs s" and e: "rec_wf e"
    and room: "log_size (logs (fm_active_id s)) + rec_size e \<le> cap"
  shows "\<exists>s'. fm_Append P cap io e s
       = Some (kOk, Location (fm_active_id s) (of_nat (log_size (logs (fm_active_id s)))), s')
     \<and> fm_ok P cap (logs(fm_active_id s := logs (fm_active_id s) @ [e])) s'
     \<and> fm_active_id s' = fm_active_id s \<and> fm_meta s' = fm_meta s \<and> links_kept P s s'"
  using fm_append_active_fits [OF assms] by (auto simp: fm_Append.simps)

text \<open>
  A full file is left for the next one. Two passes of the loop are enough for every record that
  fits an empty file.
\<close>

lemma fm_Append_rolls:
  assumes P: "pedrolib_ok P" and ok: "fm_ok P cap logs s" and e: "rec_wf e" and io: "io_good io"
    and full: "cap < log_size (logs (fm_active_id s)) + rec_size e" and fits: "rec_size e \<le> cap"
    and more: "fm_active_id s \<noteq> -1"
  shows "\<exists>s'. fm_Append P cap io e s = Some (kOk, Location (fm_active_id s + 1) 0, s')
     \<and> fm_ok P cap (logs(fm_active_id s + 1 := [e])) s' \<and> fm_active_id s' = fm_active_id s + 1
     \<and> mm_files (fm_meta s') = mm_files (fm_meta s) @ [fm_active_id s + 1]
     \<and> mm_name (fm_meta s') = mm_name (fm_meta s) \<and> mm_path (fm_meta s') = mm_path (fm_meta s) \<and> links_kept P s s'"
proof -
  let ?n = "fm_active_id s + 1"
  from fm_CreateFile_next [OF P ok io more] obtain s1 where s1:
    "fm_CreateFile P cap io ?n s = Some (kOk, s1)" "fm_ok P cap (logs(?n := [])) s1"
    "fm_active_id s1 = ?n" "mm_files (fm_meta s1) = mm_files (fm_meta s) @ [?n]"
    "mm_name (fm_meta s1) = mm_name (fm_meta s)" "mm_path (fm_meta s1) = mm_path (fm_meta s)"
    "links_kept P s s1" by blast
  from fm_Append_fits [OF P s1(2) e, of io] s1(3) fits obtain s2 where s2:
    "fm_Append P cap io e s1 = Some (kOk, Location ?n 0, s2)" "fm_ok P cap (logs(?n := [e])) s2"
    "fm_active_id s2 = ?n" "fm_meta s2 = fm_meta s1" "links_kept P s1 s2" by auto
  have "fm_Append P cap io e s = Some (kOk, Location ?n 0, s2)"
    using fm_append_active_full [OF P ok e full] s1(1) s2(1) by (subst fm_Append.simps) simp
  moreover have "links_kept P s s2"
    using s1(4,5,7) s2(5) path_name(1) [OF s1(5), of P] by (simp add: links_kept_def)
  ultimately show ?thesis using s1 s2 by auto
qed

section \<open>The tasks of the executor\<close>

text \<open>What a rotation hands to the executor, and an append does not.\<close>

lemma fm_CreateFile_pending:
  "fm_CreateFile P cap io fid s = Some (st, s') \<Longrightarrow> fm_pending s' = fm_pending (fm_retire s)"
  by (auto simp: fm_CreateFile_def Let_def split: prod.splits sum.splits option.splits)

lemma fm_append_active_pending:
  "fm_append_active P e s = Some (Inr (loc, s')) \<Longrightarrow> fm_pending s' = fm_pending s"
  by (auto simp: fm_append_active_def split: option.splits sum.splits)

lemma fm_Append_rolls_pending:
  assumes P: "pedrolib_ok P" and ok: "fm_ok P cap logs s" and e: "rec_wf e" and io: "io_good io"
    and full: "cap < log_size (logs (fm_active_id s)) + rec_size e" and fits: "rec_size e \<le> cap"
    and more: "fm_active_id s \<noteq> -1" and app: "fm_Append P cap io e s = Some (st, loc, s')"
  shows "fm_pending s' = fm_pending (fm_retire s)"
proof -
  from fm_CreateFile_next [OF P ok io more] obtain s1 where s1:
    "fm_CreateFile P cap io (fm_active_id s + 1) s = Some (kOk, s1)"
    "fm_ok P cap (logs(fm_active_id s + 1 := [])) s1" "fm_active_id s1 = fm_active_id s + 1" by blast
  from fm_append_active_fits [OF P s1(2) e] s1(3) fits obtain s2 loc2 where s2:
    "fm_append_active P e s1 = Some (Inr (loc2, s2))" by auto
  have "fm_Append P cap io e s = Some (kOk, loc2, s2)"
    by (subst fm_Append.simps) (simp add: fm_append_active_full [OF P ok e full] s1(1) fm_Append.simps [of P cap io e s1] s2)
  then show ?thesis using app fm_CreateFile_pending [OF s1(1)] fm_append_active_pending [OF s2] by simp
qed

text \<open>The index file that a task writes holds the index of the log.\<close>

lemma disk_ok_index:
  assumes P: "pedrolib_ok P" and ok: "disk_ok P cap logs fs m"
    and free: "fs_links fs (mm_GetIndexFilePath P m fid) = None"
  shows "disk_ok P cap logs
     (fs_create (mm_GetIndexFilePath P m fid) (idx_log_bytes P (log_index 0 (logs fid))) fs) m"
    (is "disk_ok P cap logs ?fs m")
proof -
  let ?ip = "mm_GetIndexFilePath P m fid"
  note d = disk_okD [OF ok]
  have mp: "mm_path m \<noteq> ?ip" using d(5) by (simp add: paths_ok_def)
  have links: "fs_links ?fs (mm_GetDataFilePath P m x) = fs_links fs (mm_GetDataFilePath P m x)" for x
    using data_index_path [of P m x fid] by simp
  have "mm_ok P ?fs m"
    by (rule mm_ok_frame [OF d(4)]) (use mp fs_create_old [OF d(3)] in auto)
  moreover have "\<exists>i. fs_links ?fs (mm_GetDataFilePath P m x) = Some i \<and> log_file P cap (logs x) (fs_data ?fs i)"
    if "x \<in> set (mm_files m)" for x
    using d(6) [OF that] links [of x] fs_create_old [OF d(3)] by fastforce
  moreover have "fs_data ?fs i = idx_log_bytes P (log_index 0 (logs x))"
    if l: "fs_links ?fs (mm_GetIndexFilePath P m x) = Some i" for x i
  proof (cases "x = fid")
    case True
    then show ?thesis using l by auto
  next
    case False
    then have "mm_GetIndexFilePath P m x \<noteq> ?ip" using index_path_inj [OF P, of m x fid] by blast
    then have "fs_links fs (mm_GetIndexFilePath P m x) = Some i" using l by simp
    then show ?thesis using d(8) fs_create_old [OF d(3)] by metis
  qed
  ultimately show ?thesis
    using d(1,2,5,7) fs_ok_create [OF d(3)] links unfolding disk_ok_def by simp
qed

lemma fs_create_store: "fs_store (fs_next fs) m (fs_create p m' fs) = fs_create p m fs"
  by (simp add: fs_store_def fs_create_def)

lemma fs_store_same: "fs_store i (fs_data fs i) fs = fs"
  by (simp add: fs_store_def)

text \<open>
  \<^verbatim>\<open>CreateIndexFile\<close> writes the file, or leaves one of size 0 and queues the task again when
  there is nothing to write (a mapping of length 0 fails).
\<close>

lemma fm_CreateIndexFile_cases:
  assumes P: "pedrolib_ok P" and dok: "disk_ok P cap logs (fm_fs s) (fm_meta s)" and io: "io_good io"
    and t: "task_ok P cap logs n (TCreateIndexFile fid log)"
  shows "\<exists>fs'. disk_ok P cap logs fs' (fm_meta s)
     \<and> (\<forall>p. p \<noteq> mm_GetIndexFilePath P (fm_meta s) fid \<longrightarrow> fs_links fs' p = fs_links (fm_fs s) p)
     \<and> fs_links fs' (mm_GetIndexFilePath P (fm_meta s) fid) \<noteq> None
     \<and> fm_CreateIndexFile P io fid log s = (if ab_bytes P log = []
         then Some (s\<lparr>fm_fs := fs', fm_pending := fm_pending s @ [TCreateIndexFile fid log]\<rparr>)
         else Some (s\<lparr>fm_fs := fs'\<rparr>))"
proof -
  let ?fs = "fm_fs s" and ?ip = "mm_GetIndexFilePath P (fm_meta s) fid" and ?b = "ab_bytes P log"
  note d = disk_okD [OF dok]
  have b: "?b = idx_log_bytes P (log_index 0 (logs fid))" "length ?b \<le> cap"
    using t unfolding task_ok_def task.case by blast+
  then have n: "length ?b < size_max" using d(2) by (simp add: size_max_def)
  have app: "\<exists>b'. wbf_Append ?b (writable_buffer_new m (Some 0) (length ?b) 0) = Some b' \<and> wbf_mem b' = ?b"
    if "length m = length ?b" for m
    using that by (simp add: wbf_Append_def writable_buffer_new_def overwrite_def)
  define fs1 where "fs1 = (if fs_links ?fs ?ip = None then fs_create ?ip ?b ?fs else ?fs)"
  have ok1: "disk_ok P cap logs fs1 (fm_meta s)"
    using disk_ok_index [OF P dok, of fid] dok b(1) by (simp add: fs1_def)
  have links1: "fs_links fs1 p = fs_links ?fs p" if "p \<noteq> ?ip" for p
    using that by (simp add: fs1_def)
  have "fm_CreateIndexFile P io fid log s = (if ?b = []
      then Some (s\<lparr>fm_fs := fs1, fm_pending := fm_pending s @ [TCreateIndexFile fid log]\<rparr>)
      else Some (s\<lparr>fm_fs := fs1\<rparr>))"
  proof (cases "fs_links ?fs ?ip")
    case None
    have o0: "mrw_Open io ?ip 0 ?fs = (Inl kIOError, fs_create ?ip [] ?fs)"
      using None io by (simp add: mrw_Open_def fs_open_def fs_reserve_def fs_create_def size_max_def Let_def)
    show ?thesis
    proof (cases "?b = []")
      case True
      then show ?thesis using o0 None by (simp add: fm_CreateIndexFile_def fs1_def)
    next
      case False
      let ?f = "\<lparr>mrw_ino = fs_next ?fs, mrw_write_index = 0, mrw_length = length ?b\<rparr>"
      have o1: "mrw_Open io ?ip (length ?b) ?fs = (Inr ?f, fs_create ?ip (replicate (length ?b) 0) ?fs)"
        using mrw_Open_new [OF None, of io "length ?b"] io n False by (simp add: fs_create_def)
      have a: "mrw_Allocate (length ?b) (fs_create ?ip (replicate (length ?b) 0) ?fs) ?f =
          (writable_buffer_new (replicate (length ?b) 0) (Some 0) (length ?b) 0,
           ?f\<lparr>mrw_write_index := length ?b\<rparr>)"
        using n by (simp add: mrw_Allocate_def size_max_def)
      show ?thesis
        using app [of "replicate (length ?b) 0"] o1 a False None
        by (auto simp: fm_CreateIndexFile_def fs1_def fs_create_store)
    qed
  next
    case (Some i)
    have data: "fs_data ?fs i = ?b" using d(8) [OF Some] b by simp
    show ?thesis
    proof (cases "?b = []")
      case True
      have "mrw_Open io ?ip 0 ?fs = (Inl kIOError, ?fs)"
        using Some io data True fs_store_same [of i ?fs]
        by (simp add: mrw_Open_def fs_open_def fs_reserve_def fs_store_def size_max_def Let_def)
      then show ?thesis using Some True by (simp add: fm_CreateIndexFile_def fs1_def)
    next
      case False
      let ?f = "\<lparr>mrw_ino = i, mrw_write_index = 0, mrw_length = length ?b\<rparr>"
      have o1: "mrw_Open io ?ip (length ?b) ?fs = (Inr ?f, ?fs)"
        by (rule mrw_Open_existing) (use Some io data n False in simp_all)
      have a: "mrw_Allocate (length ?b) ?fs ?f =
          (writable_buffer_new ?b (Some 0) (length ?b) 0, ?f\<lparr>mrw_write_index := length ?b\<rparr>)"
        using n data by (simp add: mrw_Allocate_def size_max_def)
      show ?thesis
        using app [of ?b] o1 a False Some fs_store_same [of i ?fs] data
        by (auto simp: fm_CreateIndexFile_def fs1_def)
    qed
  qed
  moreover have "fs_links fs1 ?ip \<noteq> None" by (simp add: fs1_def)
  ultimately show ?thesis using ok1 links1 by blast
qed

text \<open>
  Running a task keeps the invariant. It finishes the task, unless it is one with nothing to
  write, which is queued again; no name disappears.
\<close>

definition task_done :: "'a pedrolib \<Rightarrow> fsys \<Rightarrow> mm \<Rightarrow> 'a task \<Rightarrow> bool" where
  "task_done P fs m t = (case t of TSyncFile _ _ \<Rightarrow> True
     | TCreateIndexFile fid _ \<Rightarrow> fs_links fs (mm_GetIndexFilePath P m fid) \<noteq> None)"

definition task_empty :: "'a pedrolib \<Rightarrow> 'a task \<Rightarrow> bool" where
  "task_empty P t = (case t of TSyncFile _ _ \<Rightarrow> False | TCreateIndexFile _ log \<Rightarrow> ab_bytes P log = [])"

lemma fm_run_task_step:
  assumes P: "pedrolib_ok P" and ok: "fm_ok P cap logs s" and io: "io_good io" and pend: "fm_pending s = t # ts"
  shows "\<exists>s'. fm_run_task P io s = Some s' \<and> fm_ok P cap logs s' \<and> fm_meta s' = fm_meta s
     \<and> fm_active_id s' = fm_active_id s \<and> fm_pending s' = ts @ (if task_empty P t then [t] else [])
     \<and> task_done P (fm_fs s') (fm_meta s) t \<and> links_kept P s s'
     \<and> (\<forall>p. fs_links (fm_fs s) p \<noteq> None \<longrightarrow> fs_links (fm_fs s') p \<noteq> None)"
proof -
  have dok: "disk_ok P cap logs (fm_fs s) (fm_meta s)" and cok: "cache_ok P cap s"
    and aok: "active_ok P cap logs s"
    using ok by (simp_all add: fm_ok_def)
  let ?s = "s\<lparr>fm_pending := ts\<rparr>"
  have ok1: "fm_ok P cap logs ?s" using ok pend by (simp add: fm_ok_def cache_ok_def active_ok_def)
  show ?thesis
  proof (cases t)
    case (TSyncFile fid f)
    then show ?thesis using pend ok1 io
      by (simp add: fm_run_task_def fm_SyncFile_def mrw_Sync_def task_empty_def task_done_def links_kept_def)
  next
    case (TCreateIndexFile fid log)
    let ?ip = "mm_GetIndexFilePath P (fm_meta s) fid"
    have t: "task_ok P cap logs (fm_active_id s) (TCreateIndexFile fid log)"
      using aok pend TCreateIndexFile by (simp add: active_ok_def)
    have dok1: "disk_ok P cap logs (fm_fs ?s) (fm_meta ?s)" using dok by simp
    from fm_CreateIndexFile_cases [OF P dok1 io t] obtain fs' where c:
      "disk_ok P cap logs fs' (fm_meta s)" "\<And>p. p \<noteq> ?ip \<Longrightarrow> fs_links fs' p = fs_links (fm_fs s) p"
      "fs_links fs' ?ip \<noteq> None"
      "fm_CreateIndexFile P io fid log ?s = (if ab_bytes P log = []
         then Some (?s\<lparr>fm_fs := fs', fm_pending := ts @ [TCreateIndexFile fid log]\<rparr>)
         else Some (?s\<lparr>fm_fs := fs'\<rparr>))" by auto
    have dp: "fs_links fs' (mm_GetDataFilePath P (fm_meta s) x)
        = fs_links (fm_fs s) (mm_GetDataFilePath P (fm_meta s) x)" for x
      using c(2) data_index_path [of P "fm_meta s" x fid] by simp
    have "x < fm_active_id s" if "fs_links fs' (mm_GetIndexFilePath P (fm_meta s) x) \<noteq> None" for x
    proof (cases "x = fid")
      case True
      then show ?thesis using t by (simp add: task_ok_def)
    next
      case False
      then have "fs_links (fm_fs s) (mm_GetIndexFilePath P (fm_meta s) x) \<noteq> None"
        using c(2) that index_path_inj [OF P, of "fm_meta s" x fid] by metis
      then show ?thesis using aok unfolding active_ok_def by blast
    qed
    then have "fm_ok P cap logs (s\<lparr>fm_pending := us, fm_fs := fs'\<rparr>)"
      "fm_ok P cap logs (s\<lparr>fm_fs := fs', fm_pending := us\<rparr>)"
      if "pending_ok P cap logs (fm_active_id s) us" for us
      using c(1) cok aok dp that
      by (auto simp: fm_ok_def cache_ok_def handle_ok_def [abs_def] active_ok_def)
    moreover have "pending_ok P cap logs (fm_active_id s) (ts @ [TCreateIndexFile fid log])"
      "pending_ok P cap logs (fm_active_id s) ts"
      using aok pend t by (simp_all add: active_ok_def)
    moreover have "fs_links fs' p \<noteq> None" if "fs_links (fm_fs s) p \<noteq> None" for p
      using that c(2,3) by (cases "p = ?ip") simp_all
    ultimately show ?thesis
      using c(3,4) pend TCreateIndexFile dp by (auto simp: fm_run_task_def task_empty_def task_done_def links_kept_def)
  qed
qed

lemma fm_run_task_ok:
  assumes "pedrolib_ok P" "fm_ok P cap logs s" "io_good io"
  shows "\<exists>s'. fm_run_task P io s = Some s' \<and> fm_ok P cap logs s' \<and> fm_meta s' = fm_meta s
     \<and> fm_active_id s' = fm_active_id s"
  using fm_run_task_step [OF assms] assms(2) by (cases "fm_pending s") (simp add: fm_run_task_def, blast)

text \<open>The executor runs \<open>n\<close> tasks. When none of them is empty, all are done after one round.\<close>

fun fm_run_tasks :: "'a pedrolib \<Rightarrow> io \<Rightarrow> nat \<Rightarrow> 'a fm \<Rightarrow> 'a fm option" where
  "fm_run_tasks P io 0 s = Some s"
| "fm_run_tasks P io (Suc n) s = (case fm_run_task P io s of None \<Rightarrow> None | Some s \<Rightarrow> fm_run_tasks P io n s)"

lemma fm_run_tasks_done:
  assumes P: "pedrolib_ok P" and io: "io_good io"
  shows "fm_ok P cap logs s \<Longrightarrow> fm_pending s = ts \<Longrightarrow> \<forall>t \<in> set ts. \<not> task_empty P t \<Longrightarrow>
     \<exists>s'. fm_run_tasks P io (length ts) s = Some s' \<and> fm_ok P cap logs s' \<and> fm_meta s' = fm_meta s
       \<and> fm_active_id s' = fm_active_id s \<and> fm_pending s' = []
       \<and> (\<forall>t \<in> set ts. task_done P (fm_fs s') (fm_meta s) t) \<and> links_kept P s s'
       \<and> (\<forall>p. fs_links (fm_fs s) p \<noteq> None \<longrightarrow> fs_links (fm_fs s') p \<noteq> None)"
proof (induction ts arbitrary: s)
  case (Cons t ts)
  from fm_run_task_step [OF P Cons.prems(1) io Cons.prems(2)] Cons.prems(3) obtain s1 where s1:
    "fm_run_task P io s = Some s1" "fm_ok P cap logs s1" "fm_meta s1 = fm_meta s"
    "fm_active_id s1 = fm_active_id s" "fm_pending s1 = ts" "task_done P (fm_fs s1) (fm_meta s) t" "links_kept P s s1"
    "\<forall>p. fs_links (fm_fs s) p \<noteq> None \<longrightarrow> fs_links (fm_fs s1) p \<noteq> None" by auto
  from Cons.IH [OF s1(2,5)] Cons.prems(3) obtain s2 where s2:
    "fm_run_tasks P io (length ts) s1 = Some s2" "fm_ok P cap logs s2" "fm_meta s2 = fm_meta s1"
    "fm_active_id s2 = fm_active_id s1" "fm_pending s2 = []"
    "\<forall>t \<in> set ts. task_done P (fm_fs s2) (fm_meta s1) t" "links_kept P s1 s2"
    "\<forall>p. fs_links (fm_fs s1) p \<noteq> None \<longrightarrow> fs_links (fm_fs s2) p \<noteq> None" by auto
  have "task_done P (fm_fs s2) (fm_meta s) t"
    using s1(6) s2(8) by (auto simp: task_done_def split: task.splits)
  moreover have "links_kept P s s2" using s1(3,7) s2(3,7) by (simp add: links_kept_def)
  ultimately show ?case using s1 s2 by simp
qed (simp add: links_kept_def)

section \<open>Acquiring, releasing and removing files\<close>

lemma fm_AcquireDataFile_active:
  assumes "active_ok P cap logs s" "fid = fm_active_id s"
  shows "\<exists>f. fm_AcquireDataFile P io fid s = (kOk, Some f, s)
     \<and> fs_links (fm_fs s) (mm_GetDataFilePath P (fm_meta s) fid) = Some (rf_ino f) \<and> rf_length f = cap"
  using active_okE [OF assms(1)] assms(2)
  by (fastforce simp: fm_AcquireDataFile_def rf_ino_def rf_length_def)

lemma fm_AcquireDataFile_disk:
  assumes ok: "disk_ok P cap logs (fm_fs s) (fm_meta s)" and cok: "cache_ok P cap s"
    and P: "pedrolib_ok P" and io: "io_good io" and fid: "fid \<in> set (mm_files (fm_meta s))"
    and inactive: "fid \<noteq> fm_active_id s"
  shows "\<exists>f c. fm_AcquireDataFile P io fid s = (kOk, Some f, s\<lparr>fm_open_files := c\<rparr>)
     \<and> cache_ok P cap (s\<lparr>fm_open_files := c\<rparr>)
     \<and> fs_links (fm_fs s) (mm_GetDataFilePath P (fm_meta s) fid) = Some (rf_ino f) \<and> rf_length f = cap"
proof -
  let ?Q = "handle_ok P cap (fm_fs s) (fm_meta s)" and ?p = "mm_GetDataFilePath P (fm_meta s) fid"
  obtain hit c1 where g: "lru_Get fid (fm_open_files s) = (hit, c1)" by fastforce
  have c: "lru_ok (fm_open_files s)" "cache_sound lru_lookup ?Q (fm_open_files s)"
    using cok by (simp_all add: cache_ok_def)
  have c1: "lru_ok c1" "cache_sound lru_lookup ?Q c1"
    using lru.get_inv [OF c(1), of fid] lru.sound_get [OF c, of fid] g by simp_all
  show ?thesis
  proof (cases hit)
    case (Some f)
    have "?Q fid f" using lru.sound_hit [OF c, of fid f c1] g Some by simp
    then show ?thesis
      using g Some inactive c1
      by (auto simp: fm_AcquireDataFile_def cache_ok_def handle_ok_def [abs_def] rf_ino_def rf_length_def)
  next
    case None
    from disk_okD(6) [OF ok fid] obtain i where i: "fs_links (fm_fs s) ?p = Some i"
      "log_file P cap (logs fid) (fs_data (fm_fs s) i)" by blast
    let ?f = "\<lparr>pro_ino = i, pro_length = cap\<rparr>"
    have op: "pro_Open io ?p (fm_fs s) = Inr ?f"
      using pro_Open_ok [OF i(1)] log_file_length [OF _ i(2)] P io by simp
    have "?Q fid (RPosix ?f)" using i by (simp add: handle_ok_def)
    then have "cache_sound lru_lookup ?Q (lru_Put fid (RPosix ?f) c1)" "lru_ok (lru_Put fid (RPosix ?f) c1)"
      using lru.sound_put [OF c1, of fid "RPosix ?f"] lru.put_inv [OF c1(1), of fid "RPosix ?f"] by simp_all
    then show ?thesis
      using g None inactive op i
      by (auto simp: fm_AcquireDataFile_def cache_ok_def handle_ok_def [abs_def] rf_ino_def rf_length_def)
  qed
qed

text \<open>A handle on the inode of a file reads the file.\<close>

lemma handle_log:
  assumes P: "pedrolib_ok P" and ok: "disk_ok P cap logs fs m" and fid: "fid \<in> set (mm_files m)"
    and f: "fs_links fs (mm_GetDataFilePath P m fid) = Some (rf_ino f)" "rf_length f = cap"
  shows "rf_inv fs f" and "log_file P cap (logs fid) (fs_data fs (rf_ino f))"
    and "f_Size (rf_ops fs) f = cap"
proof -
  show log: "log_file P cap (logs fid) (fs_data fs (rf_ino f))" by (rule disk_ok_log [OF ok fid f(1)])
  then show "rf_inv fs f" using f(2) log_file_length [OF _ log] P by (simp add: rf_inv_def)
  show "f_Size (rf_ops fs) f = cap"
    using f(2) by (simp add: rf_ops_def rf_length_def mrw_Size_def pro_Size_def split: rfile.splits)
qed

lemma fm_ok_open_files:
  "fm_ok P cap logs s \<Longrightarrow> cache_ok P cap (s\<lparr>fm_open_files := c\<rparr>) \<Longrightarrow> fm_ok P cap logs (s\<lparr>fm_open_files := c\<rparr>)"
  by (simp add: fm_ok_def active_ok_def)

lemma fm_AcquireDataFile_ok:
  assumes P: "pedrolib_ok P" and ok: "fm_ok P cap logs s" and io: "io_good io"
    and fid: "fid \<in> set (mm_files (fm_meta s))"
  shows "\<exists>f c. fm_AcquireDataFile P io fid s = (kOk, Some f, s\<lparr>fm_open_files := c\<rparr>)
     \<and> fm_ok P cap logs (s\<lparr>fm_open_files := c\<rparr>)
     \<and> rf_inv (fm_fs s) f \<and> log_file P cap (logs fid) (fs_data (fm_fs s) (rf_ino f))
     \<and> f_Size (rf_ops (fm_fs s)) f = cap"
proof -
  have d: "disk_ok P cap logs (fm_fs s) (fm_meta s)" and c: "cache_ok P cap s" and a: "active_ok P cap logs s"
    using ok by (simp_all add: fm_ok_def)
  show ?thesis
  proof (cases "fid = fm_active_id s")
    case True
    from fm_AcquireDataFile_active [OF a True, of io] obtain f where f:
      "fm_AcquireDataFile P io fid s = (kOk, Some f, s)"
      "fs_links (fm_fs s) (mm_GetDataFilePath P (fm_meta s) fid) = Some (rf_ino f)" "rf_length f = cap"
      by blast
    have "s = s\<lparr>fm_open_files := fm_open_files s\<rparr>" by simp
    then show ?thesis using handle_log [OF P d fid f(2,3)] ok f(1) by metis
  next
    case False
    from fm_AcquireDataFile_disk [OF d c P io fid False] obtain f c' where f:
      "fm_AcquireDataFile P io fid s = (kOk, Some f, s\<lparr>fm_open_files := c'\<rparr>)"
      "cache_ok P cap (s\<lparr>fm_open_files := c'\<rparr>)"
      "fs_links (fm_fs s) (mm_GetDataFilePath P (fm_meta s) fid) = Some (rf_ino f)" "rf_length f = cap"
      by blast
    then show ?thesis
      using handle_log [OF P d fid f(3,4)] fm_ok_open_files [OF ok f(2)] by auto
  qed
qed

text \<open>Removing a file that is not the active one keeps all others.\<close>

lemma fm_RemoveFile_ok:
  assumes P: "pedrolib_ok P" and ok: "fm_ok P cap logs s" and io: "io_good io"
    and inactive: "fid \<noteq> fm_active_id s"
  shows "\<exists>s'. fm_RemoveFile P io fid s = (kOk, s') \<and> fm_ok P cap logs s'
     \<and> fm_active_id s' = fm_active_id s \<and> mm_files (fm_meta s') = set_erase fid (mm_files (fm_meta s))
     \<and> mm_name (fm_meta s') = mm_name (fm_meta s) \<and> mm_path (fm_meta s') = mm_path (fm_meta s)"
proof -
  let ?m = "fm_meta s" and ?fs = "fm_fs s"
  let ?dp = "mm_GetDataFilePath P (fm_meta s) fid" and ?ip = "mm_GetIndexFilePath P (fm_meta s) fid"
  have dok: "disk_ok P cap logs ?fs ?m" and cok: "cache_ok P cap s" and aok: "active_ok P cap logs s"
    using ok by (simp_all add: fm_ok_def)
  note d = disk_okD [OF dok]
  have mp: "mm_path ?m \<noteq> mm_GetDataFilePath P ?m x" "mm_path ?m \<noteq> mm_GetIndexFilePath P ?m x" for x
    using d(5) by (simp_all add: paths_ok_def)
  from mm_DeleteFile_ok [OF P d(4), of io fid] io obtain m' fs' where
    r: "mm_DeleteFile P io fid ?m ?fs = (kOk, m', fs')" "mm_ok P fs' m'"
      "mm_files m' = set_erase fid (mm_files ?m)" "mm_name m' = mm_name ?m" "mm_path m' = mm_path ?m"
      "fs_links fs' = fs_links ?fs" "fs_next fs' = fs_next ?fs"
      "\<And>j. fs_links ?fs (mm_path ?m) \<noteq> Some j \<Longrightarrow> fs_data fs' j = fs_data ?fs j"
    by auto
  note names = path_name(1) [OF r(4), of P] path_name(2) [OF r(4), of P]
  let ?fs2 = "fs_remove ?ip (fs_remove ?dp fs')"
  let ?s = "s\<lparr>fm_open_files := snd (lru_Remove fid (fm_open_files s)), fm_meta := m', fm_fs := ?fs2\<rparr>"
  have rm: "fm_RemoveFile P io fid s = (kOk, ?s)"
    using r(1) names by (simp add: fm_RemoveFile_def fm_ReleaseDataFile_def Let_def)
  have data: "fs_data fs' j = fs_data ?fs j" if "fs_links ?fs q = Some j" "q \<noteq> mm_path ?m" for q j
    using r(8) fs_ok_inj [OF d(3) that(1), of "mm_path ?m"] that(2) by blast
  have ne: "mm_GetDataFilePath P ?m x \<noteq> ?dp" "mm_GetIndexFilePath P ?m x \<noteq> ?ip" if "x \<noteq> fid" for x
    using that data_path_inj [OF P, of ?m x fid] index_path_inj [OF P, of ?m x fid] by blast+
  have ne2: "mm_GetDataFilePath P ?m x \<noteq> ?ip" "mm_GetIndexFilePath P ?m x \<noteq> ?dp" for x
    using data_index_path [of P ?m x fid] data_index_path [of P ?m fid x] by metis+
  have links_d: "fs_links ?fs2 (mm_GetDataFilePath P ?m x)
      = (if x = fid then None else fs_links ?fs (mm_GetDataFilePath P ?m x))" for x
    using ne(1) [of x] ne2(1) [of x] r(6) by auto
  have links_i: "fs_links ?fs2 (mm_GetIndexFilePath P ?m x)
      = (if x = fid then None else fs_links ?fs (mm_GetIndexFilePath P ?m x))" for x
    using ne(2) [of x] ne2(2) [of x] r(6) by auto
  have "fs_ok ?fs2" using d(3) r(6,7) by (intro fs_ok_remove) (simp add: fs_ok_def)
  moreover have "mm_ok P ?fs2 m'"
    by (rule mm_ok_frame [OF r(2)]) (use mp r(5) in \<open>auto dest: sym\<close>)
  moreover have "\<exists>i. fs_links ?fs2 (mm_GetDataFilePath P ?m x) = Some i
      \<and> log_file P cap (logs x) (fs_data ?fs2 i)" if x: "x \<in> set (mm_files m')" for x
  proof -
    have "x \<noteq> fid" "x \<in> set (mm_files ?m)" using x r(3) by auto
    moreover from d(6) [OF this(2)] obtain i where "fs_links ?fs (mm_GetDataFilePath P ?m x) = Some i"
      "log_file P cap (logs x) (fs_data ?fs i)" by blast
    ultimately show ?thesis
      using links_d [of x] data [of "mm_GetDataFilePath P ?m x" i] mp(1) [of x] by auto
  qed
  moreover have "fs_data ?fs2 i = idx_log_bytes P (log_index 0 (logs x))"
    if "fs_links ?fs2 (mm_GetIndexFilePath P ?m x) = Some i" for x i
    using that links_i [of x] data [of "mm_GetIndexFilePath P ?m x" i] mp(2) [of x] d(8)
    by (auto split: if_splits)
  moreover have "fs_links ?fs2 (mm_GetDataFilePath P ?m x) = None" if "x \<notin> set (mm_files m')" for x
    using that links_d [of x] r(3) d(7) [of x] by auto
  ultimately have "disk_ok P cap logs ?fs2 m'"
    using d(1,2,5) r(5) unfolding disk_ok_def names paths_ok_def by simp
  moreover have "cache_ok P cap ?s"
  proof -
    have c: "lru_ok (fm_open_files s)" "cache_sound lru_lookup (handle_ok P cap ?fs ?m) (fm_open_files s)"
      using cok by (simp_all add: cache_ok_def)
    have "lru_lookup (snd (lru_Remove fid (fm_open_files s))) = (lru_lookup (fm_open_files s))(fid := None)"
      using lru.remove_lookup [OF c(1), of fid] by simp
    then show ?thesis
      using c lru.remove_inv [OF c(1), of fid] links_d
      by (auto simp: cache_ok_def cache_sound_def handle_ok_def names)
  qed
  moreover have "active_ok P cap logs ?s"
    using aok inactive links_d links_i r(3) unfolding active_ok_def by (auto simp: names)
  ultimately show ?thesis using rm r by (auto simp: fm_ok_def)
qed

section \<open>The opener of the read cache\<close>

text \<open>
  The lambda that \<^verbatim>\<open>DBImpl\<close> hands to the read cache acquires a data file. The view
  leaves out the cache of open files, the only part that it changes. The active file can be
  opened like any other, but its content does not stay the same.
\<close>

definition fm_view :: "'a fm \<Rightarrow> 'a fm" where
  "fm_view s = s\<lparr>fm_open_files := lru_init 0\<rparr>"

definition fm_holds :: "'a pedrolib \<Rightarrow> 'a fm \<Rightarrow> file_id \<Rightarrow> bytes \<Rightarrow> bool" where
  "fm_holds P v fid c \<longleftrightarrow> fid \<in> set (mm_files (fm_meta v)) \<and>
     (\<exists>i. fs_links (fm_fs v) (mm_GetDataFilePath P (fm_meta v) fid) = Some i \<and> c = fs_data (fm_fs v) i)"

definition fm_good :: "'a pedrolib \<Rightarrow> nat \<Rightarrow> io \<Rightarrow> (file_id \<Rightarrow> rec_entry list) \<Rightarrow> 'a fm \<Rightarrow> bool" where
  "fm_good P cap io logs s \<longleftrightarrow> pedrolib_ok P \<and> io_good io \<and> fm_ok P cap logs s"

definition fm_reads :: "'a fm \<Rightarrow> rfile \<Rightarrow> bytes \<Rightarrow> bool" where
  "fm_reads s f c \<longleftrightarrow> rf_inv (fm_fs s) f \<and> fs_data (fm_fs s) (rf_ino f) = c"

lemma fm_view_simps [simp]:
  "fm_fs (fm_view s) = fm_fs s" "fm_meta (fm_view s) = fm_meta s"
  "fm_active_id (fm_view s) = fm_active_id s" "fm_view (s\<lparr>fm_open_files := c\<rparr>) = fm_view s"
  by (simp_all add: fm_view_def)

lemma fm_view_eq: "fm_view s' = fm_view s \<longleftrightarrow> (\<exists>c. s' = s\<lparr>fm_open_files := c\<rparr>)"
proof
  assume "fm_view s' = fm_view s"
  then have "s' = s\<lparr>fm_open_files := fm_open_files s'\<rparr>" by (cases s; cases s') (simp add: fm_view_def)
  then show "\<exists>c. s' = s\<lparr>fm_open_files := c\<rparr>" ..
qed auto

text \<open>The content of a file is determined by its log.\<close>

definition log_image :: "'a pedrolib \<Rightarrow> nat \<Rightarrow> rec_entry list \<Rightarrow> bytes" where
  "log_image P cap es = log_bytes P es @ replicate (cap - log_size es) 0"

lemma fm_holds_log:
  assumes "disk_ok P cap logs (fm_fs s) (fm_meta s)"
  shows "fm_holds P s fid c \<longleftrightarrow> fid \<in> set (mm_files (fm_meta s)) \<and> c = log_image P cap (logs fid)"
  using disk_okD(6) [OF assms, of fid] unfolding fm_holds_def log_file_def log_image_def by auto

interpretation fm_opener: file_opener "fm_AcquireDataFile P io" "\<lambda>s. rf_ops (fm_fs s)"
  "fm_good P cap io logs" fm_view "fm_holds P" fm_reads for P cap io logs
proof
  fix s fid c
  assume g: "fm_good P cap io logs s" and h: "fm_holds P (fm_view s) fid c"
  have P: "pedrolib_ok P" and io: "io_good io" and ok: "fm_ok P cap logs s"
    using g by (simp_all add: fm_good_def)
  from h obtain i where i: "fid \<in> set (mm_files (fm_meta s))"
    "fs_links (fm_fs s) (mm_GetDataFilePath P (fm_meta s) fid) = Some i" "c = fs_data (fm_fs s) i"
    by (auto simp: fm_holds_def)
  from fm_AcquireDataFile_ok [OF P ok io i(1)] obtain f c' where
    f: "fm_AcquireDataFile P io fid s = (kOk, Some f, s\<lparr>fm_open_files := c'\<rparr>)"
      "fm_ok P cap logs (s\<lparr>fm_open_files := c'\<rparr>)" "rf_inv (fm_fs s) f"
      "log_file P cap (logs fid) (fs_data (fm_fs s) (rf_ino f))" by blast
  have "log_file P cap (logs fid) c" using ok i by (auto simp: fm_ok_def intro: disk_ok_log)
  then have "fs_data (fm_fs s) (rf_ino f) = c" using f(4) by (simp add: log_file_def)
  then have "fm_reads (s\<lparr>fm_open_files := c'\<rparr>) f c" using f(3) by (simp add: fm_reads_def)
  then show "\<exists>f s'. fm_AcquireDataFile P io fid s = (kOk, Some f, s') \<and> fm_good P cap io logs s'
      \<and> fm_view s' = fm_view s \<and> fm_reads s' f c"
    using f P io by (intro exI [of _ f] exI [of _ "s\<lparr>fm_open_files := c'\<rparr>"]) (simp add: fm_good_def)
next
  fix s f c off n
  assume "fm_reads s f c" "off + n \<le> length c"
  then show "f_Read (rf_ops (fm_fs s)) f off n = Some (slice c off n)"
    using rf.read_content [of "fm_fs s" f off n] by (simp add: fm_reads_def)
qed (auto simp: fm_holds_def)

section \<open>Init\<close>

text \<open>\<^verbatim>\<open>Init\<close> of the metadata manager, on no file and on the file of a database.\<close>

definition path_valid :: "path \<Rightarrow> bool" where
  "path_valid p \<longleftrightarrow> find_last_of (str ''.db'') p = size_sub (length p) 1 \<and> length p < 65536"

lemma mm_Init_existing:
  assumes P: "pedrolib_ok P" and ok: "mm_ok P fs m" and p: "path_valid (mm_path m)" and io: "io_good io"
  shows "mm_Init P io (mm_new (mm_path m)) fs = Some (kOk, m, fs)"
proof -
  from ok obtain i es where m: "mm_file m = Some (i, length (fs_data fs i))"
    "fs_links fs (mm_path m) = Some i" "fs_data fs i = meta_header_bytes P (mm_name m) @ meta_log_bytes P es"
    unfolding mm_ok_def by blast
  have ne: "length (fs_data fs i) \<noteq> 0"
    using length_meta_header_bytes [of P "mm_name m"] P unfolding m(3) by simp
  let ?n = "mm_new (mm_path m)\<lparr>mm_name := take (size_sub (length (mm_path m)) 3) (mm_path m),
    mm_file := Some (i, 0)\<rparr>"
  have "mm_Recovery P ?n fs = Some (kOk, m)"
    using mm_Recovery_ok [OF P ok _ m(2), of ?n] by (simp add: mm_new_def)
  then show ?thesis
    using p m(1,2) ne io by (simp add: mm_Init_def path_valid_def mm_new_def fs_open_def Let_def)
qed

lemma mm_Init_fresh:
  assumes P: "pedrolib_ok P" and p: "path_valid p" "fs_links fs p = None" and io: "io_good io"
  shows "\<exists>m fs'. mm_Init P io (mm_new p) fs = Some (kOk, m, fs') \<and> mm_ok P fs' m
     \<and> mm_files m = [] \<and> mm_path m = p \<and> mm_name m = take (size_sub (length p) 3) p
     \<and> fs_links fs' = (fs_links fs)(p \<mapsto> fs_next fs) \<and> fs_next fs' = Suc (fs_next fs)"
proof -
  have A: "array_buffer_ok P" "codec_ok P" using P by simp_all
  let ?name = "take (size_sub (length p) 3) p"
  let ?xs = "meta_header_bytes P ?name"
  have "length ?name < 65536" using p by (simp add: path_valid_def min.strict_coboundedI1)
  moreover have "ab_bytes P (meta_header_pack P ?name (ab_new P)) = ?xs"
    using A by simp
  ultimately show ?thesis
    using p io
    by (auto simp: mm_Init_def mm_new_def path_valid_def fs_open_def mm_CreateDatabase_def mm_write_def
        fs_write_def overwrite_def mm_ok_def Let_def intro: exI [of _ "[]"])
qed

text \<open>\<^verbatim>\<open>Init\<close> of the file manager, on no files and on the files of a database.\<close>

lemma cache_ok_new: "cache_ok P cap (fm_new fs m k)"
  by (simp add: cache_ok_def fm_new_def lru_ok_init cache_sound_def lru_lookup_def)
    (simp add: lru_init_def)

lemma fm_Init_fresh:
  fixes P :: "'a pedrolib"
  assumes P: "pedrolib_ok P" and dok: "disk_ok P cap logs fs m" and io: "io_good io"
    and files: "mm_files m = []" and idx: "\<And>fid. fs_links fs (mm_GetIndexFilePath P m fid) = None"
  shows "\<exists>s'. fm_Init P cap io (fm_new fs m k) = Some (kOk, s')
     \<and> fm_ok P cap (logs(1 := [])) s' \<and> fm_active_id s' = 1 \<and> mm_files (fm_meta s') = [1]
     \<and> mm_name (fm_meta s') = mm_name m \<and> mm_path (fm_meta s') = mm_path m"
proof -
  let ?s = "fm_new fs m k :: 'a fm"
  have s: "fm_fs ?s = fs" "fm_meta ?s = m" "fm_pending (fm_retire ?s) = []"
    by (simp_all add: fm_new_def fm_retire_def)
  have d: "disk_ok P cap logs (fm_fs ?s) (fm_meta ?s)" using dok s by simp
  show ?thesis
    using fm_CreateFile_new [OF P d cache_ok_new io, of 1] files idx s
    by (auto simp: fm_Init_def mm_GetFiles_def)
qed

lemma sorted_le_last: "sorted xs \<Longrightarrow> x \<in> set xs \<Longrightarrow> x \<le> last xs"
  by (induction xs) auto

text \<open>The last file becomes the active one; nothing else is looked at.\<close>

lemma fm_Init_active:
  assumes P: "pedrolib_ok P" and io: "io_good io" and files: "mm_files m \<noteq> []" and cap: "14 < cap" "cap < 2 ^ 32"
    and i: "fs_links fs (mm_GetDataFilePath P m (last (mm_files m))) = Some i" "log_file P cap es (fs_data fs i)"
  shows "\<exists>log. fm_Init P cap io (fm_new fs m k) = Some (kOk, (fm_new fs m k)\<lparr>fm_index_log := Some log,
       fm_data_file := Some \<lparr>mrw_ino = i, mrw_write_index = log_size es, mrw_length = cap\<rparr>,
       fm_active_id := last (mm_files m)\<rparr>)
     \<and> ab_bytes P log = idx_log_bytes P (log_index 0 es)"
proof -
  let ?a = "last (mm_files m)" and ?s = "fm_new fs m k"
  have a: "?a \<in> set (mm_files m)" using files by simp
  let ?f = "\<lparr>mrw_ino = i, mrw_write_index = 0, mrw_length = cap\<rparr>"
  have len: "length (fs_data fs i) = cap" using log_file_length [OF _ i(2)] P by simp
  have op: "mrw_Open io (mm_GetDataFilePath P m ?a) cap fs = (Inr ?f, fs)"
    by (rule mrw_Open_existing) (use i io len cap in \<open>simp_all add: size_max_def\<close>)
  obtain log where rb: "fm_rebuild P (readable_buffer_new (fs_data fs i) cap) 0 (ab_new P)
      = Some (of_nat (log_size es), log)" "ab_bytes P log = idx_log_bytes P (log_index 0 es)"
    using fm_rebuild_file [OF P i(2) cap(2)] by blast
  have sz: "log_size es < 2 ^ 32" using i(2) cap(2) by (simp add: log_file_def)
  let ?g = "?f\<lparr>mrw_write_index := log_size es\<rparr>"
  have g: "(if (of_nat (log_size es) :: u32) \<noteq> 0
      then mrw_SetWriteOffset (unat (of_nat (log_size es) :: u32)) ?f else ?f) = ?g"
  proof (cases "log_size es = 0")
    case False
    then have "(of_nat (log_size es) :: u32) \<noteq> 0" using sz unat_of_nat32 by (metis unat_0)
    then show ?thesis using sz by (simp add: mrw_SetWriteOffset_def)
  qed simp
  have "fm_Init P cap io ?s = Some (kOk, ?s\<lparr>fm_index_log := Some log, fm_data_file := Some ?g, fm_active_id := ?a\<rparr>)"
    using files a op rb(1) g
    by (simp add: fm_Init_def fm_Recovery_def fm_CreateFile_def fm_retire_def fm_new_def mm_GetFiles_def
        mrw_GetReadableBuffer_def mm_CreateFile_def Let_def)
  then show ?thesis using rb(2) by (intro exI [of _ log]) simp
qed

lemma fm_Init_existing:
  assumes P: "pedrolib_ok P" and dok: "disk_ok P cap logs fs m" and io: "io_good io"
    and files: "mm_files m \<noteq> []"
    and idx: "\<And>fid. fs_links fs (mm_GetIndexFilePath P m fid) \<noteq> None \<Longrightarrow> fid < last (mm_files m)"
  shows "\<exists>s'. fm_Init P cap io (fm_new fs m k) = Some (kOk, s') \<and> fm_ok P cap logs s'
     \<and> fm_fs s' = fs \<and> fm_meta s' = m \<and> fm_active_id s' = last (mm_files m)"
proof -
  let ?a = "last (mm_files m)" and ?s = "fm_new fs m k"
  note d = disk_okD [OF dok]
  have a: "?a \<in> set (mm_files m)" using files by simp
  have le: "fid \<le> ?a" if "fid \<in> set (mm_files m)" for fid
    using mm_ok_files [OF d(4)] that sorted_le_last by blast
  from d(6) [OF a] obtain i where i: "fs_links fs (mm_GetDataFilePath P m ?a) = Some i"
    "log_file P cap (logs ?a) (fs_data fs i)" by blast
  from fm_Init_active [OF P io files d(1,2) i, of k] obtain log where r:
    "fm_Init P cap io ?s = Some (kOk, ?s\<lparr>fm_index_log := Some log,
       fm_data_file := Some \<lparr>mrw_ino = i, mrw_write_index = log_size (logs ?a), mrw_length = cap\<rparr>, fm_active_id := ?a\<rparr>)"
    "ab_bytes P log = idx_log_bytes P (log_index 0 (logs ?a))" by blast
  let ?t = "?s\<lparr>fm_index_log := Some log,
       fm_data_file := Some \<lparr>mrw_ino = i, mrw_write_index = log_size (logs ?a), mrw_length = cap\<rparr>, fm_active_id := ?a\<rparr>"
  have "active_ok P cap logs ?t"
    using a le idx i(1) r(2) by (auto simp: active_ok_def fm_new_def)
  moreover have "cache_ok P cap ?t"
    by (rule cache_ok_mono [OF cache_ok_new [of P cap fs m k]]) (simp_all add: fm_new_def)
  ultimately show ?thesis
    using dok r(1) by (intro exI [of _ ?t]) (simp add: fm_ok_def fm_new_def)
qed

end
