(* ===== verification/DBIndex.thy ===== *)
theory DBIndex
  imports DBImpl FileManagerSpec
begin

text \<open>
  The index of the database against the logs of its files. \<open>replay\<close> is the abstract
  specification of the index: the sets and deletions of all logs, in the order of the files.
  \<open>index_ok\<close> says that every entry of the index leads to a record of its key. Appending a
  record to the files extends the replay by exactly this record.
\<close>

section \<open>Replaying logs\<close>

type_synonym index = "bytes \<Rightarrow> dir option"

definition replay_entry :: "location \<Rightarrow> rec_entry \<Rightarrow> index \<Rightarrow> index" where
  "replay_entry loc e m =
     (if re_type e = kSet then m(re_key e \<mapsto> \<lparr>dir_entry_size = rec_sizeof e, dir_loc = loc\<rparr>)
      else if re_type e = kDelete then m(re_key e := None) else m)"

fun replay_log :: "file_id \<Rightarrow> nat \<Rightarrow> rec_entry list \<Rightarrow> index \<Rightarrow> index" where
  "replay_log fid off [] m = m"
| "replay_log fid off (e # es) m =
     replay_log fid (off + rec_size e) es (replay_entry (Location fid (of_nat off)) e m)"

definition replay :: "(file_id \<Rightarrow> rec_entry list) \<Rightarrow> file_id list \<Rightarrow> index \<Rightarrow> index" where
  "replay logs files m = foldl (\<lambda>m fid. replay_log fid 0 (logs fid) m) m files"

lemma replay_simps [simp]:
  "replay logs [] m = m"
  "replay logs (fid # fids) m = replay logs fids (replay_log fid 0 (logs fid) m)"
  "replay logs (fids @ fids') m = replay logs fids' (replay logs fids m)"
  by (simp_all add: replay_def)

lemma replay_cong: "(\<And>fid. fid \<in> set files \<Longrightarrow> logs' fid = logs fid) \<Longrightarrow> replay logs' files m = replay logs files m"
  by (induction files arbitrary: m) simp_all

lemma replay_log_snoc:
  "replay_log fid off (es @ [e]) m
     = replay_entry (Location fid (of_nat (off + log_size es))) e (replay_log fid off es m)"
  by (induction fid off es m rule: replay_log.induct) (simp_all add: add.assoc)

section \<open>Indices that lead to records\<close>

definition dir_ok :: "(file_id \<Rightarrow> rec_entry list) \<Rightarrow> file_id list \<Rightarrow> bytes \<Rightarrow> dir \<Rightarrow> bool" where
  "dir_ok logs files k d \<longleftrightarrow> loc_id (dir_loc d) \<in> set files \<and>
     (\<exists>e. log_at (logs (loc_id (dir_loc d))) (unat (loc_offset (dir_loc d))) = Some e
        \<and> re_type e = kSet \<and> re_key e = k \<and> dir_entry_size d = rec_sizeof e)"

definition index_ok :: "(file_id \<Rightarrow> rec_entry list) \<Rightarrow> file_id list \<Rightarrow> index \<Rightarrow> bool" where
  "index_ok logs files idx \<longleftrightarrow> (\<forall>k d. idx k = Some d \<longrightarrow> dir_ok logs files k d)"

definition records_valid :: "'a pedrolib \<Rightarrow> (file_id \<Rightarrow> rec_entry list) \<Rightarrow> file_id list \<Rightarrow> bool" where
  "records_valid P logs files \<longleftrightarrow> (\<forall>fid \<in> set files. \<forall>e \<in> set (logs fid). rec_validate P e)"

section \<open>Appending a record\<close>

text \<open>
  What a successful append does: the record goes behind the active log, or into a new file behind
  all others.
\<close>

definition appended ::
    "nat \<Rightarrow> (file_id \<Rightarrow> rec_entry list) \<Rightarrow> 'a fm \<Rightarrow> rec_entry \<Rightarrow> location \<Rightarrow> (file_id \<Rightarrow> rec_entry list)
       \<Rightarrow> 'a fm \<Rightarrow> bool" where
  "appended cap logs fm e loc logs' fm' \<longleftrightarrow>
     (let a = fm_active_id fm; a' = fm_active_id fm'; files = mm_files (fm_meta fm);
          files' = mm_files (fm_meta fm') in
      if log_size (logs a) + rec_size e \<le> cap
      then a' = a \<and> files' = files \<and> loc = Location a (of_nat (log_size (logs a)))
         \<and> logs' = logs(a := logs a @ [e])
      else a' = a + 1 \<and> a < a' \<and> files' = files @ [a'] \<and> loc = Location a' 0 \<and> logs' = logs(a' := [e]))"

lemma appendedD:
  assumes "appended cap logs fm e loc logs' fm'"
  shows "loc = Location (fm_active_id fm') (of_nat (log_size
       (if fm_active_id fm' = fm_active_id fm then logs (fm_active_id fm) else [])))
     \<and> logs' = logs(fm_active_id fm' := (if fm_active_id fm' = fm_active_id fm then logs (fm_active_id fm) else []) @ [e])
     \<and> (if fm_active_id fm' = fm_active_id fm then mm_files (fm_meta fm') = mm_files (fm_meta fm)
        else mm_files (fm_meta fm') = mm_files (fm_meta fm) @ [fm_active_id fm'] \<and> fm_active_id fm < fm_active_id fm')"
  using assms by (auto simp: appended_def Let_def split: if_splits)

lemma fm_Append_ok:
  assumes P: "pedrolib_ok P" and ok: "fm_ok P cap logs s" and e: "rec_wf e" and io: "io_good io"
    and fits: "rec_size e \<le> cap" and more: "fm_active_id s \<noteq> -1"
  shows "\<exists>loc s' logs'. fm_Append P cap io e s = Some (kOk, loc, s') \<and> fm_ok P cap logs' s'
     \<and> appended cap logs s e loc logs' s'
     \<and> mm_name (fm_meta s') = mm_name (fm_meta s) \<and> mm_path (fm_meta s') = mm_path (fm_meta s)
     \<and> links_kept P s s' \<and> unat (fm_active_id s') \<le> Suc (unat (fm_active_id s))"
proof (cases "log_size (logs (fm_active_id s)) + rec_size e \<le> cap")
  case True
  from fm_Append_fits [OF P ok e True, of io] True show ?thesis
    by (fastforce simp: appended_def Let_def)
next
  case False
  then have full: "cap < log_size (logs (fm_active_id s)) + rec_size e" by simp
  have "fm_active_id s \<noteq> fm_active_id s + 1" "fm_active_id s < fm_active_id s + 1"
    using u32_succ(1) [OF more] by auto
  moreover have "unat (fm_active_id s + 1) \<le> Suc (unat (fm_active_id s))" using u32_succ(3) [OF more] by simp
  ultimately show ?thesis
    using fm_Append_rolls [OF P ok e io full fits more] False by (fastforce simp: appended_def Let_def)
qed

lemma active_files:
  assumes "fm_ok P cap logs fm"
  shows "mm_files (fm_meta fm) = butlast (mm_files (fm_meta fm)) @ [fm_active_id fm]"
    and "fm_active_id fm \<notin> set (butlast (mm_files (fm_meta fm)))"
    and "fid \<in> set (mm_files (fm_meta fm)) \<Longrightarrow> fid \<le> fm_active_id fm"
    and "fm_active_id fm \<in> set (mm_files (fm_meta fm))"
proof -
  let ?files = "mm_files (fm_meta fm)" and ?a = "fm_active_id fm"
  have s: "sorted ?files" "distinct ?files"
    using assms mm_ok_files disk_okD(4) unfolding fm_ok_def by blast+
  have a: "?a \<in> set ?files" "\<forall>fid \<in> set ?files. fid \<le> ?a"
    using assms by (simp_all add: fm_ok_def active_ok_def)
  have "last ?files = ?a"
    using a sorted_le_last [OF s(1) a(1)] by (metis antisym empty_iff empty_set last_in_set)
  then show files: "?files = butlast ?files @ [?a]"
    using a(1) by (metis append_butlast_last_id empty_iff empty_set)
  show "?a \<notin> set (butlast ?files)" using s(2) files by (metis distinct_append disjoint_iff list.set_intros(1))
  show "fid \<in> set ?files \<Longrightarrow> fid \<le> ?a" "?a \<in> set ?files" using a by auto
qed

lemma location_less_iff:
  "Location a x < Location b y \<longleftrightarrow> (if a \<noteq> b then a < b else x < y)"
  unfolding less_location_def location_less_def by simp

text \<open>The consequences of an append that the database uses.\<close>

lemma appended_log_bound:
  assumes "fm_ok P cap logs fm" "fid \<in> set (mm_files (fm_meta fm))"
  shows "log_size (logs fid) \<le> cap" "cap < 2 ^ 32" "\<And>e. e \<in> set (logs fid) \<Longrightarrow> rec_wf e"
proof -
  have d: "disk_ok P cap logs (fm_fs fm) (fm_meta fm)" using assms by (simp add: fm_ok_def)
  from disk_okD(6) [OF d assms(2)] show "log_size (logs fid) \<le> cap" "\<And>e. e \<in> set (logs fid) \<Longrightarrow> rec_wf e"
    by (auto simp: log_file_def)
  show "cap < 2 ^ 32" by (rule disk_okD(2) [OF d])
qed

lemma appended_facts:
  assumes ok: "fm_ok P cap logs fm" and ap: "appended cap logs fm e loc logs' fm'"
  shows "log_at (logs' (loc_id loc)) (unat (loc_offset loc)) = Some e"
    and "loc_id loc = fm_active_id fm'" "fm_active_id fm \<le> fm_active_id fm'"
    and "set (mm_files (fm_meta fm')) = insert (fm_active_id fm') (set (mm_files (fm_meta fm)))"
    and "fid \<in> set (mm_files (fm_meta fm)) \<Longrightarrow> log_at (logs fid) off = Some x \<Longrightarrow>
         log_at (logs' fid) off = Some x"
    and "fid < fm_active_id fm \<Longrightarrow> logs' fid = logs fid"
    and "fid \<noteq> fm_active_id fm' \<Longrightarrow> logs' fid = logs fid"
    and "x \<in> set (logs' fid) \<Longrightarrow> fid \<in> set (mm_files (fm_meta fm')) \<Longrightarrow>
         x = e \<or> fid \<in> set (mm_files (fm_meta fm)) \<and> x \<in> set (logs fid)"
    and "fid \<in> set (mm_files (fm_meta fm)) \<Longrightarrow> log_at (logs fid) (unat off') = Some x \<Longrightarrow>
         Location fid off' < loc"
    and "replay logs' (mm_files (fm_meta fm')) m = replay_entry loc e (replay logs (mm_files (fm_meta fm)) m)"
proof -
  let ?a = "fm_active_id fm" and ?a' = "fm_active_id fm'" and ?files = "mm_files (fm_meta fm)"
  note act = active_files [OF ok]
  have sz: "log_size (logs ?a) < 2 ^ 32" using appended_log_bound [OF ok act(4)] by simp
  note ap' = appendedD [OF ap]
  have less: "?a \<le> ?a'" and new: "?a' \<noteq> ?a \<Longrightarrow> ?a' \<notin> set ?files"
    using ap' act(3) [of ?a'] by (auto split: if_splits)
  show "log_at (logs' (loc_id loc)) (unat (loc_offset loc)) = Some e"
    using ap' sz by (simp add: log_at_last split: if_splits)
  show "loc_id loc = ?a'" "?a \<le> ?a'" using ap' less by auto
  show "set (mm_files (fm_meta fm')) = insert ?a' (set ?files)"
    using ap' act(4) by (auto split: if_splits)
  show "log_at (logs' fid) off = Some x" if "fid \<in> set ?files" "log_at (logs fid) off = Some x"
    using that ap' new by (auto simp: log_at_append split: if_splits)
  show "logs' fid = logs fid" if "fid < ?a" using that ap' less by auto
  show "logs' fid = logs fid" if "fid \<noteq> ?a'" using that ap' by auto
  show "x = e \<or> fid \<in> set ?files \<and> x \<in> set (logs fid)"
    if "x \<in> set (logs' fid)" "fid \<in> set (mm_files (fm_meta fm'))"
    using that ap' act(4) by (auto split: if_splits)
  show "Location fid off' < loc" if "fid \<in> set ?files" "log_at (logs fid) (unat off') = Some x"
  proof (cases "fid = ?a'")
    case True
    then have e: "?a' = ?a" using new that(1) by blast
    have "unat off' < log_size (logs ?a)"
      using log_at_bound [OF that(2)] rec_size_pos(1) [of x] unfolding True e by linarith
    then have "off' < of_nat (log_size (logs ?a))" unfolding word_less_nat_alt unat_of_nat32 [OF sz] .
    moreover have "loc = Location ?a (of_nat (log_size (logs ?a)))" using ap' e by simp
    ultimately show ?thesis unfolding True e by (simp add: location_less_iff)
  next
    case False
    then have "fid < ?a'" using act(3) [OF that(1)] less by simp
    then show ?thesis using ap' False by (simp add: location_less_iff)
  qed
  show "replay logs' (mm_files (fm_meta fm')) m = replay_entry loc e (replay logs ?files m)"
  proof (cases "?a' = ?a")
    case True
    have "replay logs' (butlast ?files) m = replay logs (butlast ?files) m"
      using ap' True act(2) by (intro replay_cong) auto
    moreover have l: "logs' ?a = logs ?a @ [e]" "loc = Location ?a (of_nat (log_size (logs ?a)))"
      "mm_files (fm_meta fm') = ?files"
      using ap' True by simp_all
    ultimately have "replay logs' (butlast ?files @ [?a]) m
        = replay_entry loc e (replay logs (butlast ?files @ [?a]) m)"
      unfolding replay_simps l(1,2) replay_log_snoc by simp
    then show ?thesis unfolding l(3) act(1) [symmetric] .
  next
    case False
    have "replay logs' ?files m = replay logs ?files m"
      using ap' new [OF False] False by (intro replay_cong) auto
    then show ?thesis using ap' False by simp
  qed
qed

section \<open>Index updates\<close>

lemma replay_entry_cases:
  "re_type e = kSet \<Longrightarrow> replay_entry loc e m = m(re_key e \<mapsto> \<lparr>dir_entry_size = rec_sizeof e, dir_loc = loc\<rparr>)"
  "re_type e = kDelete \<Longrightarrow> replay_entry loc e m = m(re_key e := None)"
  by (simp_all add: replay_entry_def)

text \<open>Older entries stay good when a record is appended, and the new one is.\<close>

lemma dir_ok_appended:
  assumes "fm_ok P cap logs fm" "appended cap logs fm e loc logs' fm'"
    and "dir_ok logs (mm_files (fm_meta fm)) k d"
  shows "dir_ok logs' (mm_files (fm_meta fm')) k d"
  using assms(3) appended_facts(4,5) [OF assms(1,2)] unfolding dir_ok_def by blast

lemma index_ok_appended:
  assumes "fm_ok P cap logs fm" "appended cap logs fm e loc logs' fm'"
    and "index_ok logs (mm_files (fm_meta fm)) idx"
  shows "index_ok logs' (mm_files (fm_meta fm')) idx"
    and "index_ok logs' (mm_files (fm_meta fm')) (replay_entry loc e idx)"
proof -
  show i: "index_ok logs' (mm_files (fm_meta fm')) idx"
    using assms(3) dir_ok_appended [OF assms(1,2)] by (simp add: index_ok_def)
  have "dir_ok logs' (mm_files (fm_meta fm')) (re_key e) \<lparr>dir_entry_size = rec_sizeof e, dir_loc = loc\<rparr>"
    if "re_type e = kSet"
    using that appended_facts(1,2,4) [OF assms(1,2)] by (simp add: dir_ok_def)
  with i show "index_ok logs' (mm_files (fm_meta fm')) (replay_entry loc e idx)"
    by (simp add: index_ok_def replay_entry_def)
qed

lemma records_valid_appended:
  assumes "fm_ok P cap logs fm" "appended cap logs fm e loc logs' fm'"
    and "records_valid P logs (mm_files (fm_meta fm))" "rec_validate P e"
  shows "records_valid P logs' (mm_files (fm_meta fm'))"
  using assms(3,4) appended_facts(8) [OF assms(1,2)] unfolding records_valid_def by blast

text \<open>The blocks of files that are no longer written stay those of the file.\<close>

lemma rc_cache_ok_appended:
  assumes ok: "fm_ok P cap logs fm" "fm_ok P cap logs' fm'" and ap: "appended cap logs fm e loc logs' fm'"
    and bc: "rc_cache_ok P (fm_holds P fm) (\<lambda>fid. fid < fm_active_id fm) bc"
  shows "rc_cache_ok P (fm_holds P fm') (\<lambda>fid. fid < fm_active_id fm') bc"
proof (rule rc_cache_ok_mono [OF bc])
  have d: "disk_ok P cap logs (fm_fs fm) (fm_meta fm)" "disk_ok P cap logs' (fm_fs fm') (fm_meta fm')"
    using ok by (simp_all add: fm_ok_def)
  show "fm_holds P fm fid c" if "fid < fm_active_id fm" "fm_holds P fm' fid c" for fid c
    using that appended_facts(3,4,6) [OF ok(1) ap] unfolding fm_holds_log [OF d(1)] fm_holds_log [OF d(2)]
    by auto
  show "fid < fm_active_id fm'" if "fid < fm_active_id fm" for fid
    using that appended_facts(3) [OF ok(1) ap] by simp
qed

section \<open>The invariant of the database\<close>

text \<open>
  \<open>db_current\<close>: the copy of the active file's number that a get consults is up to date.
  \<open>db_recoverable\<close>: the index is the replay of the files.
\<close>

definition db_files :: "'a db \<Rightarrow> file_id list" where
  "db_files s = mm_files (fm_meta (db_fm s))"

definition db_active :: "'a db \<Rightarrow> file_id" where
  "db_active s = fm_active_id (db_fm s)"

definition db_ok :: "'a pedrolib \<Rightarrow> nat \<Rightarrow> (file_id \<Rightarrow> rec_entry list) \<Rightarrow> 'a db \<Rightarrow> bool" where
  "db_ok P cap logs s \<longleftrightarrow> fm_ok P cap logs (db_fm s)
     \<and> index_ok logs (db_files s) (db_indices s)
     \<and> records_valid P logs (db_files s)
     \<and> rc_cache_ok P (fm_holds P (db_fm s)) (\<lambda>fid. fid < db_active s) (db_read_cache s)
     \<and> db_max_file s \<le> db_active s \<and> 4096 dvd cap"

definition db_current :: "'a db \<Rightarrow> bool" where
  "db_current s \<longleftrightarrow> db_max_file s = db_active s"

definition db_recoverable :: "(file_id \<Rightarrow> rec_entry list) \<Rightarrow> 'a db \<Rightarrow> bool" where
  "db_recoverable logs s \<longleftrightarrow> db_indices s = replay logs (db_files s) (\<lambda>_. None)"

text \<open>The abstract state: the map from keys to values.\<close>

definition db_abs ::
    "'a pedrolib \<Rightarrow> (file_id \<Rightarrow> rec_entry list) \<Rightarrow> 'a db \<Rightarrow> bytes \<Rightarrow> bytes option" where
  "db_abs P logs s k = (case db_indices s k of None \<Rightarrow> None
     | Some d \<Rightarrow> map_option (db_value P s)
         (log_at (logs (loc_id (dir_loc d))) (unat (loc_offset (dir_loc d)))))"

text \<open>
  \<open>db_sane\<close> is the invariant without the checksums, which a crash in the middle of a put can
  leave wrong. \<open>db_record\<close> is the record that the index leads to.
\<close>

definition db_sane :: "'a pedrolib \<Rightarrow> nat \<Rightarrow> (file_id \<Rightarrow> rec_entry list) \<Rightarrow> 'a db \<Rightarrow> bool" where
  "db_sane P cap logs s \<longleftrightarrow> fm_ok P cap logs (db_fm s)
     \<and> index_ok logs (db_files s) (db_indices s)
     \<and> rc_cache_ok P (fm_holds P (db_fm s)) (\<lambda>fid. fid < db_active s) (db_read_cache s)
     \<and> db_max_file s \<le> db_active s \<and> 4096 dvd cap"

definition db_record :: "(file_id \<Rightarrow> rec_entry list) \<Rightarrow> 'a db \<Rightarrow> bytes \<Rightarrow> rec_entry option" where
  "db_record logs s k = (case db_indices s k of None \<Rightarrow> None
     | Some d \<Rightarrow> log_at (logs (loc_id (dir_loc d))) (unat (loc_offset (dir_loc d))))"

lemma db_ok_sane: "db_ok P cap logs s \<longleftrightarrow> db_sane P cap logs s \<and> records_valid P logs (db_files s)"
  by (auto simp: db_ok_def db_sane_def)

lemma db_abs_record: "db_abs P logs s k = map_option (db_value P s) (db_record logs s k)"
  by (simp add: db_abs_def db_record_def split: option.split)

lemma db_saneD:
  assumes "db_sane P cap logs s"
  shows "fm_ok P cap logs (db_fm s)" "index_ok logs (db_files s) (db_indices s)"
    "rc_cache_ok P (fm_holds P (db_fm s)) (\<lambda>fid. fid < db_active s) (db_read_cache s)"
    "db_max_file s \<le> db_active s" "4096 dvd cap"
  using assms unfolding db_sane_def by blast+

lemma db_okD:
  assumes "db_ok P cap logs s"
  shows "fm_ok P cap logs (db_fm s)" "index_ok logs (db_files s) (db_indices s)"
    "records_valid P logs (db_files s)"
    "rc_cache_ok P (fm_holds P (db_fm s)) (\<lambda>fid. fid < db_active s) (db_read_cache s)"
    "db_max_file s \<le> db_active s" "4096 dvd cap"
  using assms unfolding db_ok_def by blast+

lemma index_okE:
  assumes "index_ok logs files idx" "idx k = Some d"
  obtains e where "loc_id (dir_loc d) \<in> set files"
    "log_at (logs (loc_id (dir_loc d))) (unat (loc_offset (dir_loc d))) = Some e"
    "re_type e = kSet" "re_key e = k" "dir_entry_size d = rec_sizeof e"
  using assms unfolding index_ok_def dir_ok_def by blast

lemma db_abs_None: "db_ok P cap logs s \<Longrightarrow> db_abs P logs s k = None \<longleftrightarrow> db_indices s k = None"
  using db_okD(2) by (fastforce simp: db_abs_def index_ok_def dir_ok_def split: option.splits)

section \<open>What the operations leave alone\<close>

lemma set_file_state_simps [simp]:
  "db_options (set_file_state fid st s) = db_options s"
  "db_max_file (set_file_state fid st s) = db_max_file s"
  "db_indices (set_file_state fid st s) = db_indices s"
  "db_fm (set_file_state fid st s) = db_fm s"
  "db_readonly (set_file_state fid st s) = db_readonly s"
  "db_read_cache (set_file_state fid st s) = db_read_cache s"
  "db_buf (set_file_state fid st s) = db_buf s"
  "db_failed_count (set_file_state fid st s) = db_failed_count s"
  "db_compact_tasks (set_file_state fid st s) = db_compact_tasks s"
  by (simp_all add: set_file_state_def)

lemma db_UpdateUnused_simps [simp]:
  "db_options (db_UpdateUnused loc n s) = db_options s"
  "db_max_file (db_UpdateUnused loc n s) = db_max_file s"
  "db_indices (db_UpdateUnused loc n s) = db_indices s"
  "db_fm (db_UpdateUnused loc n s) = db_fm s"
  "db_readonly (db_UpdateUnused loc n s) = db_readonly s"
  "db_read_cache (db_UpdateUnused loc n s) = db_read_cache s"
  "db_buf (db_UpdateUnused loc n s) = db_buf s"
  "db_failed_count (db_UpdateUnused loc n s) = db_failed_count s"
  by (simp_all add: db_UpdateUnused_def Let_def)

lemma db_value_cong: "db_options s' = db_options s \<Longrightarrow> db_value P s' = db_value P s"
  by (rule ext) (simp add: db_value_def)

end
