(* ===== verification/DBPutGet.thy ===== *)
theory DBPutGet
  imports DBIndex
begin

text \<open>
  Puts, deletions and gets against the map from keys to values. A put of a record that fits
  updates the map at its key and keeps the invariant, whether it stays in the active file or opens
  the next one; a get returns the value of the map, except for a record that ends exactly at the
  end of its file, which the direct path reports as corrupt.
\<close>

section \<open>Put\<close>

lemma db_put_index_ok:
  assumes "re_key e = key" "re_type e = (if val = [] then kDelete else kSet)"
    and r: "db_put_index key val e loc s = (st, s')"
  shows "st = (if val = [] \<and> db_indices s key = None then kNotFound else kOk)"
    and "db_indices s' = replay_entry loc e (db_indices s)"
    and "db_max_file s' = max (db_max_file s) (loc_id loc)"
    and "db_fm s' = db_fm s" "db_options s' = db_options s" "db_read_cache s' = db_read_cache s"
    and "db_readonly s' = db_readonly s" "db_failed_count s' = db_failed_count s" "db_buf s' = db_buf s"
proof -
  have same: "m(k := None) = m" if "m k = None" for m :: index and k using that by auto
  show "st = (if val = [] \<and> db_indices s key = None then kNotFound else kOk)"
    "db_indices s' = replay_entry loc e (db_indices s)"
    "db_max_file s' = max (db_max_file s) (loc_id loc)"
    "db_fm s' = db_fm s" "db_options s' = db_options s" "db_read_cache s' = db_read_cache s"
    "db_readonly s' = db_readonly s" "db_failed_count s' = db_failed_count s" "db_buf s' = db_buf s"
    using assms same [of "db_indices s" key]
    by (auto simp: db_put_index_def replay_entry_cases Let_def split: option.splits if_splits)
qed

lemma db_entry_simps [simp]:
  "re_key (db_entry P s key val) = key"
  "re_type (db_entry P s key val) = (if val = [] then kDelete else kSet)"
  "rec_validate P (db_entry P s key val)"
  by (simp_all add: db_entry_def rec_validate_def Let_def)

lemma db_value_entry:
  "pedrolib_ok P \<Longrightarrow> db_options s' = db_options s \<Longrightarrow> db_value P s' (db_entry P s key val) = val"
  using pedrolib_snappy [of P] by (simp add: db_value_def db_entry_def Let_def snappy_ok_def)

text \<open>
  What a put can write: a key whose length fits its byte, and a record that fits a file, that is
  what the code checks, and whose size fits 32 bits, that is what it does not.
\<close>

definition db_fits :: "'a pedrolib \<Rightarrow> nat \<Rightarrow> 'a db \<Rightarrow> bytes \<Rightarrow> bytes \<Rightarrow> bool" where
  "db_fits P cap s key val \<longleftrightarrow> length key < 256 \<and> rec_size (db_entry P s key val) \<le> cap"

lemma db_fits_wf: "db_fits P cap s key val \<Longrightarrow> cap < 2 ^ 32 \<Longrightarrow> rec_wf (db_entry P s key val)"
  by (simp add: db_fits_def rec_wf_def)

text \<open>The state after a successful append and the index update.\<close>

lemma db_ok_put:
  assumes P: "pedrolib_ok P" and ok: "db_ok P cap logs s" and fm: "fm_ok P cap logs' fm'"
    and ap: "appended cap logs (db_fm s) e loc logs' fm'" and e: "rec_validate P e"
    and s': "db_fm s' = fm'" "db_indices s' = replay_entry loc e (db_indices s)"
      "db_read_cache s' = db_read_cache s" "db_max_file s' \<le> fm_active_id fm'"
  shows "db_ok P cap logs' s'"
proof -
  note d = db_okD [OF ok] and f = db_okD(1) [OF ok]
  have "index_ok logs' (db_files s') (db_indices s')"
    using index_ok_appended(2) [OF f ap] d(2) s' by (simp add: db_files_def)
  moreover have "records_valid P logs' (db_files s')"
    using records_valid_appended [OF f ap _ e] d(3) s' by (simp add: db_files_def)
  moreover have "rc_cache_ok P (fm_holds P (db_fm s')) (\<lambda>fid. fid < db_active s') (db_read_cache s')"
    using rc_cache_ok_appended [OF f fm ap] d(4) s' by (simp add: db_active_def)
  ultimately show ?thesis using fm d(6) s' by (simp add: db_ok_def db_active_def)
qed

lemma db_abs_appended:
  assumes ok: "db_ok P cap logs s" and ap: "appended cap logs (db_fm s) e loc logs' (db_fm s')"
    and i: "db_indices s' = replay_entry loc e (db_indices s)" and opt: "db_options s' = db_options s"
  shows "db_abs P logs' s' = (if re_type e = kSet then (db_abs P logs s)(re_key e \<mapsto> db_value P s e)
     else if re_type e = kDelete then (db_abs P logs s)(re_key e := None) else db_abs P logs s)"
proof -
  note f = appended_facts [OF db_okD(1) [OF ok] ap]
  have old: "log_at (logs' (loc_id (dir_loc d))) (unat (loc_offset (dir_loc d)))
      = log_at (logs (loc_id (dir_loc d))) (unat (loc_offset (dir_loc d)))" if "db_indices s k = Some d" for k d
    by (rule index_okE [OF db_okD(2) [OF ok] that]) (use f(5) in \<open>simp add: db_files_def\<close>)
  show ?thesis
    using f(1) old db_value_cong [OF opt, of P]
    by (intro ext) (auto simp: db_abs_def i replay_entry_def split: option.splits)
qed

text \<open>
  \<^verbatim>\<open>HandlePut\<close> of a record that fits: it succeeds, except that deleting a key that
  is not there reports \<open>kNotFound\<close>; the map is updated, and recovery would give the same index.
\<close>

lemma db_HandlePut_ok:
  assumes P: "pedrolib_ok P" and ok: "db_ok P cap logs s" and io: "io_good io"
    and rw: "\<not> db_readonly s" and fits: "db_fits P cap s key val" and more: "db_active s \<noteq> -1"
  shows "\<exists>s' logs'. db_HandlePut P cap io sync key val s
       = Some (if val = [] \<and> db_abs P logs s key = None then kNotFound else kOk, s')
     \<and> db_ok P cap logs' s' \<and> db_current s'
     \<and> db_abs P logs' s' = (db_abs P logs s)(key := if val = [] then None else Some val)
     \<and> (db_recoverable logs s \<longrightarrow> db_recoverable logs' s')
     \<and> db_options s' = db_options s \<and> \<not> db_readonly s'
     \<and> unat (db_active s') \<le> Suc (unat (db_active s))
     \<and> (\<exists>loc. appended cap logs (db_fm s) (db_entry P s key val) loc logs' (db_fm s')
          \<and> db_indices s' = replay_entry loc (db_entry P s key val) (db_indices s))
     \<and> mm_path (fm_meta (db_fm s')) = mm_path (fm_meta (db_fm s))"
proof -
  let ?e = "db_entry P s key val"
  note d = db_okD [OF ok]
  have cap: "cap < 2 ^ 32" using appended_log_bound(2) [OF d(1)] active_files(4) [OF d(1)] by blast
  have e: "rec_wf ?e" by (rule db_fits_wf [OF fits cap])
  have sz: "rec_size ?e \<le> cap" using fits by (simp add: db_fits_def)
  obtain loc fm' logs' where a: "fm_Append P cap io ?e (db_fm s) = Some (kOk, loc, fm')"
    "fm_ok P cap logs' fm'" "appended cap logs (db_fm s) ?e loc logs' fm'"
    "unat (fm_active_id fm') \<le> Suc (unat (fm_active_id (db_fm s)))"
    "mm_path (fm_meta fm') = mm_path (fm_meta (db_fm s))"
    using fm_Append_ok [OF P d(1) e io sz] more by (auto simp: db_active_def)
  note f = appended_facts [OF d(1) a(3)]
  obtain st s' where r: "db_put_index key val ?e loc (s\<lparr>db_fm := fm'\<rparr>) = (st, s')" by fastforce
  note p = db_put_index_ok [OF _ _ r]
  have put: "db_HandlePut P cap io sync key val s = Some (st, s')"
    using rw a(1) r sz e by (simp add: db_HandlePut_def Let_def)
  have max: "max (db_max_file s) (loc_id loc) = fm_active_id fm'"
    using f(2,3) d(5) by (simp add: db_active_def)
  have ok': "db_ok P cap logs' s'"
    by (rule db_ok_put [OF P ok a(2,3)]) (use p max in auto)
  have "db_recoverable logs' s'" if "db_recoverable logs s"
    using that f(10) [of "\<lambda>_. None"] p(2,4) by (simp add: db_recoverable_def db_files_def)
  moreover have "db_abs P logs' s' = (db_abs P logs s)(key := if val = [] then None else Some val)"
    using db_abs_appended [OF ok, of ?e loc logs' s' ] a(3) p(2,4,5) db_value_entry [OF P, of s s key val] by simp
  moreover have "st = (if val = [] \<and> db_abs P logs s key = None then kNotFound else kOk)"
    using p(1) db_abs_None [OF ok, of key] by simp
  ultimately show ?thesis
    using put ok' p max a(3,4,5) rw
    by (intro exI [of _ s'] exI [of _ logs'] conjI exI [of _ loc]) (simp_all add: db_current_def db_active_def)
qed

text \<open>An index update that sets the key, whatever the index was.\<close>

lemma db_put_index_set:
  assumes "val \<noteq> []"
  shows "\<exists>s'. db_put_index key val e loc s = (kOk, s')
     \<and> db_indices s' = (db_indices s)(key \<mapsto> \<lparr>dir_entry_size = rec_sizeof e, dir_loc = loc\<rparr>) \<and> db_fm s' = db_fm s"
  using assms by (auto simp: db_put_index_def Let_def split: option.splits)

text \<open>The guards of \<^verbatim>\<open>HandlePut\<close>.\<close>

lemma db_HandlePut_readonly:
  "db_readonly s \<Longrightarrow> db_HandlePut P cap io sync key val s = Some (kNotSupported, s)"
  by (simp add: db_HandlePut_def)

lemma db_HandlePut_too_big:
  assumes "\<not> db_readonly s" "cap < rec_size (db_entry P s key val)" "rec_size (db_entry P s key val) < 2 ^ 32"
  shows "db_HandlePut P cap io sync key val s = Some (kNotSupported, s)"
  using assms by (simp add: db_HandlePut_def Let_def)

section \<open>Get\<close>

text \<open>A get changes only the caches and the shared buffer.\<close>

definition db_reads :: "'a db \<Rightarrow> 'a db \<Rightarrow> bool" where
  "db_reads s s' \<longleftrightarrow> (\<exists>c bc buf. s' = s\<lparr>db_fm := (db_fm s)\<lparr>fm_open_files := c\<rparr>, db_read_cache := bc,
     db_buf := buf\<rparr>)"

lemma db_reads_same:
  assumes "db_reads s s'"
  shows "db_indices s' = db_indices s" "db_options s' = db_options s" "db_readonly s' = db_readonly s"
    "db_max_file s' = db_max_file s" "db_files s' = db_files s" "db_active s' = db_active s"
    "db_abs P logs s' = db_abs P logs s" "db_recoverable logs s' = db_recoverable logs s"
    "db_current s' = db_current s" "fm_fs (db_fm s') = fm_fs (db_fm s)"
    "fm_meta (db_fm s') = fm_meta (db_fm s)" "db_value P s' = db_value P s"
    "db_fits P cap s' key val = db_fits P cap s key val"
  using assms
  by (auto simp: db_reads_def db_files_def db_active_def db_abs_def [abs_def] db_recoverable_def
      db_current_def db_value_def [abs_def] db_fits_def db_entry_def cong: option.case_cong)

lemma fm_holds_open_files [simp]: "fm_holds P (s\<lparr>fm_open_files := c\<rparr>) = fm_holds P s"
  by (simp add: fm_holds_def fun_eq_iff)

lemma db_sane_reads:
  assumes "db_sane P cap logs s" "fm_ok P cap logs ((db_fm s)\<lparr>fm_open_files := c\<rparr>)"
    and "rc_cache_ok P (fm_holds P (db_fm s)) (\<lambda>fid. fid < db_active s) bc"
  shows "db_sane P cap logs (s\<lparr>db_fm := (db_fm s)\<lparr>fm_open_files := c\<rparr>, db_read_cache := bc, db_buf := buf\<rparr>)"
  using assms by (simp add: db_sane_def db_files_def db_active_def)

lemma db_ok_reads:
  assumes "db_ok P cap logs s" "fm_ok P cap logs ((db_fm s)\<lparr>fm_open_files := c\<rparr>)"
    and "rc_cache_ok P (fm_holds P (db_fm s)) (\<lambda>fid. fid < db_active s) bc"
  shows "db_ok P cap logs (s\<lparr>db_fm := (db_fm s)\<lparr>fm_open_files := c\<rparr>, db_read_cache := bc, db_buf := buf\<rparr>)"
  using assms db_sane_reads [OF _ assms(2,3), of buf] by (simp add: db_ok_sane db_files_def)

text \<open>The bytes at an indexed location.\<close>

lemma log_at_slice:
  assumes P: "codec_ok P" and log: "log_file P cap es m" and at: "log_at es off = Some e"
  shows "slice m off (rec_size e) = rec_bytes P e" "off + rec_size e \<le> cap" "rec_wf e"
proof -
  from at obtain pre post where es: "es = pre @ e # post" "log_size pre = off"
    unfolding log_at_split by blast
  show "slice m off (rec_size e) = rec_bytes P e" using log_file_split [OF P, of cap pre e post m] log es by simp
  show "off + rec_size e \<le> cap" using log_at_bound [OF at] log by (simp add: log_file_def)
  show "rec_wf e" using log_file_wf [OF log log_at_in [OF at]] .
qed

text \<open>The direct path: the record, unless it ends at the end of the file or fails the checksum.\<close>

lemma db_get_direct_sane:
  assumes P: "pedrolib_ok P" and ok: "db_sane P cap logs s" and io: "io_good io"
    and d: "loc_id (dir_loc d) \<in> set (db_files s)"
      "log_at (logs (loc_id (dir_loc d))) (unat (loc_offset (dir_loc d))) = Some e"
  shows "\<exists>s'. db_get_direct P io d s
       = Some (if unat (loc_offset (dir_loc d)) + rec_size e = cap \<or> \<not> rec_validate P e then (kCorruption, None, s')
               else (kOk, Some (db_value P s e), s'))
     \<and> db_sane P cap logs s' \<and> db_reads s s'"
proof -
  let ?fid = "loc_id (dir_loc d)" and ?off = "loc_offset (dir_loc d)" and ?fs = "fm_fs (db_fm s)"
  note k = db_saneD [OF ok]
  have A: "array_buffer_ok P" "codec_ok P" using P by simp_all
  obtain f c where f: "fm_AcquireDataFile P io ?fid (db_fm s) = (kOk, Some f, (db_fm s)\<lparr>fm_open_files := c\<rparr>)"
    "fm_ok P cap logs ((db_fm s)\<lparr>fm_open_files := c\<rparr>)" "rf_inv ?fs f"
    "log_file P cap (logs ?fid) (fs_data ?fs (rf_ino f))" "f_Size (rf_ops ?fs) f = cap"
    using fm_AcquireDataFile_ok [OF P k(1) io, of ?fid] d(1) unfolding db_files_def by blast
  let ?F = "rf_ops ?fs"
  obtain it buf where it: "ri_Seek P ?off (ri_new ?F f) (db_buf s) = (it, buf)" by fastforce
  have at: "ri_at P ?F it buf (unat ?off)" and itf: "ri_file it = f"
    using ri_at_seek [OF A(1), of ?F ?off f "db_buf s"] it by (auto simp: ri_Seek_def ri_new_def)
  note sl = log_at_slice [OF A(2) f(4) d(2)]
  have inv: "rf_inv ?fs (ri_file it)" and slice: "slice (fs_data ?fs (rf_ino (ri_file it))) (unat ?off) (rec_size e)
      = rec_bytes P e" and size: "f_Size ?F (ri_file it) = cap"
    using f(3,5) sl(1) itf by simp_all
  let ?s' = "\<lambda>buf. s\<lparr>db_fm := (db_fm s)\<lparr>fm_open_files := c\<rparr>, db_buf := buf\<rparr>"
  have s': "db_sane P cap logs (?s' buf)" "db_reads s (?s' buf)" for buf
    using db_sane_reads [OF ok f(2) k(3), of buf] unfolding db_reads_def by (simp, metis db.surjective db.update_convs(6))
  show ?thesis
  proof (cases "unat ?off + rec_size e = cap")
    case True
    from rf.ri_Valid_at_end [OF P inv at sl(3) slice] True size obtain it' buf' where
      "ri_Valid P ?F it buf = Some (False, it', buf')" by metis
    then show ?thesis
      using f(1) it True s' [of buf'] by (simp add: db_get_direct_def Let_def)
  next
    case False
    with sl(2) size have "unat ?off + rec_size e < f_Size ?F (ri_file it)" by simp
    from rf.ri_Valid_record [OF P inv at sl(3) slice this] obtain it' buf' where
      "ri_Valid P ?F it buf = Some (True, it', buf')" "ri_entry it' = e" by blast
    moreover have "db_value P (?s' buf') = db_value P s" by (rule db_value_cong) simp
    ultimately show ?thesis
      using f(1) it False s' [of buf'] by (simp add: db_get_direct_def ri_Next_def Let_def)
  qed
qed

text \<open>
  The cached path reads every record and checks it; the blocks that it caches are those that the
  file has at the moment, also when it is still being written.
\<close>

lemma db_get_cached_any:
  assumes P: "pedrolib_ok P" and ok: "db_sane P cap logs s" and io: "io_good io"
    and d: "loc_id (dir_loc d) \<in> set (db_files s)"
      "log_at (logs (loc_id (dir_loc d))) (unat (loc_offset (dir_loc d))) = Some e"
      "dir_entry_size d = rec_sizeof e" and k: "k = unat (loc_offset (dir_loc d)) div 4096"
  shows "\<exists>c bc. db_get_cached P io d s
       = Some (if rec_validate P e
               then (kOk, Some (db_value P s e), s\<lparr>db_fm := (db_fm s)\<lparr>fm_open_files := c\<rparr>, db_read_cache := bc\<rparr>)
               else (kCorruption, None, s\<lparr>db_fm := (db_fm s)\<lparr>fm_open_files := c\<rparr>, db_read_cache := bc\<rparr>))
     \<and> fm_ok P cap logs ((db_fm s)\<lparr>fm_open_files := c\<rparr>)
     \<and> rc_cache_ok P (fm_holds P (db_fm s)) (\<lambda>x. x < db_active s \<or> x = loc_id (dir_loc d)) bc
     \<and> (rc_capacities (db_read_cache s) \<and> unat (loc_offset (dir_loc d)) + rec_size e \<le> (k + 1) * 4096 \<longrightarrow>
          rc_capacities bc \<and> rc_lookup P bc (rc_idx (loc_id (dir_loc d)) k)
            = Some (slice (log_image P cap (logs (loc_id (dir_loc d)))) (k * 4096) 4096))"
proof -
  let ?fid = "loc_id (dir_loc d)" and ?off = "loc_offset (dir_loc d)" and ?fm = "db_fm s"
  let ?A = "\<lambda>x. x < db_active s \<or> x = ?fid"
  note h = db_saneD [OF ok]
  have A: "codec_ok P" using P by simp
  have dok: "disk_ok P cap logs (fm_fs ?fm) (fm_meta ?fm)" using h(1) by (simp add: fm_ok_def)
  from disk_okD(6) [OF dok, of ?fid] d(1) obtain i where
    i: "fs_links (fm_fs ?fm) (mm_GetDataFilePath P (fm_meta ?fm) ?fid) = Some i"
      "log_file P cap (logs ?fid) (fs_data (fm_fs ?fm) i)" by (auto simp: db_files_def)
  let ?c = "fs_data (fm_fs ?fm) i"
  have c: "?c = log_image P cap (logs ?fid)" using i(2) by (simp add: log_file_def log_image_def)
  have holds: "fm_holds P (fm_view ?fm) ?fid ?c" using d(1) i(1) by (simp add: fm_holds_def db_files_def)
  have view: "fm_holds P (fm_view ?fm) = fm_holds P ?fm" by (simp add: fm_view_def fm_holds_def [abs_def])
  have len: "length ?c = cap" using log_file_length [OF A i(2)] .
  note sl = log_at_slice [OF A i(2) d(2)]
  have good: "fm_good P cap io logs ?fm" using P io h(1) by (simp add: fm_good_def)
  have loc: "dir_loc d = Location ?fid ?off" by simp
  have bc: "rc_cache_ok P (fm_holds P (fm_view ?fm)) ?A (db_read_cache s)"
    unfolding view by (rule rc_cache_ok_mono [OF h(3)]) simp_all
  have room: "unat ?off + rec_size e \<le> length ?c" "4096 dvd length ?c" "length ?c < 2 ^ 32"
    using sl(2) h(5) disk_okD(2) [OF dok] len by simp_all
  let ?get = "rc_Get P (fm_AcquireDataFile P io) (\<lambda>fm. rf_ops (fm_fs fm)) (rc_Context (dir_loc d) (dir_entry_size d))
    ?fm (db_read_cache s)"
  from fm_opener.rc_Get_ok [OF A sl(3,1) good holds bc _ room] obtain ctx fm' bc' where g: "?get = Some (kOk, ctx, fm', bc')"
    "rc_entry ctx = Some e" "fm_good P cap io logs fm'" "fm_view fm' = fm_view ?fm"
    "rc_cache_ok P (fm_holds P (fm_view ?fm)) ?A bc'"
    unfolding d(3) loc [symmetric] by auto
  have caches: "rc_capacities bc' \<and> rc_lookup P bc' (rc_idx ?fid k) = Some (slice ?c (k * 4096) 4096)"
    if "rc_capacities (db_read_cache s)" "unat ?off + rec_size e \<le> (k + 1) * 4096"
    using fm_opener.rc_Get_caches [OF A sl(3,1) good holds bc _ that(1) room k that(2)] g(1)
    unfolding d(3) loc [symmetric] by auto
  from g(4) obtain c' where c': "fm' = ?fm\<lparr>fm_open_files := c'\<rparr>" by (auto simp: fm_view_eq)
  let ?s' = "s\<lparr>db_fm := ?fm\<lparr>fm_open_files := c'\<rparr>, db_read_cache := bc'\<rparr>"
  have "db_value P ?s' = db_value P s" by (rule db_value_cong) simp
  then have "db_get_cached P io d s
      = Some (if rec_validate P e then (kOk, Some (db_value P s e), ?s') else (kCorruption, None, ?s'))"
    using g(1,2) c' by (simp add: db_get_cached_def Let_def)
  then show ?thesis
    using g(3,5) c' caches unfolding c view by (intro exI [of _ c'] exI [of _ bc']) (simp add: fm_good_def)
qed

lemma db_get_cached_sane:
  assumes P: "pedrolib_ok P" and ok: "db_sane P cap logs s" and io: "io_good io"
    and d: "loc_id (dir_loc d) \<in> set (db_files s)"
      "log_at (logs (loc_id (dir_loc d))) (unat (loc_offset (dir_loc d))) = Some e"
      "dir_entry_size d = rec_sizeof e" "loc_id (dir_loc d) \<noteq> db_active s"
  shows "\<exists>s'. db_get_cached P io d s = Some (if rec_validate P e then (kOk, Some (db_value P s e), s') else (kCorruption, None, s'))
     \<and> db_sane P cap logs s' \<and> db_reads s s'"
proof -
  from db_get_cached_any [OF P ok io d(1-3) refl] obtain c bc where g: "db_get_cached P io d s
       = Some (if rec_validate P e
               then (kOk, Some (db_value P s e), s\<lparr>db_fm := (db_fm s)\<lparr>fm_open_files := c\<rparr>, db_read_cache := bc\<rparr>)
               else (kCorruption, None, s\<lparr>db_fm := (db_fm s)\<lparr>fm_open_files := c\<rparr>, db_read_cache := bc\<rparr>))"
    "fm_ok P cap logs ((db_fm s)\<lparr>fm_open_files := c\<rparr>)"
    "rc_cache_ok P (fm_holds P (db_fm s)) (\<lambda>x. x < db_active s \<or> x = loc_id (dir_loc d)) bc" by blast
  have "loc_id (dir_loc d) < db_active s"
    using active_files(3) [OF db_saneD(1) [OF ok], of "loc_id (dir_loc d)"] d(1,4) by (simp add: db_files_def db_active_def)
  then have "(\<lambda>x. x < db_active s \<or> x = loc_id (dir_loc d)) = (\<lambda>x. x < db_active s)" by auto
  then have "db_sane P cap logs (s\<lparr>db_fm := (db_fm s)\<lparr>fm_open_files := c\<rparr>, db_read_cache := bc\<rparr>)"
    using db_sane_reads [OF ok g(2), of bc "db_buf s"] g(3) by simp
  moreover have "db_reads s (s\<lparr>db_fm := (db_fm s)\<lparr>fm_open_files := c\<rparr>, db_read_cache := bc\<rparr>)"
    unfolding db_reads_def by (intro exI [of _ c] exI [of _ bc] exI [of _ "db_buf s"]) simp
  ultimately show ?thesis using g(1) by (auto split: if_splits)
qed

text \<open>
  A get: \<open>db_shadowed\<close> are the keys whose record ends at the end of its file while the
  direct path is taken.
\<close>

definition db_direct :: "bool \<Rightarrow> 'a db \<Rightarrow> dir \<Rightarrow> bool" where
  "db_direct use_read_cache s d \<longleftrightarrow> \<not> use_read_cache \<or> \<not> opt_cache_enable (db_options s)
     \<or> loc_id (dir_loc d) = db_max_file s"

definition db_shadowed :: "nat \<Rightarrow> bool \<Rightarrow> bytes \<Rightarrow> 'a db \<Rightarrow> bool" where
  "db_shadowed cap use_read_cache key s \<longleftrightarrow> (\<exists>d. db_indices s key = Some d \<and> db_direct use_read_cache s d
     \<and> unat (loc_offset (dir_loc d)) + unat (dir_entry_size d) = cap)"

lemma db_HandleGet_sane:
  assumes P: "pedrolib_ok P" and ok: "db_sane P cap logs s" and io: "io_good io" and cur: "db_current s"
  shows "\<exists>s'. db_HandleGet P io use_read_cache key s
       = Some (case db_record logs s key of
                 None \<Rightarrow> (kNotFound, None, s')
               | Some e \<Rightarrow> if db_shadowed cap use_read_cache key s \<or> \<not> rec_validate P e then (kCorruption, None, s')
                             else (kOk, Some (db_value P s e), s'))
     \<and> db_sane P cap logs s' \<and> db_reads s s'"
proof (cases "db_indices s key")
  case None
  have "s = s\<lparr>db_fm := (db_fm s)\<lparr>fm_open_files := fm_open_files (db_fm s)\<rparr>,
      db_read_cache := db_read_cache s, db_buf := db_buf s\<rparr>" by simp
  then have "db_reads s s" unfolding db_reads_def by blast
  then show ?thesis using None ok by (simp add: db_HandleGet_def db_record_def)
next
  case (Some d)
  note k = db_saneD [OF ok]
  from index_okE [OF k(2) Some] obtain e where d: "loc_id (dir_loc d) \<in> set (db_files s)"
    "log_at (logs (loc_id (dir_loc d))) (unat (loc_offset (dir_loc d))) = Some e"
    "dir_entry_size d = rec_sizeof e" .
  have rec: "db_record logs s key = Some e" using Some d(2) by (simp add: db_record_def)
  have "rec_wf e"
    using appended_log_bound(3) [OF k(1), of "loc_id (dir_loc d)" e] d(1) log_at_in [OF d(2)]
    by (simp add: db_files_def)
  then have shadow: "db_shadowed cap use_read_cache key s \<longleftrightarrow> db_direct use_read_cache s d
      \<and> unat (loc_offset (dir_loc d)) + rec_size e = cap"
    using Some d(3) by (simp add: db_shadowed_def)
  show ?thesis
  proof (cases "db_direct use_read_cache s d")
    case True
    then have "db_HandleGet P io use_read_cache key s = db_get_direct P io d s"
      using Some by (auto simp: db_HandleGet_def db_direct_def)
    with db_get_direct_sane [OF P ok io d(1,2)] True shadow rec show ?thesis by (auto split: if_splits)
  next
    case False
    then have h: "db_HandleGet P io use_read_cache key s = db_get_cached P io d s"
      using Some by (auto simp: db_HandleGet_def db_direct_def)
    have "loc_id (dir_loc d) \<noteq> db_active s" using False cur by (simp add: db_direct_def db_current_def)
    with db_get_cached_sane [OF P ok io d(1,2,3)] h False shadow rec show ?thesis by (auto split: if_splits)
  qed
qed

text \<open>With valid checksums: the value of the map.\<close>

lemma db_record_valid:
  assumes "db_ok P cap logs s" "db_record logs s key = Some e"
  shows "rec_validate P e"
proof -
  from assms(2) obtain d where d: "db_indices s key = Some d"
    "log_at (logs (loc_id (dir_loc d))) (unat (loc_offset (dir_loc d))) = Some e"
    by (auto simp: db_record_def split: option.splits)
  have "loc_id (dir_loc d) \<in> set (db_files s)" by (rule index_okE [OF db_okD(2) [OF assms(1)] d(1)])
  then show ?thesis using db_okD(3) [OF assms(1)] log_at_in [OF d(2)] by (simp add: records_valid_def)
qed

lemma db_HandleGet_ok:
  assumes P: "pedrolib_ok P" and ok: "db_ok P cap logs s" and io: "io_good io" and cur: "db_current s"
  shows "\<exists>s'. db_HandleGet P io use_read_cache key s
       = Some (case db_abs P logs s key of
                 None \<Rightarrow> (kNotFound, None, s')
               | Some val \<Rightarrow> if db_shadowed cap use_read_cache key s then (kCorruption, None, s')
                             else (kOk, Some val, s'))
     \<and> db_ok P cap logs s' \<and> db_reads s s'"
proof -
  from ok have sane: "db_sane P cap logs s" "records_valid P logs (db_files s)" by (simp_all add: db_ok_sane)
  from db_HandleGet_sane [OF P sane(1) io cur, of use_read_cache key] obtain s' where s':
    "db_HandleGet P io use_read_cache key s
       = Some (case db_record logs s key of
                 None \<Rightarrow> (kNotFound, None, s')
               | Some e \<Rightarrow> if db_shadowed cap use_read_cache key s \<or> \<not> rec_validate P e then (kCorruption, None, s')
                             else (kOk, Some (db_value P s e), s'))"
    "db_sane P cap logs s'" "db_reads s s'" by blast
  have "db_ok P cap logs s'" using s'(2) sane(2) db_reads_same(5) [OF s'(3)] by (simp add: db_ok_sane)
  then show ?thesis
    using s'(1,3) db_record_valid [OF ok, of key]
    by (intro exI [of _ s']) (simp add: db_abs_record split: option.split)
qed

end
