(* ===== verification/DBRecovery.thy ===== *)
theory DBRecovery
  imports DBPutGet
begin

text \<open>
  Recovery: reading the index file of a data file, or the data file itself, replays the records of
  the file on the index; opening a database on the files of another one yields the replay of its
  files, so that whatever was acknowledged is found again.
\<close>

section \<open>One entry\<close>

text \<open>Recovery touches the index, the space accounting, the shared buffer and the open files.\<close>

definition db_recovers :: "'a db \<Rightarrow> 'a db \<Rightarrow> bool" where
  "db_recovers s s' \<longleftrightarrow> db_options s' = db_options s \<and> db_readonly s' = db_readonly s
     \<and> db_read_cache s' = db_read_cache s \<and> db_max_file s' = db_max_file s
     \<and> db_failed_count s' = db_failed_count s \<and> db_fm s' = db_fm s"

lemma db_recovers_refl [simp]: "db_recovers s s"
  by (simp add: db_recovers_def)

lemma db_recovers_trans: "db_recovers s s' \<Longrightarrow> db_recovers s' s'' \<Longrightarrow> db_recovers s s''"
  by (simp add: db_recovers_def)

lemma db_recovers_buf [simp]: "db_recovers (s\<lparr>db_buf := buf\<rparr>) s' = db_recovers s s'"
  by (simp add: db_recovers_def)

text \<open>All entries of the index lie before a location.\<close>

definition index_before :: "location \<Rightarrow> index \<Rightarrow> bool" where
  "index_before loc m \<longleftrightarrow> (\<forall>k d. m k = Some d \<longrightarrow> dir_loc d < loc)"

lemma index_before_mono: "index_before loc m \<Longrightarrow> loc \<le> loc' \<Longrightarrow> index_before loc' m"
  unfolding index_before_def by (meson less_le_trans)

lemma index_before_replay_entry:
  "index_before loc m \<Longrightarrow> loc < loc' \<Longrightarrow> index_before loc' (replay_entry loc e m)"
  by (auto simp: index_before_def replay_entry_def intro: less_trans)

lemma index_before_replay_log:
  assumes "off + log_size es < 2 ^ 32" "index_before (Location fid (of_nat off)) m"
  shows "index_before (Location fid (of_nat (off + log_size es))) (replay_log fid off es m)"
  using assms
proof (induction fid off es m rule: replay_log.induct)
  case (2 fid off e es m)
  have "(of_nat off :: u32) < of_nat (off + rec_size e)"
    using "2.prems"(1) by (simp add: word_less_nat_alt del: of_nat_add)
  then have "index_before (Location fid (of_nat (off + rec_size e)))
      (replay_entry (Location fid (of_nat off)) e m)"
    using index_before_replay_entry [OF 2(3)] by (simp add: location_less_iff)
  with 2 show ?case by (simp add: add.assoc)
qed simp

lemma index_before_next:
  "index_before (Location fid off) m \<Longrightarrow> fid < fid' \<Longrightarrow> index_before (Location fid' 0) m"
  by (erule index_before_mono) (rule less_imp_le, simp add: location_less_iff)

lemma db_recover_entry_ok:
  assumes e: "re_type e = kSet \<or> re_type e = kDelete" and before: "index_before (Location fid off) (db_indices s)"
  shows "\<exists>s'. db_recover_entry fid \<lparr>ix_key = re_key e, ix_type = re_type e, ix_offset = off,
       ix_len = rec_sizeof e\<rparr> s = Some s'
     \<and> db_indices s' = replay_entry (Location fid off) e (db_indices s) \<and> db_recovers s s'"
proof (cases "db_indices s (re_key e)")
  case None
  then have "(db_indices s)(re_key e := None) = db_indices s" by auto
  then show ?thesis
    using None e by (auto simp: db_recover_entry_def replay_entry_def db_recovers_def Let_def)
next
  case (Some d)
  then have "dir_loc d < Location fid off" using before by (simp add: index_before_def)
  then have "\<not> Location fid off < dir_loc d" "dir_loc d \<noteq> Location fid off" by auto
  then show ?thesis
    using Some e by (auto simp: db_recover_entry_def replay_entry_def db_recovers_def Let_def)
qed

section \<open>The index file\<close>

lemma ii_new_ok:
  assumes P: "array_buffer_ok P" and f: "pro_length p = length (fs_data fs (pro_ino p))"
  shows "\<exists>buf. ii_new P (rf_ops fs) (RPosix p) = Some buf
     \<and> ab_bytes P buf = fs_data fs (pro_ino p) @ ab_slack P (length (fs_data fs (pro_ino p)))"
  using assms by (simp add: ii_new_def rf_ops_def pro_Size_def pro_Read_def fs_pread_def slice_def Let_def)

text \<open>The zeros behind the index are entries of type \<open>kEmpty\<close>, which change nothing.\<close>

lemma db_recover_index_zeros:
  assumes P: "pedrolib_ok P"
  shows "ab_bytes P buf = replicate n 0 \<Longrightarrow> db_recover_index P fid buf s = Some s"
proof (induction n arbitrary: buf rule: less_induct)
  case (less n)
  have A: "array_buffer_ok P" "codec_ok P" using P by simp_all
  note R = array_buffer_readable [OF A(1)]
  have b: "rb_bytes (ab_rops P) buf = replicate n 0" using less.prems by simp
  show ?case
  proof (cases "n < 10")
    case True
    then have "ii_Valid P buf = None"
      using readable_buffer.idx_unpack_zeros_short [OF R A(2) _ b] by (simp add: ii_Valid_def)
    then show ?thesis by (subst db_recover_index.simps) simp
  next
    case False
    then obtain e buf' where u: "ii_Valid P buf = Some (e, buf')" "ix_type e = kEmpty"
      "ab_bytes P buf' = replicate (n - 10) 0"
      using readable_buffer.idx_unpack_zeros [OF R A(2) _ b] by (auto simp: ii_Valid_def)
    then have "db_recover_index P fid buf' s = Some s" using less.IH [of "n - 10" buf'] False by simp
    then show ?thesis
      using u by (subst db_recover_index.simps) (simp add: db_recover_entry_def Let_def)
  qed
qed

lemma db_recover_index_ok:
  assumes P: "pedrolib_ok P"
  shows "ab_bytes P buf = idx_log_bytes P (log_index off es) @ replicate n 0 \<Longrightarrow>
     \<forall>e \<in> set es. rec_wf e \<Longrightarrow> off + log_size es < 2 ^ 32 \<Longrightarrow>
     index_before (Location fid (of_nat off)) (db_indices s) \<Longrightarrow>
     \<exists>s'. db_recover_index P fid buf s = Some s'
       \<and> db_indices s' = replay_log fid off es (db_indices s) \<and> db_recovers s s'"
proof (induction es arbitrary: buf off s)
  case Nil
  then show ?case using db_recover_index_zeros [OF P] by simp
next
  case (Cons e es)
  have A: "array_buffer_ok P" "codec_ok P" using P by simp_all
  let ?x = "\<lparr>ix_key = re_key e, ix_type = re_type e, ix_offset = of_nat off, ix_len = rec_sizeof e\<rparr>"
  have e: "rec_wf e" "re_type e = kSet \<or> re_type e = kDelete"
    using Cons.prems(2) by (auto simp: rec_wf_def)
  have wf: "idx_wf ?x" using e by (auto simp: idx_wf_def rec_wf_def)
  have b: "rb_bytes (ab_rops P) buf = idx_bytes P ?x @ idx_log_bytes P (log_index (off + rec_size e) es)
      @ replicate n 0"
    using Cons.prems(1) by simp
  obtain buf' where u: "ii_Valid P buf = Some (?x, buf')"
    "ab_bytes P buf' = idx_log_bytes P (log_index (off + rec_size e) es) @ replicate n 0"
    using readable_buffer.idx_unpack_bytes [OF array_buffer_readable [OF A(1)] A(2) _ b wf]
    by (auto simp: ii_Valid_def)
  from db_recover_entry_ok [OF e(2) Cons.prems(4)] obtain s1 where
    s1: "db_recover_entry fid ?x s = Some s1"
      "db_indices s1 = replay_entry (Location fid (of_nat off)) e (db_indices s)" "db_recovers s s1" by blast
  have "index_before (Location fid (of_nat (off + rec_size e))) (db_indices s1)"
    using index_before_replay_log [of off "[e]" fid "db_indices s"] Cons.prems(3,4) s1(2) by simp
  from Cons.IH [OF u(2) _ _ this] Cons.prems(2,3) obtain s2 where
    "db_recover_index P fid buf' s1 = Some s2"
    "db_indices s2 = replay_log fid (off + rec_size e) es (db_indices s1)" "db_recovers s1 s2" by auto
  then show ?case
    using u(1) s1 db_recovers_trans [OF s1(3)] by (subst db_recover_index.simps) simp
qed

section \<open>The data file\<close>

lemma db_recover_data_ok:
  assumes P: "pedrolib_ok P" and cap: "cap < 2 ^ 32"
    and m: "m = log_image P cap all" and all: "\<forall>e \<in> set all. rec_wf e" "log_size all < cap"
  shows "all = pre @ es \<Longrightarrow> ri_at P (rf_ops (fm_fs (db_fm s))) it (db_buf s) (log_size pre) \<Longrightarrow>
     rf_inv (fm_fs (db_fm s)) (ri_file it) \<Longrightarrow> fs_data (fm_fs (db_fm s)) (rf_ino (ri_file it)) = m \<Longrightarrow>
     index_before (Location fid (of_nat (log_size pre))) (db_indices s) \<Longrightarrow>
     \<exists>s'. db_recover_data P fid it s = Some s'
       \<and> db_indices s' = replay_log fid (log_size pre) es (db_indices s) \<and> db_recovers s s'"
proof (induction es arbitrary: pre it s)
  case Nil
  let ?F = "rf_ops (fm_fs (db_fm s))"
  have "drop (log_size pre) (fs_data (fm_fs (db_fm s)) (rf_ino (ri_file it))) = replicate (cap - log_size all) 0"
    using Nil.prems(1,4) m P by (simp add: log_image_def)
  from rf.ri_Valid_zeros [OF P Nil.prems(3,2) this] obtain it' buf' where
    "ri_Valid P ?F it (db_buf s) = Some (False, it', buf')" by blast
  then show ?case by (subst db_recover_data.simps) (simp add: db_recovers_def Let_def)
next
  case (Cons e es)
  let ?F = "rf_ops (fm_fs (db_fm s))" and ?off = "log_size pre"
  have A: "codec_ok P" using P by simp
  have e: "rec_wf e" "re_type e = kSet \<or> re_type e = kDelete" using Cons.prems(1) all by (auto simp: rec_wf_def)
  have len: "length m = cap" using m all A by (simp add: log_image_def)
  have lf: "log_file P cap all m" using m all by (simp add: log_file_def log_image_def)
  have size: "f_Size ?F (ri_file it) = cap" using rf.size_content [OF Cons.prems(3)] Cons.prems(4) len by simp
  have before: "?off + rec_size e < f_Size ?F (ri_file it)" using size all(2) Cons.prems(1) by simp
  have "slice (fs_data (fm_fs (db_fm s)) (rf_ino (ri_file it))) ?off (rec_size e) = rec_bytes P e"
    using log_file_split [OF A, of cap pre e es m] lf Cons.prems(1,4) by simp
  from rf.ri_Valid_record [OF P Cons.prems(3,2) e(1) this before] obtain it' buf' where
    v: "ri_Valid P ?F it (db_buf s) = Some (True, it', buf')" "ri_entry it' = e" "ri_file it' = ri_file it"
      "ri_index it' = ?off" "ri_read_index it' = ?off + rec_size e" "ri_size it' = ri_size it"
      "ab_bytes P buf' = []" by blast
  have "ri_size it' = f_Size ?F (ri_file it')" using v Cons.prems(2) by (simp add: ri_at_def)
  note nx = ri_Next_at [of it' ?F P buf', unfolded v(2), OF e(1) _ this v(7)]
  have nx1: "ri_at P ?F (snd (ri_Next it')) buf' (?off + rec_size e)" "fst (ri_Next it') = e"
    "ri_file (snd (ri_Next it')) = ri_file it"
    using nx v by simp_all
  let ?s = "s\<lparr>db_buf := buf'\<rparr>"
  have "index_before (Location fid (of_nat ?off)) (db_indices ?s)" using Cons.prems(5) by simp
  from db_recover_entry_ok [OF e(2) this] obtain s1 where
    s1: "db_recover_entry fid \<lparr>ix_key = re_key e, ix_type = re_type e, ix_offset = of_nat ?off,
        ix_len = rec_sizeof e\<rparr> ?s = Some s1"
      "db_indices s1 = replay_entry (Location fid (of_nat ?off)) e (db_indices s)" "db_recovers s s1" by auto
  have buf1: "db_buf s1 = buf'"
    using s1(1) by (auto simp: db_recover_entry_def Let_def split: if_splits option.splits)
  have fm1: "db_fm s1 = db_fm s" using s1(3) by (simp add: db_recovers_def)
  have "?off + log_size [e] < 2 ^ 32" using all(2) cap Cons.prems(1) by simp
  then have before1: "index_before (Location fid (of_nat (log_size (pre @ [e])))) (db_indices s1)"
    using index_before_replay_log [of ?off "[e]" fid "db_indices s"] Cons.prems(5) s1(2) by simp
  from Cons.IH [of "pre @ [e]" s1 "snd (ri_Next it')"] Cons.prems(1,3,4) nx1 before1 fm1 buf1
  obtain s2 where "db_recover_data P fid (snd (ri_Next it')) s1 = Some s2"
    "db_indices s2 = replay_log fid (?off + rec_size e) es (db_indices s1)" "db_recovers s1 s2" by auto
  then show ?case
    using v(1,4) nx1(2) s1 db_recovers_trans [OF s1(3)]
    by (subst db_recover_data.simps) (simp add: Let_def case_prod_beta ri_GetOffset_def)
qed

section \<open>A file and all files\<close>

lemma fm_ReleaseDataFile_ok:
  assumes "fm_ok P cap logs s"
  shows "fm_ok P cap logs (fm_ReleaseDataFile fid s)"
proof -
  have c: "lru_ok (fm_open_files s)"
    "cache_sound lru_lookup (handle_ok P cap (fm_fs s) (fm_meta s)) (fm_open_files s)"
    using assms by (simp_all add: fm_ok_def cache_ok_def)
  have "cache_ok P cap (fm_ReleaseDataFile fid s)"
    using lru.remove_inv [OF c(1), of fid] lru.sound_remove [OF c, of fid]
    by (simp add: cache_ok_def fm_ReleaseDataFile_def)
  then show ?thesis
    using fm_ok_open_files [OF assms] by (simp add: fm_ReleaseDataFile_def)
qed

text \<open>A data file without an index file must not be full to the last byte.\<close>

definition not_full ::
    "'a pedrolib \<Rightarrow> nat \<Rightarrow> (file_id \<Rightarrow> rec_entry list) \<Rightarrow> fsys \<Rightarrow> mm \<Rightarrow> file_id \<Rightarrow> bool" where
  "not_full P cap logs fs m fid \<longleftrightarrow>
     (fs_links fs (mm_GetIndexFilePath P m fid) = None \<longrightarrow> log_size (logs fid) < cap)"

definition db_recovered :: "'a db \<Rightarrow> 'a db \<Rightarrow> bool" where
  "db_recovered s s' \<longleftrightarrow> db_options s' = db_options s \<and> db_readonly s' = db_readonly s
     \<and> db_read_cache s' = db_read_cache s \<and> db_failed_count s' = db_failed_count s
     \<and> (\<exists>c. db_fm s' = (db_fm s)\<lparr>fm_open_files := c\<rparr>)"

text \<open>
  A file whose index file exists is recovered from that alone; zeros behind the index do no harm.
\<close>

lemma db_recover_file_index:
  assumes P: "pedrolib_ok P" and io: "io_good io"
    and idx: "fs_links (fm_fs (db_fm s)) (mm_GetIndexFilePath P (fm_meta (db_fm s)) fid) = Some i"
      "fs_data (fm_fs (db_fm s)) i = idx_log_bytes P (log_index 0 es) @ replicate z 0"
    and es: "\<forall>e \<in> set es. rec_wf e" "log_size es < 2 ^ 32"
    and before: "index_before (Location fid 0) (db_indices s)"
  shows "\<exists>s'. db_recover_file P io fid s = Some (kOk, s')
     \<and> db_indices s' = replay_log fid 0 es (db_indices s) \<and> db_recovers s s'"
proof -
  let ?fs = "fm_fs (db_fm s)"
  let ?p = "\<lparr>pro_ino = i, pro_length = length (fs_data ?fs i)\<rparr>" and ?n = "length (ab_slack P (length (fs_data ?fs i)))"
  have A: "array_buffer_ok P" "slack_ok P" using P by simp_all
  have acq: "fm_AcquireIndexFile P io fid (db_fm s) = Inr (RPosix ?p)"
    using pro_Open_ok [OF idx(1)] io by (simp add: fm_AcquireIndexFile_def)
  from ii_new_ok [OF A(1), of ?p ?fs] idx(2) obtain buf where
    buf: "ii_new P (rf_ops ?fs) (RPosix ?p) = Some buf"
      "ab_bytes P buf = idx_log_bytes P (log_index 0 es) @ replicate z 0 @ ab_slack P (length (fs_data ?fs i))" by auto
  have "ab_slack P (length (fs_data ?fs i)) = replicate ?n 0"
    using A(2) by (simp add: slack_ok_def replicate_length_same)
  with buf(2) have "ab_bytes P buf = idx_log_bytes P (log_index 0 es) @ replicate (z + ?n) 0" by (simp add: replicate_add)
  from db_recover_index_ok [OF P this es(1), of fid s] es(2) before show ?thesis
    using acq buf(1) by (auto simp: db_recover_file_def)
qed

text \<open>A file without an index file is recovered from its data, when that can be opened.\<close>

lemma db_recover_file_data:
  assumes P: "pedrolib_ok P" and cap: "14 < cap" "cap < 2 ^ 32"
    and noidx: "fs_links (fm_fs (db_fm s)) (mm_GetIndexFilePath P (fm_meta (db_fm s)) fid) = None"
    and f: "fm_AcquireDataFile P io fid (db_fm s) = (kOk, Some f, (db_fm s)\<lparr>fm_open_files := c\<rparr>)"
      "rf_inv (fm_fs (db_fm s)) f" "log_file P cap es (fs_data (fm_fs (db_fm s)) (rf_ino f))" "f_Size (rf_ops (fm_fs (db_fm s))) f = cap"
    and es: "log_size es < cap" and before: "index_before (Location fid 0) (db_indices s)"
  shows "\<exists>s'. db_recover_file P io fid s = Some (kOk, s')
     \<and> db_indices s' = replay_log fid 0 es (db_indices s) \<and> db_recovered s s'
     \<and> db_max_file s' = db_max_file s \<and> db_fm s' = fm_ReleaseDataFile fid ((db_fm s)\<lparr>fm_open_files := c\<rparr>)"
proof -
  let ?fm = "db_fm s" and ?fs = "fm_fs (db_fm s)"
  have acq: "fm_AcquireIndexFile P io fid ?fm = Inl kIOError"
    using pro_Open_missing [OF noidx] by (simp add: fm_AcquireIndexFile_def)
  let ?s = "s\<lparr>db_fm := ?fm\<lparr>fm_open_files := c\<rparr>\<rparr>" and ?it = "ri_new (rf_ops ?fs) f"
  have wf: "\<forall>e \<in> set es. rec_wf e" using f(3) by (simp add: log_file_def)
  have data: "fs_data ?fs (rf_ino f) = log_image P cap es" using f(3) by (simp add: log_file_def log_image_def)
  have at: "ri_at P (rf_ops (fm_fs (db_fm ?s))) ?it (db_buf ?s) (log_size [])"
    using ri_at_new [of "rf_ops ?fs" f P "db_buf s"] f(4) cap(1) by simp
  have before0: "index_before (Location fid (of_nat 0)) (db_indices s)" using before by simp
  from db_recover_data_ok [OF P cap(2) refl wf es, of "[]" es ?s ?it fid] at f(2) data before0
  obtain s' where s': "db_recover_data P fid ?it ?s = Some s'"
    "db_indices s' = replay_log fid 0 es (db_indices s)" "db_recovers ?s s'"
    by (auto simp: ri_new_def)
  have fm': "db_fm s' = ?fm\<lparr>fm_open_files := c\<rparr>" using s'(3) by (simp add: db_recovers_def)
  let ?s' = "s'\<lparr>db_fm := fm_ReleaseDataFile fid (db_fm s')\<rparr>"
  have "\<exists>c. db_fm ?s' = ?fm\<lparr>fm_open_files := c\<rparr>"
    using fm' by (simp add: fm_ReleaseDataFile_def) blast
  then show ?thesis
    using acq f(1) s' fm'
    by (intro exI [of _ ?s']) (simp add: db_recover_file_def db_recovers_def db_recovered_def Let_def)
qed

lemma db_recover_file_ok:
  assumes P: "pedrolib_ok P" and ok: "fm_ok P cap logs (db_fm s)" and io: "io_good io"
    and fid: "fid \<in> set (db_files s)"
    and full: "not_full P cap logs (fm_fs (db_fm s)) (fm_meta (db_fm s)) fid"
    and before: "index_before (Location fid 0) (db_indices s)"
  shows "\<exists>s'. db_recover_file P io fid s = Some (kOk, s') \<and> fm_ok P cap logs (db_fm s')
     \<and> db_indices s' = replay_log fid 0 (logs fid) (db_indices s) \<and> db_recovered s s'
     \<and> db_max_file s' = db_max_file s"
proof -
  let ?fm = "db_fm s" and ?fs = "fm_fs (db_fm s)" and ?ip = "mm_GetIndexFilePath P (fm_meta (db_fm s)) fid"
  have dok: "disk_ok P cap logs ?fs (fm_meta ?fm)" using ok by (simp add: fm_ok_def)
  note d = disk_okD [OF dok]
  note b = appended_log_bound [OF ok, of fid, folded db_files_def, OF fid]
  have wf: "\<forall>e \<in> set (logs fid). rec_wf e" using b(3) by blast
  show ?thesis
  proof (cases "fs_links ?fs ?ip")
    case (Some i)
    have content: "fs_data ?fs i = idx_log_bytes P (log_index 0 (logs fid)) @ replicate 0 0" using d(8) [OF Some] by simp
    from db_recover_file_index [OF P io Some content wf _ before] b(1,2) obtain s' where
      "db_recover_file P io fid s = Some (kOk, s')" "db_indices s' = replay_log fid 0 (logs fid) (db_indices s)"
      "db_recovers s s'" by auto
    moreover have "\<exists>c. ?fm = ?fm\<lparr>fm_open_files := c\<rparr>" by (rule exI [of _ "fm_open_files ?fm"]) simp
    ultimately show ?thesis
      using ok by (intro exI [of _ s']) (simp add: db_recovers_def db_recovered_def)
  next
    case None
    obtain f c where f: "fm_AcquireDataFile P io fid ?fm = (kOk, Some f, ?fm\<lparr>fm_open_files := c\<rparr>)"
      "fm_ok P cap logs (?fm\<lparr>fm_open_files := c\<rparr>)" "rf_inv ?fs f"
      "log_file P cap (logs fid) (fs_data ?fs (rf_ino f))" "f_Size (rf_ops ?fs) f = cap"
      using fm_AcquireDataFile_ok [OF P ok io, of fid] fid unfolding db_files_def by blast
    have "log_size (logs fid) < cap" using full None by (simp add: not_full_def)
    from db_recover_file_data [OF P d(1,2) None f(1,3-5) this before] fm_ReleaseDataFile_ok [OF f(2), of fid]
    show ?thesis by force
  qed
qed

lemma db_recovered_trans: "db_recovered s s' \<Longrightarrow> db_recovered s' s'' \<Longrightarrow> db_recovered s s''"
  by (auto simp: db_recovered_def)

lemma db_recovered_files:
  assumes "db_recovered s s'"
  shows "db_files s' = db_files s" "db_active s' = db_active s" "fm_fs (db_fm s') = fm_fs (db_fm s)"
    "fm_meta (db_fm s') = fm_meta (db_fm s)"
  using assms by (auto simp: db_recovered_def db_files_def db_active_def)

text \<open>
  The loop over the files, for any property \<open>I\<close> of states that the recovery of a single file keeps,
  and any lists \<open>L\<close> of records that the files yield.
\<close>

lemma db_recover_files_run:
  assumes step: "\<And>s fid. I s \<Longrightarrow> fid \<in> F \<Longrightarrow> index_before (Location fid 0) (db_indices s) \<Longrightarrow>
       \<exists>s'. db_recover_file P io fid s = Some (kOk, s') \<and> I s' \<and> db_recovered s s'
         \<and> db_indices s' = replay_log fid 0 (L fid) (db_indices s) \<and> db_max_file s' = db_max_file s"
    and max: "\<And>s n. I s \<Longrightarrow> I (s\<lparr>db_max_file := n\<rparr>)" and size: "\<And>fid. fid \<in> F \<Longrightarrow> log_size (L fid) < 2 ^ 32"
  shows "I s \<Longrightarrow> sorted fids \<Longrightarrow> distinct fids \<Longrightarrow> set fids \<subseteq> F \<Longrightarrow>
     (\<And>fid. fid \<in> set fids \<Longrightarrow> index_before (Location fid 0) (db_indices s)) \<Longrightarrow>
     \<exists>s'. db_recover_files P io fids s = Some (kOk, s') \<and> I s'
       \<and> db_indices s' = replay L fids (db_indices s) \<and> db_recovered s s'
       \<and> db_max_file s' = foldl max (db_max_file s) fids"
proof (induction fids arbitrary: s)
  case Nil
  have "\<exists>c. db_fm s = (db_fm s)\<lparr>fm_open_files := c\<rparr>" by (rule exI [of _ "fm_open_files (db_fm s)"]) simp
  then show ?case using Nil by (simp add: db_recovered_def)
next
  case (Cons fid fids)
  let ?s = "s\<lparr>db_max_file := max (db_max_file s) fid\<rparr>"
  have fid: "fid \<in> F" and before: "index_before (Location fid 0) (db_indices ?s)" using Cons.prems(4,5) by simp_all
  from step [OF max [OF Cons.prems(1)] fid before] obtain s1 where
    s1: "db_recover_file P io fid ?s = Some (kOk, s1)" "I s1" "db_recovered ?s s1"
      "db_indices s1 = replay_log fid 0 (L fid) (db_indices s)" "db_max_file s1 = max (db_max_file s) fid" by auto
  have b1: "index_before (Location fid (of_nat (0 + log_size (L fid)))) (db_indices s1)"
    unfolding s1(4) using Cons.prems(5) size [OF fid] by (intro index_before_replay_log) simp_all
  have "index_before (Location fid' 0) (db_indices s1)" if "fid' \<in> set fids" for fid'
  proof -
    have "fid < fid'" using Cons.prems(2,3) that by (simp add: order.strict_iff_order) blast
    then show ?thesis by (rule index_before_next [OF b1])
  qed
  with Cons.IH [OF s1(2)] Cons.prems obtain s2 where
    "db_recover_files P io fids s1 = Some (kOk, s2)" "I s2" "db_indices s2 = replay L fids (db_indices s1)"
    "db_recovered s1 s2" "db_max_file s2 = foldl max (db_max_file s1) fids" by auto
  moreover have "db_recovered s s1" using s1(3) by (simp add: db_recovered_def)
  ultimately show ?case
    using s1 db_recovered_trans [of s s1 s2] by (intro exI [of _ s2]) (simp add: Let_def)
qed

lemma db_recover_files_ok:
  assumes P: "pedrolib_ok (P :: 'a pedrolib)" and io: "io_good io" and ok: "fm_ok P cap logs (db_fm s)"
    and fids: "sorted fids" "distinct fids" "set fids \<subseteq> set (db_files s)"
    and full: "\<And>fid. fid \<in> set fids \<Longrightarrow> not_full P cap logs (fm_fs (db_fm s)) (fm_meta (db_fm s)) fid"
    and before: "\<And>fid. fid \<in> set fids \<Longrightarrow> index_before (Location fid 0) (db_indices s)"
  shows "\<exists>s'. db_recover_files P io fids s = Some (kOk, s') \<and> fm_ok P cap logs (db_fm s')
       \<and> db_indices s' = replay logs fids (db_indices s) \<and> db_recovered s s'
       \<and> db_max_file s' = foldl max (db_max_file s) fids"
proof -
  let ?I = "\<lambda>t :: 'a db. fm_ok P cap logs (db_fm t) \<and> fm_fs (db_fm t) = fm_fs (db_fm s) \<and> fm_meta (db_fm t) = fm_meta (db_fm s)"
  have "\<exists>s'. db_recover_files P io fids s = Some (kOk, s') \<and> ?I s'
       \<and> db_indices s' = replay logs fids (db_indices s) \<and> db_recovered s s'
       \<and> db_max_file s' = foldl max (db_max_file s) fids"
  proof (rule db_recover_files_run [where F = "set fids"])
    fix t fid assume I: "?I t" and fid: "fid \<in> set fids" and b: "index_before (Location fid 0) (db_indices t)"
    have t: "fid \<in> set (db_files t)" "not_full P cap logs (fm_fs (db_fm t)) (fm_meta (db_fm t)) fid"
      using I fid fids(3) full by (auto simp: db_files_def)
    from db_recover_file_ok [OF P _ io t b] I obtain t' where t':
      "db_recover_file P io fid t = Some (kOk, t')" "fm_ok P cap logs (db_fm t')"
      "db_indices t' = replay_log fid 0 (logs fid) (db_indices t)" "db_recovered t t'" "db_max_file t' = db_max_file t" by blast
    from t'(4) I have "fm_fs (db_fm t') = fm_fs (db_fm s)" "fm_meta (db_fm t') = fm_meta (db_fm s)"
      by (auto simp: db_recovered_def)
    with t' show "\<exists>t'. db_recover_file P io fid t = Some (kOk, t') \<and> ?I t' \<and> db_recovered t t'
         \<and> db_indices t' = replay_log fid 0 (logs fid) (db_indices t) \<and> db_max_file t' = db_max_file t" by blast
  next
    fix fid assume "fid \<in> set fids"
    then show "log_size (logs fid) < 2 ^ 32"
      using appended_log_bound(1,2) [OF ok, of fid] fids(3) by (auto simp: db_files_def)
  qed (use ok fids before in auto)
  then show ?thesis by blast
qed

end
