(* ===== verification/DBOpen.thy ===== *)
theory DBOpen
  imports DBRecovery
begin

text \<open>
  Opening a database: on an empty directory, and on the files of a database that was left at any
  point between two operations. The second is the durability of the store: nothing is flushed and
  no task of the executor need have run, and yet the map from keys to values is the same.
\<close>

section \<open>The replayed index\<close>

lemma index_ok_replay_log:
  assumes "fid \<in> set files" "log_size (logs fid) < 2 ^ 32"
  shows "logs fid = pre @ es \<Longrightarrow> index_ok logs files m \<Longrightarrow> index_ok logs files (replay_log fid (log_size pre) es m)"
proof (induction es arbitrary: pre m)
  case (Cons e es)
  let ?loc = "Location fid (of_nat (log_size pre))"
  have "unat (of_nat (log_size pre) :: u32) = log_size pre"
    using assms(2) Cons.prems(1) by simp
  then have "log_at (logs fid) (unat (loc_offset ?loc)) = Some e"
    using Cons.prems(1) unfolding log_at_split by auto
  then have "index_ok logs files (replay_entry ?loc e m)"
    using Cons.prems(2) assms(1) by (simp add: index_ok_def replay_entry_def dir_ok_def)
  from Cons.IH [of "pre @ [e]", OF _ this] Cons.prems(1) show ?case by simp
qed simp

lemma index_ok_replay:
  assumes "\<And>fid. fid \<in> set files \<Longrightarrow> log_size (logs fid) < 2 ^ 32"
  shows "set fids \<subseteq> set files \<Longrightarrow> index_ok logs files m \<Longrightarrow> index_ok logs files (replay logs fids m)"
proof (induction fids arbitrary: m)
  case (Cons fid fids)
  then have "index_ok logs files (replay_log fid 0 (logs fid) m)"
    using index_ok_replay_log [of fid files logs "[]" "logs fid" m] assms by simp
  with Cons show ?case by simp
qed simp

lemma foldl_max_sorted: "sorted xs \<Longrightarrow> foldl max (0 :: file_id) xs = (if xs = [] then 0 else last xs)"
proof (induction xs rule: rev_induct)
  case (snoc x xs)
  then show ?case using sorted_le_last [of "xs @ [x]"] by (auto simp: sorted_append max_def)
qed simp

section \<open>Opening existing files\<close>

lemma db_new_ok:
  assumes "opt_cache_segments opts \<noteq> 0"
  shows "\<exists>bc. db_new P opts name buf fs = Some \<lparr>db_options = opts, db_max_file = 0,
       db_indices = (\<lambda>_. None), db_fm = fm_new fs (mm_new name) (opt_max_open_files opts),
       db_readonly = False, db_read_cache = bc, db_compact_tasks = [], db_file_states = (\<lambda>_. None),
       db_buf = buf, db_failed_count = 0\<rparr>
     \<and> (\<forall>H A. rc_cache_ok P H A bc)"
  using assms rc_new_ok [of "opt_cache_segments opts" "opt_cache_bytes opts"]
  by (auto simp: db_new_def rc_new_def)

lemma db_new_without_segments:
  "opt_cache_segments opts = 0 \<Longrightarrow> db_Open P cap io opts name buf fs = None"
  by (simp add: db_Open_def db_new_def rc_new_def)

text \<open>
  The directory of a database; \<open>dir_sound\<close> does not ask for valid checksums, which recovery
  does not look at.
\<close>

definition dir_sound ::
    "'a pedrolib \<Rightarrow> nat \<Rightarrow> (file_id \<Rightarrow> rec_entry list) \<Rightarrow> fsys \<Rightarrow> mm \<Rightarrow> bool" where
  "dir_sound P cap logs fs m \<longleftrightarrow> disk_ok P cap logs fs m \<and> path_valid (mm_path m) \<and> mm_files m \<noteq> [] \<and> 4096 dvd cap
     \<and> (\<forall>fid. fs_links fs (mm_GetIndexFilePath P m fid) \<noteq> None \<longrightarrow> fid < last (mm_files m))
     \<and> (\<forall>fid \<in> set (mm_files m). not_full P cap logs fs m fid)"

definition dir_good ::
    "'a pedrolib \<Rightarrow> nat \<Rightarrow> (file_id \<Rightarrow> rec_entry list) \<Rightarrow> fsys \<Rightarrow> mm \<Rightarrow> bool" where
  "dir_good P cap logs fs m \<longleftrightarrow> dir_sound P cap logs fs m \<and> records_valid P logs (mm_files m)"

text \<open>
  \<^verbatim>\<open>Open\<close> up to the recovery of the files: the rest is \<open>db_recover_files\<close> on an empty
  index.
\<close>

lemma db_Open_steps:
  assumes seg: "opt_cache_segments opts \<noteq> 0" and mmi: "mm_Init P io (mm_new name) fs = Some (kOk, m, fs1)"
    and fm: "fm_Init P cap io (fm_new fs1 m (opt_max_open_files opts)) = Some (kOk, fm)"
  shows "\<exists>s1. db_fm s1 = fm \<and> db_options s1 = opts \<and> db_indices s1 = (\<lambda>_. None) \<and> db_max_file s1 = 0 \<and> \<not> db_readonly s1
     \<and> (\<forall>H A. rc_cache_ok P H A (db_read_cache s1))
     \<and> (\<forall>st s'. db_recover_files P io (mm_files (fm_meta fm)) s1 = Some (st, s') \<longrightarrow>
          db_Open P cap io opts name buf fs = Some (st, if st \<noteq> kOk then None else Some s', fm_fs (db_fm s')))"
proof -
  obtain bc s0 where new: "db_new P opts name buf fs = Some s0" "\<And>H A. rc_cache_ok P H A bc"
    and s0: "s0 = \<lparr>db_options = opts, db_max_file = 0, db_indices = (\<lambda>_. None),
       db_fm = fm_new fs (mm_new name) (opt_max_open_files opts), db_readonly = False,
       db_read_cache = bc, db_compact_tasks = [], db_file_states = (\<lambda>_. None), db_buf = buf,
       db_failed_count = 0\<rparr>"
    using db_new_ok [OF seg, of P name buf fs] by blast
  have "db_Init P cap io s0 = db_recover_files P io (mm_files (fm_meta fm)) (s0\<lparr>db_fm := fm\<rparr>)"
    using mmi fm s0 by (simp add: db_Init_def db_Recovery_def mm_GetFiles_def fm_new_def)
  then show ?thesis using new s0 by (intro exI [of _ "s0\<lparr>db_fm := fm\<rparr>"]) (simp add: db_Open_def)
qed

lemma db_Open_sound:
  assumes P: "pedrolib_ok P" and dir: "dir_sound P cap logs fs m" and io: "io_good io"
    and seg: "opt_cache_segments opts \<noteq> 0"
  shows "\<exists>s. db_Open P cap io opts (mm_path m) buf fs = Some (kOk, Some s, fs)
     \<and> db_sane P cap logs s \<and> db_recoverable logs s \<and> db_current s
     \<and> db_options s = opts \<and> \<not> db_readonly s \<and> fm_meta (db_fm s) = m \<and> fm_fs (db_fm s) = fs"
proof -
  have dok: "disk_ok P cap logs fs m" and p: "path_valid (mm_path m)" and files: "mm_files m \<noteq> []"
    and cap: "4096 dvd cap"
    and idx: "\<And>fid. fs_links fs (mm_GetIndexFilePath P m fid) \<noteq> None \<Longrightarrow> fid < last (mm_files m)"
    and full: "\<And>fid. fid \<in> set (mm_files m) \<Longrightarrow> not_full P cap logs fs m fid"
    using dir unfolding dir_sound_def by blast+
  have srt: "sorted (mm_files m)" "distinct (mm_files m)" using mm_ok_files [OF disk_okD(4) [OF dok]] by simp_all
  have mmi: "mm_Init P io (mm_new (mm_path m)) fs = Some (kOk, m, fs)"
    by (rule mm_Init_existing [OF P disk_okD(4) [OF dok] p io])
  obtain fm where fm: "fm_Init P cap io (fm_new fs m (opt_max_open_files opts)) = Some (kOk, fm)"
    "fm_ok P cap logs fm" "fm_fs fm = fs" "fm_meta fm = m" "fm_active_id fm = last (mm_files m)"
    using fm_Init_existing [OF P dok io files idx] by blast
  from db_Open_steps [OF seg mmi fm(1), of buf, unfolded fm(4)] obtain s1 where s1: "db_fm s1 = fm" "db_options s1 = opts"
    "db_indices s1 = (\<lambda>_. None)" "db_max_file s1 = 0" "\<not> db_readonly s1" "\<And>H A. rc_cache_ok P H A (db_read_cache s1)"
    and run: "\<And>st s'. db_recover_files P io (mm_files m) s1 = Some (st, s') \<Longrightarrow>
      db_Open P cap io opts (mm_path m) buf fs = Some (st, if st \<noteq> kOk then None else Some s', fm_fs (db_fm s'))" by blast
  have rec: "\<exists>s'. db_recover_files P io (mm_files m) s1 = Some (kOk, s') \<and> fm_ok P cap logs (db_fm s')
       \<and> db_indices s' = replay logs (mm_files m) (db_indices s1) \<and> db_recovered s1 s'
       \<and> db_max_file s' = foldl max (db_max_file s1) (mm_files m)"
    by (rule db_recover_files_ok [OF P io])
      (use fm srt full s1(1,3) in \<open>simp_all add: db_files_def index_before_def\<close>)
  then obtain s where s: "db_recover_files P io (mm_files m) s1 = Some (kOk, s)" "fm_ok P cap logs (db_fm s)"
      "db_indices s = replay logs (mm_files m) (\<lambda>_. None)" "db_recovered s1 s"
      "db_max_file s = foldl max 0 (mm_files m)"
    using s1(3,4) by auto
  note f = db_recovered_files [OF s(4)]
  have m: "db_files s = mm_files m" "db_active s = last (mm_files m)"
    using f(1,2) fm(4,5) s1(1) by (simp_all add: db_files_def db_active_def)
  have "log_size (logs fid) < 2 ^ 32" if "fid \<in> set (mm_files m)" for fid
    using appended_log_bound(1,2) [OF fm(2), of fid] that fm(4) by simp
  then have "index_ok logs (db_files s) (db_indices s)"
    unfolding m s(3) by (rule index_ok_replay) (simp_all add: index_ok_def)
  moreover have "rc_cache_ok P (fm_holds P (db_fm s)) (\<lambda>fid. fid < db_active s) (db_read_cache s)"
    using s1(6) s(4) by (simp add: db_recovered_def)
  moreover have max: "db_max_file s = last (mm_files m)" using s(5) foldl_max_sorted [OF srt(1)] files by simp
  ultimately have "db_sane P cap logs s" using s(2) cap m by (simp add: db_sane_def)
  then show ?thesis
    using run [OF s(1)] s(3,4) m max s1(1,2,5) f(3,4) fm(3,4)
    by (intro exI [of _ s]) (simp add: db_recoverable_def db_current_def db_recovered_def)
qed

lemma db_Open_existing:
  assumes P: "pedrolib_ok P" and dir: "dir_good P cap logs fs m" and io: "io_good io"
    and seg: "opt_cache_segments opts \<noteq> 0"
  shows "\<exists>s. db_Open P cap io opts (mm_path m) buf fs = Some (kOk, Some s, fs)
     \<and> db_ok P cap logs s \<and> db_recoverable logs s \<and> db_current s
     \<and> db_options s = opts \<and> \<not> db_readonly s \<and> fm_meta (db_fm s) = m \<and> fm_fs (db_fm s) = fs"
proof -
  have d: "dir_sound P cap logs fs m" "records_valid P logs (mm_files m)" using dir by (simp_all add: dir_good_def)
  from db_Open_sound [OF P d(1) io seg, of buf] obtain s where s:
    "db_Open P cap io opts (mm_path m) buf fs = Some (kOk, Some s, fs)" "db_sane P cap logs s"
    "db_recoverable logs s" "db_current s" "db_options s = opts" "\<not> db_readonly s"
    "fm_meta (db_fm s) = m" "fm_fs (db_fm s) = fs" by blast
  have "db_ok P cap logs s" using s(2,7) d(2) by (simp add: db_ok_sane db_files_def)
  then show ?thesis using s by blast
qed

text \<open>A database can be reopened after any operation, without being closed.\<close>

lemma db_sane_dir_sound:
  assumes ok: "db_sane P cap logs s" and p: "path_valid (mm_path (fm_meta (db_fm s)))"
    and full: "\<forall>fid \<in> set (db_files s). not_full P cap logs (fm_fs (db_fm s)) (fm_meta (db_fm s)) fid"
  shows "dir_sound P cap logs (fm_fs (db_fm s)) (fm_meta (db_fm s))"
proof -
  note d = db_saneD [OF ok] and a = active_files [OF db_saneD(1) [OF ok]]
  have "last (mm_files (fm_meta (db_fm s))) = fm_active_id (db_fm s)" using a(1) by (metis last_snoc)
  moreover have "mm_files (fm_meta (db_fm s)) \<noteq> []" using a(4) by auto
  ultimately show ?thesis
    using d(1,5) p full by (auto simp: dir_sound_def fm_ok_def active_ok_def db_files_def)
qed

lemma db_ok_dir_good:
  assumes "db_ok P cap logs s" "path_valid (mm_path (fm_meta (db_fm s)))"
    and "\<forall>fid \<in> set (db_files s). not_full P cap logs (fm_fs (db_fm s)) (fm_meta (db_fm s)) fid"
  shows "dir_good P cap logs (fm_fs (db_fm s)) (fm_meta (db_fm s))"
  using assms db_sane_dir_sound [of P cap logs s] by (simp add: dir_good_def db_ok_sane db_files_def)

lemma db_reopen_ok:
  assumes P: "pedrolib_ok P" and ok: "db_ok P cap logs s" and rec: "db_recoverable logs s" and io: "io_good io"
    and p: "path_valid (mm_path (fm_meta (db_fm s)))" and seg: "opt_cache_segments opts \<noteq> 0"
    and full: "\<forall>fid \<in> set (db_files s). not_full P cap logs (fm_fs (db_fm s)) (fm_meta (db_fm s)) fid"
    and compress: "opt_compress_value opts = opt_compress_value (db_options s)"
  shows "\<exists>s'. db_Open P cap io opts (mm_path (fm_meta (db_fm s))) buf (fm_fs (db_fm s))
       = Some (kOk, Some s', fm_fs (db_fm s))
     \<and> db_ok P cap logs s' \<and> db_recoverable logs s' \<and> db_current s' \<and> db_abs P logs s' = db_abs P logs s"
proof -
  from db_Open_existing [OF P db_ok_dir_good [OF ok p full] io seg, of buf] obtain s' where
    s': "db_Open P cap io opts (mm_path (fm_meta (db_fm s))) buf (fm_fs (db_fm s))
        = Some (kOk, Some s', fm_fs (db_fm s))"
      "db_ok P cap logs s'" "db_recoverable logs s'" "db_current s'" "db_options s' = opts"
      "fm_meta (db_fm s') = fm_meta (db_fm s)" by blast
  have "db_indices s' = db_indices s"
    using rec s'(3,6) by (simp add: db_recoverable_def db_files_def)
  moreover have "db_value P s' = db_value P s" using s'(5) compress by (auto simp: db_value_def)
  ultimately have "db_abs P logs s' = db_abs P logs s" by (intro ext) (simp add: db_abs_def cong: option.case_cong)
  then show ?thesis using s' by blast
qed

section \<open>Opening an empty directory\<close>

lemma path_valid_paths:
  assumes "path_valid p"
  shows "p \<noteq> mm_GetDataFilePath P m fid" "p \<noteq> mm_GetIndexFilePath P m fid"
proof -
  have "\<not> path_valid (q @ [x])" if "x \<notin> set (str ''.db'')" for q x
  proof
    assume v: "path_valid (q @ [x])"
    define f where "f = filter (\<lambda>i. (q @ [x]) ! i \<in> set (str ''.db'')) [0..<length (q @ [x])]"
    have len: "length q < 65535" using v by (simp add: path_valid_def)
    then have "find_last_of (str ''.db'') (q @ [x]) = length q" using v by (simp add: path_valid_def)
    then have "(case f of [] \<Rightarrow> size_max | is \<Rightarrow> last is) = length q"
      unfolding find_last_of_def f_def [symmetric] .
    then have "f \<noteq> []" "last f = length q" using len by (auto simp: size_max_def split: list.splits)
    then have "length q \<in> set f" using last_in_set by metis
    then show False using that by (simp add: f_def)
  qed
  moreover have "mm_GetDataFilePath P m fid = (mm_name m @ str ''.'' @ fmt_u32 P fid @ str ''.dat'') @ [of_char CHR ''a'']"
    "mm_GetIndexFilePath P m fid = (mm_name m @ str ''.'' @ fmt_u32 P fid @ str ''.inde'') @ [of_char CHR ''x'']"
    by (simp_all add: mm_GetDataFilePath_def mm_GetIndexFilePath_def str_def)
  moreover have "of_char CHR ''a'' \<notin> set (str ''.db'')" "of_char CHR ''x'' \<notin> set (str ''.db'')"
    by (simp_all add: str_def)
  ultimately show "p \<noteq> mm_GetDataFilePath P m fid" "p \<noteq> mm_GetIndexFilePath P m fid"
    using assms by metis+
qed

lemma db_Open_fresh:
  assumes P: "pedrolib_ok P" and io: "io_good io" and seg: "opt_cache_segments opts \<noteq> 0"
    and p: "path_valid p" and fs: "fs_ok fs" "fs_links fs = (\<lambda>_. None)"
    and cap: "14 < cap" "cap < 2 ^ 32" "4096 dvd cap"
  shows "\<exists>s fs'. db_Open P cap io opts p buf fs = Some (kOk, Some s, fs')
     \<and> db_ok P cap (\<lambda>_. []) s \<and> db_recoverable (\<lambda>_. []) s \<and> db_current s \<and> db_options s = opts
     \<and> \<not> db_readonly s \<and> db_abs P (\<lambda>_. []) s = (\<lambda>_. None) \<and> db_active s = 1
     \<and> db_files s = [1]
     \<and> mm_path (fm_meta (db_fm s)) = p"
proof -
  obtain bc s0 where new: "db_new P opts p buf fs = Some s0" "\<And>H A. rc_cache_ok P H A bc"
    and s0: "s0 = \<lparr>db_options = opts, db_max_file = 0, db_indices = (\<lambda>_. None),
       db_fm = fm_new fs (mm_new p) (opt_max_open_files opts), db_readonly = False,
       db_read_cache = bc, db_compact_tasks = [], db_file_states = (\<lambda>_. None), db_buf = buf,
       db_failed_count = 0\<rparr>"
    using db_new_ok [OF seg, of P p buf fs] by blast
  obtain m fs1 where m: "mm_Init P io (mm_new p) fs = Some (kOk, m, fs1)" "mm_ok P fs1 m" "mm_files m = []"
    "mm_path m = p" "fs_links fs1 = (fs_links fs)(p \<mapsto> fs_next fs)" "fs_next fs1 = Suc (fs_next fs)"
    using mm_Init_fresh [OF P p, of fs io] fs(2) io by auto
  have fs1: "fs_ok fs1" using m(5,6) fs(2) by (simp add: fs_ok_def)
  have none: "fs_links fs1 (mm_GetDataFilePath P m fid) = None" "fs_links fs1 (mm_GetIndexFilePath P m fid) = None" for fid
    using path_valid_paths [OF p, of P m fid] m(5) fs(2) by simp_all
  have dok: "disk_ok P cap (\<lambda>_. []) fs1 m"
    using m(2-4) fs1 cap none path_valid_paths [OF p, of P] by (simp add: disk_ok_def paths_ok_def)
  obtain fm where fm: "fm_Init P cap io (fm_new fs1 m (opt_max_open_files opts)) = Some (kOk, fm)"
    "fm_ok P cap (\<lambda>_. []) fm" "fm_active_id fm = 1" "mm_files (fm_meta fm) = [1]" "mm_path (fm_meta fm) = p"
    using fm_Init_fresh [OF P dok io m(3) none(2), of "opt_max_open_files opts"] m(4)
    by (auto simp: fun_upd_idem)
  let ?s1 = "s0\<lparr>db_fm := fm\<rparr>"
  have full: "not_full P cap (\<lambda>_. []) (fm_fs fm) (fm_meta fm) fid" for fid using cap(1) by (simp add: not_full_def)
  have rec: "\<exists>s'. db_recover_files P io [1] ?s1 = Some (kOk, s') \<and> fm_ok P cap (\<lambda>_. []) (db_fm s')
       \<and> db_indices s' = replay (\<lambda>_. []) [1] (db_indices ?s1) \<and> db_recovered ?s1 s'
       \<and> db_max_file s' = foldl max (db_max_file ?s1) [1]"
    by (rule db_recover_files_ok [OF P io])
      (use fm full s0 in \<open>simp_all add: db_files_def index_before_def\<close>)
  then obtain s where s: "db_recover_files P io [1] ?s1 = Some (kOk, s)" "fm_ok P cap (\<lambda>_. []) (db_fm s)"
      "db_indices s = (\<lambda>_. None)" "db_recovered ?s1 s" "db_max_file s = 1"
    using s0 by (auto simp: max_def)
  note f = db_recovered_files [OF s(4)]
  have "db_Init P cap io s0 = Some (kOk, s)"
    using m(1) fm(1,4) s(1) s0
    by (simp add: db_Init_def db_Recovery_def mm_GetFiles_def fm_new_def)
  moreover have "db_files s = [1]" "db_active s = 1"
    using f(1,2) fm(3,4) by (simp_all add: db_files_def db_active_def)
  moreover have "rc_cache_ok P (fm_holds P (db_fm s)) (\<lambda>fid. fid < db_active s) (db_read_cache s)"
    using new(2) s(4) s0 by (simp add: db_recovered_def)
  ultimately show ?thesis
    using s new(1) s0 cap(3) f(4) fm(5)
    by (intro exI [of _ s] exI [of _ "fm_fs (db_fm s)"])
      (simp add: db_Open_def db_ok_def index_ok_def records_valid_def db_recoverable_def db_current_def
        db_recovered_def db_abs_def fun_eq_iff)
qed

end
