(* ===== verification/DBCompact.thy ===== *)
theory DBCompact
  imports DBOpen
begin

text \<open>
  Compaction. Compacting a file that is not the active one moves its live records to the end of the
  log and removes the file; the map from keys to values stays the same. The index is still what
  recovery would compute when no tombstone of the file hides a record of an older file.
\<close>

section \<open>Positions in a log\<close>

lemma log_at_skip: "log_size pre \<le> off \<Longrightarrow> log_at (pre @ es) off = log_at es (off - log_size pre)"
proof (induction pre arbitrary: off)
  case (Cons x pre)
  have "rec_size x + log_size pre \<le> off" using Cons.prems by simp
  then have "off \<noteq> 0" "\<not> off < rec_size x" using rec_size_pos(1) [of x] by linarith+
  with Cons show ?case by (simp add: add.commute)
qed simp

lemma log_at_next:
  assumes "log_at (pre @ e # es) off = Some x" "log_size pre \<le> off"
  shows "off = log_size pre \<and> x = e \<or> log_size pre + rec_size e \<le> off"
  using assms by (auto simp: log_at_skip split: if_splits)

section \<open>The loop\<close>

text \<open>The entries of the index that lead into the file lie at or behind an offset.\<close>

definition moved_before :: "file_id \<Rightarrow> nat \<Rightarrow> index \<Rightarrow> bool" where
  "moved_before fid off m \<longleftrightarrow> (\<forall>k d. m k = Some d \<longrightarrow> loc_id (dir_loc d) = fid \<longrightarrow>
     off \<le> unat (loc_offset (dir_loc d)))"

definition file_on :: "'a pedrolib \<Rightarrow> nat \<Rightarrow> file_id \<Rightarrow> rfile \<Rightarrow> 'a db \<Rightarrow> bool" where
  "file_on P cap fid f s \<longleftrightarrow> fid \<in> set (db_files s) \<and> fid < db_active s \<and> rf_length f = cap
     \<and> fs_links (fm_fs (db_fm s)) (mm_GetDataFilePath P (fm_meta (db_fm s)) fid) = Some (rf_ino f)"

lemma moved_before_skip:
  assumes ok: "index_ok logs files m" and log: "logs fid = pre @ e # es"
    and m: "moved_before fid (log_size pre) m"
    and not: "\<And>d. m (re_key e) = Some d \<Longrightarrow> re_type e = kSet \<Longrightarrow> unat (loc_offset (dir_loc d)) = log_size pre \<Longrightarrow>
      loc_id (dir_loc d) \<noteq> fid"
  shows "moved_before fid (log_size (pre @ [e])) m"
  unfolding moved_before_def
proof (intro allI impI)
  fix k d
  assume k: "m k = Some d" and fid: "loc_id (dir_loc d) = fid"
  from index_okE [OF ok k] obtain x where x: "log_at (logs fid) (unat (loc_offset (dir_loc d))) = Some x"
    "re_type x = kSet" "re_key x = k" using fid by metis
  have "log_size pre \<le> unat (loc_offset (dir_loc d))" using m k fid by (simp add: moved_before_def)
  from log_at_next [OF _ this, of e es x] x(1) log
  show "log_size (pre @ [e]) \<le> unat (loc_offset (dir_loc d))"
    using not [of d] x(2,3) k fid by auto
qed

lemma moved_before_replay:
  assumes m: "moved_before fid off m" and loc: "loc_id loc \<noteq> fid"
  shows "moved_before fid off (replay_entry loc e m)"
  using assms by (auto simp: moved_before_def replay_entry_def)

lemma moved_before_end:
  assumes ok: "index_ok logs files m" and m: "moved_before fid (log_size (logs fid)) m" and k: "m k = Some d"
  shows "loc_id (dir_loc d) \<noteq> fid"
proof
  assume fid: "loc_id (dir_loc d) = fid"
  from index_okE [OF ok k] obtain x where "log_at (logs fid) (unat (loc_offset (dir_loc d))) = Some x"
    using fid by metis
  then have "unat (loc_offset (dir_loc d)) < log_size (logs fid)"
    using log_at_bound rec_size_pos(1) [of x] by (metis add_less_same_cancel1 less_add_same_cancel1 less_le_trans)
  then show False using m k fid unfolding moved_before_def by fastforce
qed

text \<open>What compaction keeps.\<close>

definition db_compacts ::
    "'a pedrolib \<Rightarrow> file_id \<Rightarrow> (file_id \<Rightarrow> rec_entry list) \<Rightarrow> 'a db \<Rightarrow> (file_id \<Rightarrow> rec_entry list) \<Rightarrow> 'a db \<Rightarrow> bool"
  where
  "db_compacts P fid logs s logs' s' \<longleftrightarrow> db_abs P logs' s' = db_abs P logs s
     \<and> db_options s' = db_options s \<and> db_readonly s' = db_readonly s \<and> db_max_file s' = db_max_file s
     \<and> db_active s \<le> db_active s' \<and> set (db_files s) \<subseteq> set (db_files s')
     \<and> (\<forall>x. x < db_active s \<longrightarrow> logs' x = logs x) \<and> logs' fid = logs fid
     \<and> (\<forall>x \<in> set (db_files s'). x \<in> set (db_files s) \<or> db_active s < x)
     \<and> (db_recoverable logs s \<longrightarrow> db_recoverable logs' s')
     \<and> mm_path (fm_meta (db_fm s')) = mm_path (fm_meta (db_fm s))"

lemma db_compacts_trans:
  assumes "db_compacts P fid logs s logs' s'" "db_compacts P fid logs' s' logs'' s''"
  shows "db_compacts P fid logs s logs'' s''"
  using assms unfolding db_compacts_def by (auto intro: order_trans less_le_trans le_less_trans) 

text \<open>One live record is moved.\<close>

lemma db_compact_move:
  assumes P: "pedrolib_ok P" and ok: "db_ok P cap logs s" and io: "io_good io"
    and f: "file_on P cap fid f s" and e: "rec_wf e" "re_type e = kSet"
    and at: "log_at (logs fid) (unat off) = Some e" and sz: "rec_size e \<le> cap"
    and idx: "db_indices s (re_key e) = Some d" "dir_loc d = Location fid off"
    and more: "db_active s \<noteq> -1"
  shows "\<exists>loc fm' logs'. fm_Append P cap io e (db_fm s) = Some (kOk, loc, fm')
     \<and> (let s' = db_compact_update e loc (s\<lparr>db_fm := fm'\<rparr>) in
         db_ok P cap logs' s' \<and> db_compacts P fid logs s logs' s' \<and> file_on P cap fid f s'
         \<and> db_indices s' = replay_entry loc e (db_indices s) \<and> loc_id loc \<noteq> fid
         \<and> unat (db_active s') \<le> Suc (unat (db_active s)) \<and> db_buf s' = db_buf s)"
proof -
  note k = db_okD [OF ok]
  have fid: "fid \<in> set (db_files s)" "fid < db_active s" using f by (simp_all add: file_on_def)
  obtain loc fm' logs' where a: "fm_Append P cap io e (db_fm s) = Some (kOk, loc, fm')"
    "fm_ok P cap logs' fm'" "appended cap logs (db_fm s) e loc logs' fm'" "links_kept P (db_fm s) fm'"
    "mm_path (fm_meta fm') = mm_path (fm_meta (db_fm s))"
    "unat (fm_active_id fm') \<le> Suc (unat (fm_active_id (db_fm s)))"
    using fm_Append_ok [OF P k(1) e(1) io sz] more by (auto simp: db_active_def)
  note ap = appended_facts [OF k(1) a(3)]
  let ?s' = "db_compact_update e loc (s\<lparr>db_fm := fm'\<rparr>)"
  have less: "Location fid off < loc" using ap(9) fid(1) at by (simp add: db_files_def)
  have s': "?s' = s\<lparr>db_fm := fm', db_indices := (db_indices s)(re_key e \<mapsto>
      \<lparr>dir_entry_size = rec_sizeof e, dir_loc = loc\<rparr>)\<rparr>"
    using idx less by (simp add: db_compact_update_def)
  have upd: "db_indices ?s' = replay_entry loc e (db_indices s)"
    unfolding s' using e(2) by (simp add: replay_entry_cases)
  have new: "loc_id loc \<noteq> fid" using ap(2,3) fid(2) by (auto simp: db_active_def)
  have valid: "rec_validate P e"
    using k(3) fid(1) log_at_in [OF at] by (simp add: records_valid_def)
  have ok': "db_ok P cap logs' ?s'"
    by (rule db_ok_put [OF P ok a(2,3) valid _ upd]) (use s' ap(3) k(5) in \<open>simp_all add: db_active_def\<close>)
  have same: "db_abs P logs s (re_key e) = Some (db_value P s e)"
    using idx at by (simp add: db_abs_def)
  have opts: "db_options ?s' = db_options s" and fmm: "db_fm ?s' = fm'" unfolding s' by simp_all
  have "db_abs P logs' ?s' = (db_abs P logs s)(re_key e \<mapsto> db_value P s e)"
    using db_abs_appended [OF ok _ upd opts] a(3) e(2) unfolding fmm by simp
  also have "\<dots> = db_abs P logs s" using same by auto
  finally have abs: "db_abs P logs' ?s' = db_abs P logs s" .
  have files: "set (db_files ?s') = insert (fm_active_id fm') (set (db_files s))"
    using ap(4) unfolding db_files_def fmm .
  have act: "db_active ?s' = fm_active_id fm'" "db_active s \<le> db_active ?s'"
    using ap(3) unfolding db_active_def fmm by simp_all
  have rec: "db_recoverable logs' ?s'" if "db_recoverable logs s"
    using that ap(10) [of "\<lambda>_. None"] upd unfolding db_recoverable_def db_files_def fmm by simp
  have "x \<in> set (db_files s) \<or> db_active s < x" if "x \<in> set (db_files ?s')" for x
    using that files act active_files(4) [OF k(1)]
    by (cases "db_active s = fm_active_id fm'") (auto simp: db_active_def db_files_def)
  then have comp: "db_compacts P fid logs s logs' ?s'"
    using abs opts files act ap(6,7) new ap(2) rec a(5) unfolding db_compacts_def fmm
    by (simp add: s' db_active_def) blast
  have on: "file_on P cap fid f ?s'"
    using f a(4) files act path_name(1) [of "fm_meta fm'" "fm_meta (db_fm s)" P]
    unfolding file_on_def links_kept_def fmm by (auto simp: db_files_def)
  show ?thesis
    using a(1,6) ok' comp on upd new act(1)
    by (intro exI [of _ loc] exI [of _ fm'] exI [of _ logs']) (simp add: Let_def db_active_def s')
qed

lemma file_on_log:
  assumes P: "pedrolib_ok P" and ok: "db_ok P cap logs s" and f: "file_on P cap fid f s"
  shows "rf_inv (fm_fs (db_fm s)) f" "log_file P cap (logs fid) (fs_data (fm_fs (db_fm s)) (rf_ino f))"
    "f_Size (rf_ops (fm_fs (db_fm s))) f = cap"
proof -
  have d: "disk_ok P cap logs (fm_fs (db_fm s)) (fm_meta (db_fm s))" using db_okD(1) [OF ok] by (simp add: fm_ok_def)
  have "fid \<in> set (mm_files (fm_meta (db_fm s)))" using f by (simp add: file_on_def db_files_def)
  from handle_log [OF P d this, of f] f show "rf_inv (fm_fs (db_fm s)) f"
    "log_file P cap (logs fid) (fs_data (fm_fs (db_fm s)) (rf_ino f))" "f_Size (rf_ops (fm_fs (db_fm s))) f = cap"
    by (simp_all add: file_on_def)
qed

lemma db_ok_buf [simp]: "db_ok P cap logs (s\<lparr>db_buf := buf\<rparr>) = db_ok P cap logs s"
  by (simp add: db_ok_def db_files_def db_active_def)

lemma db_buf_simps [simp]:
  "db_files (s\<lparr>db_buf := buf\<rparr>) = db_files s" "db_active (s\<lparr>db_buf := buf\<rparr>) = db_active s"
  "file_on P cap fid f (s\<lparr>db_buf := buf\<rparr>) = file_on P cap fid f s"
  "db_recoverable logs (s\<lparr>db_buf := buf\<rparr>) = db_recoverable logs s"
  "db_abs P logs (s\<lparr>db_buf := buf\<rparr>) = db_abs P logs s"
  by (simp_all add: db_files_def db_active_def file_on_def db_recoverable_def db_abs_def [abs_def]
      db_value_def [abs_def] cong: option.case_cong)

lemma db_compacts_buf [simp]: "db_compacts P fid logs s logs (s\<lparr>db_buf := buf\<rparr>)"
  by (simp add: db_compacts_def)

text \<open>The iterator delivers the next record of the file, whatever has been appended meanwhile.\<close>

lemma compact_next:
  assumes P: "pedrolib_ok P" and ok: "db_ok P cap logs s" and f: "file_on P cap fid f s"
    and log: "logs fid = pre @ e # es" "log_size (logs fid) < cap"
    and it: "ri_at P (rf_ops (fm_fs (db_fm s))) it (db_buf s) (log_size pre)" "ri_file it = f"
  shows "\<exists>it' buf'. ri_Valid P (rf_ops (fm_fs (db_fm s))) it (db_buf s) = Some (True, it', buf')
     \<and> ri_index it' = log_size pre \<and> fst (ri_Next it') = e \<and> ri_file (snd (ri_Next it')) = f
     \<and> ri_size (snd (ri_Next it')) = cap
     \<and> ri_at P (rf_ops (fm_fs (db_fm s))) (snd (ri_Next it')) buf' (log_size (pre @ [e]))"
proof -
  let ?F = "rf_ops (fm_fs (db_fm s))"
  note l = file_on_log [OF P ok f]
  have A: "codec_ok P" using P by simp
  have e: "rec_wf e" using l(2) log(1) by (simp add: log_file_def)
  have inv: "rf_inv (fm_fs (db_fm s)) (ri_file it)" using l(1) it(2) by simp
  have sl: "slice (fs_data (fm_fs (db_fm s)) (rf_ino (ri_file it))) (log_size pre) (rec_size e) = rec_bytes P e"
    using log_file_split [OF A, of cap pre e es] l(2) log(1) it(2) by simp
  have "log_size pre + rec_size e < f_Size ?F (ri_file it)" using log l(3) it(2) by simp
  from rf.ri_Valid_record [OF P inv it(1) e sl this] obtain it' buf' where
    v: "ri_Valid P ?F it (db_buf s) = Some (True, it', buf')" "ri_entry it' = e" "ri_file it' = ri_file it"
      "ri_index it' = log_size pre" "ri_read_index it' = log_size pre + rec_size e" "ri_size it' = ri_size it"
      "ab_bytes P buf' = []" by blast
  have size: "ri_size it' = f_Size ?F (ri_file it')" using v it(1) by (simp add: ri_at_def)
  have "rec_wf (ri_entry it')" "ri_read_index it' = ri_index it' + rec_size (ri_entry it')" using v e by simp_all
  from ri_Next_at [OF this size v(7)] v it(2) l(3) size show ?thesis
    by (intro exI [of _ it'] exI [of _ buf']) (simp add: ri_Next_def)
qed

lemma compact_end:
  assumes P: "pedrolib_ok P" and ok: "db_ok P cap logs s" and f: "file_on P cap fid (ri_file it) s"
    and it: "ri_at P (rf_ops (fm_fs (db_fm s))) it (db_buf s) (log_size (logs fid))"
  obtains it' buf' where "ri_Valid P (rf_ops (fm_fs (db_fm s))) it (db_buf s) = Some (False, it', buf')"
proof -
  note l = file_on_log [OF P ok f]
  have "drop (log_size (logs fid)) (fs_data (fm_fs (db_fm s)) (rf_ino (ri_file it)))
      = replicate (cap - log_size (logs fid)) 0"
    using l(2) P by (simp add: log_file_def)
  with rf.ri_Valid_zeros [OF P l(1) it] that show thesis by blast
qed

lemma ri_at_frame:
  assumes "ri_at P F it buf off" "f_Size F' (ri_file it) = f_Size F (ri_file it)"
  shows "ri_at P F' it buf off"
  using assms by (simp add: ri_at_def)

lemma db_compact_loop_ok:
  assumes P: "pedrolib_ok P" and io: "io_good io" and all: "log_size all < cap"
  shows "all = pre @ es \<Longrightarrow> logs fid = all \<Longrightarrow> db_ok P cap logs s \<Longrightarrow> file_on P cap fid f s \<Longrightarrow>
     ri_at P (rf_ops (fm_fs (db_fm s))) it (db_buf s) (log_size pre) \<Longrightarrow> ri_file it = f \<Longrightarrow>
     moved_before fid (log_size pre) (db_indices s) \<Longrightarrow> unat (db_active s) + length es < 2 ^ 32 - 1 \<Longrightarrow>
     \<exists>s' logs'. db_compact_loop P cap io fid it s = Some (True, s') \<and> db_ok P cap logs' s'
       \<and> db_compacts P fid logs s logs' s' \<and> file_on P cap fid f s'
       \<and> (\<forall>k d. db_indices s' k = Some d \<longrightarrow> loc_id (dir_loc d) \<noteq> fid)
       \<and> unat (db_active s') \<le> unat (db_active s) + length es"
proof (induction es arbitrary: pre it s logs)
  case Nil
  have pre: "pre = logs fid" using Nil.prems(1,2) by simp
  obtain it' buf' where
    v: "ri_Valid P (rf_ops (fm_fs (db_fm s))) it (db_buf s) = Some (False, it', buf')"
    by (rule compact_end [OF P Nil.prems(3), of fid it]) (use Nil.prems(4-6) pre in simp_all)
  have "loc_id (dir_loc d) \<noteq> fid" if k: "db_indices s k = Some d" for k d
    using moved_before_end [OF db_okD(2) [OF Nil.prems(3)] _ k] Nil.prems(7) pre by simp
  then show ?case
    using v Nil.prems(3,4)
    by (subst db_compact_loop.simps) (auto simp: Let_def intro!: exI [of _ "s\<lparr>db_buf := buf'\<rparr>"] exI [of _ logs])
next
  case (Cons e es)
  let ?F = "rf_ops (fm_fs (db_fm s))" and ?off = "log_size pre"
  have log: "logs fid = pre @ e # es" "log_size (logs fid) < cap" using Cons.prems(1,2) all by simp_all
  from compact_next [OF P Cons.prems(3,4) log Cons.prems(5,6)] obtain it1 buf1 where
    v: "ri_Valid P ?F it (db_buf s) = Some (True, it1, buf1)" "ri_index it1 = ?off" "fst (ri_Next it1) = e"
      "ri_file (snd (ri_Next it1)) = f" "ri_at P ?F (snd (ri_Next it1)) buf1 (log_size (pre @ [e]))" by blast
  let ?s = "s\<lparr>db_buf := buf1\<rparr>"
  have step: "db_compact_loop P cap io fid it s =
     (if re_type e \<noteq> kSet \<or> \<not> db_compact_check fid (of_nat ?off) e ?s
      then db_compact_loop P cap io fid (snd (ri_Next it1)) ?s
      else case fm_Append P cap io e (db_fm s) of
        None \<Rightarrow> None
      | Some (status, loc, fm) \<Rightarrow>
          if status \<noteq> kOk then Some (False, ?s\<lparr>db_fm := fm\<rparr>)
          else db_compact_loop P cap io fid (snd (ri_Next it1)) (db_compact_update e loc (?s\<lparr>db_fm := fm\<rparr>)))"
  proof -
    obtain it2 where "ri_Next it1 = (e, it2)" using v(3) by (cases "ri_Next it1") simp
    then show ?thesis
      using v(1,2) by (subst db_compact_loop.simps) (auto simp: Let_def ri_GetOffset_def split: option.splits)
  qed
  have ok1: "db_ok P cap logs ?s" and on1: "file_on P cap fid f ?s" using Cons.prems(3,4) by simp_all
  have room: "unat (db_active ?s) + length es < 2 ^ 32 - 1" using Cons.prems(8) by simp
  have at1: "ri_at P (rf_ops (fm_fs (db_fm ?s))) (snd (ri_Next it1)) (db_buf ?s) (log_size (pre @ [e]))"
    using v(5) by simp
  have off: "unat (of_nat ?off :: u32) = ?off"
    using appended_log_bound(1,2) [OF db_okD(1) [OF Cons.prems(3)], of fid] Cons.prems(4) log(1)
    by (simp add: file_on_def db_files_def)
  show ?case
  proof (cases "re_type e \<noteq> kSet \<or> \<not> db_compact_check fid (of_nat ?off) e ?s")
    case True
    have "moved_before fid (log_size (pre @ [e])) (db_indices ?s)"
    proof (rule moved_before_skip [OF db_okD(2) [OF ok1] log(1)])
      show "moved_before fid (log_size pre) (db_indices ?s)" using Cons.prems(7) by simp
      fix d
      assume d: "db_indices ?s (re_key e) = Some d" "re_type e = kSet" "unat (loc_offset (dir_loc d)) = ?off"
      then have "loc_offset (dir_loc d) = of_nat ?off" by (metis of_nat_unat ucast_id)
      then show "loc_id (dir_loc d) \<noteq> fid"
        using True d(1,2) by (cases "dir_loc d") (auto simp: db_compact_check_def)
    qed
    from Cons.IH [OF _ _ ok1 on1 at1 v(4) this room] Cons.prems(1,2) obtain s' logs' where
      r: "db_compact_loop P cap io fid (snd (ri_Next it1)) ?s = Some (True, s')" "db_ok P cap logs' s'"
      "db_compacts P fid logs ?s logs' s'" "file_on P cap fid f s'"
      "\<forall>k d. db_indices s' k = Some d \<longrightarrow> loc_id (dir_loc d) \<noteq> fid"
      "unat (db_active s') \<le> unat (db_active ?s) + length es" by auto
    then show ?thesis
      using True step db_compacts_trans [OF db_compacts_buf r(3)] by (intro exI [of _ s'] exI [of _ logs']) simp
  next
    case False
    then obtain d where d: "re_type e = kSet" "db_indices ?s (re_key e) = Some d"
      "dir_loc d = Location fid (of_nat ?off)"
      by (auto simp: db_compact_check_def split: option.splits)
    have at: "log_at (logs fid) (unat (of_nat ?off :: u32)) = Some e"
      unfolding off log(1) log_at_split by auto
    note b = appended_log_bound(1,3) [OF db_okD(1) [OF ok1], of fid]
    have e: "rec_wf e" "rec_size e \<le> cap"
      using b on1 log(1) by (auto simp: file_on_def db_files_def)
    have more: "db_active ?s \<noteq> -1" using Cons.prems(8) by (auto simp: unsigned_minus_1_eq_mask mask_eq_exp_minus_1)
    from db_compact_move [OF P ok1 io on1 e(1) d(1) at e(2) d(2,3) more] obtain loc fm' logs1 where
      m: "fm_Append P cap io e (db_fm s) = Some (kOk, loc, fm')" and
      m2: "let s' = db_compact_update e loc (?s\<lparr>db_fm := fm'\<rparr>) in
         db_ok P cap logs1 s' \<and> db_compacts P fid logs ?s logs1 s' \<and> file_on P cap fid f s'
         \<and> db_indices s' = replay_entry loc e (db_indices ?s) \<and> loc_id loc \<noteq> fid
         \<and> unat (db_active s') \<le> Suc (unat (db_active ?s)) \<and> db_buf s' = db_buf ?s" by auto
    define s1 where "s1 = db_compact_update e loc (?s\<lparr>db_fm := fm'\<rparr>)"
    have s1: "db_ok P cap logs1 s1" "db_compacts P fid logs ?s logs1 s1" "file_on P cap fid f s1"
      "db_indices s1 = replay_entry loc e (db_indices s)" "loc_id loc \<noteq> fid"
      "unat (db_active s1) \<le> Suc (unat (db_active s))" "db_buf s1 = buf1"
      using m2 by (simp_all add: Let_def s1_def)
    have at2: "ri_at P (rf_ops (fm_fs (db_fm s1))) (snd (ri_Next it1)) (db_buf s1) (log_size (pre @ [e]))"
      using ri_at_frame [OF v(5)] file_on_log(3) [OF P s1(1,3)] file_on_log(3) [OF P Cons.prems(3,4)] v(4) s1(7)
      by simp
    have log1: "logs1 fid = pre @ e # es" using s1(2) log(1) by (simp add: db_compacts_def)
    have mb: "moved_before fid (log_size pre) (db_indices s1)"
      unfolding s1(4) by (rule moved_before_replay [OF Cons.prems(7) s1(5)])
    have "moved_before fid (log_size (pre @ [e])) (db_indices s1)"
    proof (rule moved_before_skip [OF db_okD(2) [OF s1(1)] log1 mb])
      fix d'
      assume "db_indices s1 (re_key e) = Some d'"
      then show "loc_id (dir_loc d') \<noteq> fid" using s1(4,5) d(1) by (auto simp: replay_entry_cases)
    qed
    from Cons.IH [OF _ _ s1(1,3) at2 v(4) this] log1 Cons.prems(1,2,8) s1(6) obtain s' logs' where
      r: "db_compact_loop P cap io fid (snd (ri_Next it1)) s1 = Some (True, s')" "db_ok P cap logs' s'"
      "db_compacts P fid logs1 s1 logs' s'" "file_on P cap fid f s'"
      "\<forall>k d. db_indices s' k = Some d \<longrightarrow> loc_id (dir_loc d) \<noteq> fid"
      "unat (db_active s') \<le> unat (db_active s1) + length es" by auto
    have "db_compact_loop P cap io fid it s = Some (True, s')"
      using step False m r(1) by (simp add: s1_def)
    moreover have "db_compacts P fid logs s logs' s'"
      using db_compacts_trans [OF db_compacts_trans [OF db_compacts_buf s1(2)] r(3)] .
    ultimately show ?thesis
      using r s1(6) by (intro exI [of _ s'] exI [of _ logs']) simp
  qed
qed

section \<open>Removing the file from the replay\<close>

text \<open>
  Per key, a log either leaves the index alone, or ends in an entry into its file, or ends in a
  deletion; and a list of files either leaves the index of a key alone or determines it.
\<close>

lemma replay_log_cases:
  "replay_log fid off es m k = m k
   \<or> (\<exists>d. replay_log fid off es m k = Some d \<and> loc_id (dir_loc d) = fid)
   \<or> replay_log fid off es m k = None \<and> (\<exists>e \<in> set es. re_type e = kDelete \<and> re_key e = k)"
proof (induction fid off es m rule: replay_log.induct)
  case (2 fid off e es m)
  show ?case
  proof (cases "replay_entry (Location fid (of_nat off)) e m k = m k")
    case True
    then show ?thesis using 2 by auto
  next
    case False
    then have "replay_entry (Location fid (of_nat off)) e m k
        = Some \<lparr>dir_entry_size = rec_sizeof e, dir_loc = Location fid (of_nat off)\<rparr>
        \<or> replay_entry (Location fid (of_nat off)) e m k = None \<and> re_type e = kDelete \<and> re_key e = k"
      by (auto simp: replay_entry_def split: if_splits)
    then show ?thesis using 2 by auto
  qed
qed simp

lemma replay_log_indep:
  "(\<forall>m m'. replay_log fid off es m k = replay_log fid off es m' k) \<or> (\<forall>m. replay_log fid off es m k = m k)"
proof (induction es arbitrary: off)
  case (Cons e es)
  have "(\<forall>m m'. replay_entry loc e m k = replay_entry loc e m' k) \<or> (\<forall>m. replay_entry loc e m k = m k)" for loc
    by (auto simp: replay_entry_def)
  with Cons [of "off + rec_size e"] show ?case by simp metis
qed simp

lemma replay_indep:
  "(\<forall>m m'. replay logs files m k = replay logs files m' k) \<or> (\<forall>m. replay logs files m k = m k)"
proof (induction files)
  case (Cons fid fids)
  then show ?case using replay_log_indep [of fid 0 "logs fid" k] by simp metis
qed simp

lemma replay_log_untouched:
  "\<forall>e \<in> set es. re_key e \<noteq> k \<Longrightarrow> replay_log fid off es m k = m k"
  by (induction fid off es m rule: replay_log.induct) (auto simp: replay_entry_def)

lemma replay_untouched:
  "\<forall>fid \<in> set files. \<forall>e \<in> set (logs fid). re_key e \<noteq> k \<Longrightarrow> replay logs files m k = m k"
  by (induction files arbitrary: m) (auto simp: replay_log_untouched)

text \<open>
  Tombstones that are needed: a deletion in the file of a key that an older file still has.
\<close>

definition shields :: "(file_id \<Rightarrow> rec_entry list) \<Rightarrow> file_id list \<Rightarrow> file_id \<Rightarrow> bool" where
  "shields logs files fid \<longleftrightarrow> (\<exists>e \<in> set (logs fid). re_type e = kDelete \<and>
     (\<exists>fid' \<in> set files. fid' < fid \<and> (\<exists>e' \<in> set (logs fid'). re_key e' = re_key e)))"

lemma replay_erase:
  assumes files: "sorted files" "distinct files" "fid \<in> set files"
    and gone: "\<And>k d. replay logs files (\<lambda>_. None) k = Some d \<Longrightarrow> loc_id (dir_loc d) \<noteq> fid"
    and tomb: "\<not> shields logs files fid"
  shows "replay logs (set_erase fid files) (\<lambda>_. None) = replay logs files (\<lambda>_. None)"
proof
  fix k
  from files(3) obtain A B where ab: "files = A @ fid # B" by (meson split_list)
  have notin: "fid \<notin> set A" "fid \<notin> set B" using files(2) ab by auto
  then have er: "set_erase fid files = A @ B"
  proof -
    have "filter (\<lambda>y. y \<noteq> fid) A = A" "filter (\<lambda>y. y \<noteq> fid) B = B"
      using notin by (auto simp: filter_id_conv)
    then show ?thesis unfolding ab set_erase_def by simp
  qed
  let ?M = "replay logs A (\<lambda>_. None)" and ?L = "replay_log fid 0 (logs fid)"
  have whole: "replay logs files (\<lambda>_. None) k = replay logs B (?L ?M) k" using ab by simp
  have goal: "replay logs B ?M k = replay logs B (?L ?M) k"
  proof (cases "\<forall>m m'. replay logs B m k = replay logs B m' k")
    case False
    then have B: "replay logs B m k = m k" for m using replay_indep [of logs B k] by blast
    have "?M k = ?L ?M k"
    proof (rule ccontr)
      assume ne: "?M k \<noteq> ?L ?M k"
      have "loc_id (dir_loc d) \<noteq> fid" if "?L ?M k = Some d" for d using gone that whole B by simp
      then have n: "?L ?M k = None" "\<exists>e \<in> set (logs fid). re_type e = kDelete \<and> re_key e = k"
        using replay_log_cases [of fid 0 "logs fid" ?M k] ne by metis+
      have "fid' < fid" if "fid' \<in> set A" for fid'
        using files(1) that notin(1) unfolding ab by (auto simp: sorted_append order.strict_iff_order)
      then have "\<forall>fid' \<in> set A. \<forall>e \<in> set (logs fid'). re_key e \<noteq> k"
        using tomb n(2) unfolding shields_def ab by auto
      from replay_untouched [OF this] n(1) ne show False by simp
    qed
    then show ?thesis using B by simp
  qed blast
  then show "replay logs (set_erase fid files) (\<lambda>_. None) k = replay logs files (\<lambda>_. None) k"
    unfolding er using whole by simp
qed

section \<open>Compacting a file\<close>

lemma db_ok_states [simp]:
  "db_ok P cap logs (s\<lparr>db_file_states := st\<rparr>) = db_ok P cap logs s"
  "db_ok P cap logs (set_file_state fid x s) = db_ok P cap logs s"
  "db_ok P cap logs (s\<lparr>db_compact_tasks := ts\<rparr>) = db_ok P cap logs s"
  by (simp_all add: db_ok_def db_files_def db_active_def)

text \<open>What is left when the loop has ended: the states of the file are erased, the file removed.\<close>

lemma db_ok_removed:
  assumes ok: "db_ok P cap logs s" and fm: "fm_ok P cap logs fm"
    and act: "fm_active_id fm = db_active s"
    and files: "mm_files (fm_meta fm) = set_erase fid (db_files s)"
    and gone: "\<And>k d. db_indices s k = Some d \<Longrightarrow> loc_id (dir_loc d) \<noteq> fid"
  shows "db_ok P cap logs (s\<lparr>db_fm := fm\<rparr>)" (is "db_ok P cap logs ?s")
proof -
  note d = db_okD [OF ok]
  have f: "db_files ?s = set_erase fid (db_files s)" "db_active ?s = db_active s"
    using files act by (simp_all add: db_files_def db_active_def)
  have "index_ok logs (db_files ?s) (db_indices ?s)"
    using d(2) gone unfolding f index_ok_def dir_ok_def by simp
  moreover have "records_valid P logs (db_files ?s)" using d(3) unfolding f records_valid_def by auto
  moreover have "rc_cache_ok P (fm_holds P (db_fm ?s)) (\<lambda>fid. fid < db_active ?s) (db_read_cache ?s)"
  proof -
    have k: "disk_ok P cap logs (fm_fs (db_fm s)) (fm_meta (db_fm s))" "disk_ok P cap logs (fm_fs fm) (fm_meta fm)"
      using d(1) fm by (simp_all add: fm_ok_def)
    have "fm_holds P (db_fm s) x c" if "fm_holds P fm x c" for x c
      using that files act unfolding fm_holds_log [OF k(1)] fm_holds_log [OF k(2)]
      by (simp add: db_files_def db_active_def)
    then show ?thesis using rc_cache_ok_mono [OF d(4)] f(2) by simp
  qed
  ultimately show ?thesis using fm d(5,6) f by (simp add: db_ok_def)
qed

text \<open>
  The main statement on compaction: the file is gone, the map is the same, and the index stays what
  recovery computes unless the file holds a tombstone that is still needed.
\<close>

lemma db_compact_file_ok:
  assumes P: "pedrolib_ok P" and ok: "db_ok P cap logs s" and io: "io_good io" and rw: "\<not> db_readonly s"
    and fid: "fid \<in> set (db_files s)" "fid \<noteq> db_active s" and full: "log_size (logs fid) < cap"
    and room: "unat (db_active s) + length (logs fid) < 2 ^ 32 - 1"
  shows "\<exists>s' logs'. db_compact_file P cap io fid s = Some s' \<and> db_ok P cap logs' s'
     \<and> db_abs P logs' s' = db_abs P logs s \<and> fid \<notin> set (db_files s')
     \<and> db_options s' = db_options s \<and> \<not> db_readonly s' \<and> db_max_file s' = db_max_file s
     \<and> (\<forall>x. x < db_active s \<longrightarrow> logs' x = logs x)
     \<and> set (db_files s) - {fid} \<subseteq> set (db_files s')
     \<and> (\<forall>x \<in> set (db_files s'). x \<in> set (db_files s) \<or> db_active s < x) \<and> db_active s \<le> db_active s'
     \<and> unat (db_active s') \<le> unat (db_active s) + length (logs fid)
     \<and> (db_recoverable logs s \<and> \<not> shields logs (db_files s) fid \<longrightarrow> db_recoverable logs' s')
     \<and> mm_path (fm_meta (db_fm s')) = mm_path (fm_meta (db_fm s))"
proof -
  note d = db_okD [OF ok]
  have fid': "fid \<in> set (mm_files (fm_meta (db_fm s)))" "fid \<noteq> fm_active_id (db_fm s)"
    using fid by (simp_all add: db_files_def db_active_def)
  have lt: "fid < db_active s"
    using active_files(3) [OF d(1) fid'(1)] fid by (simp add: db_active_def)
  have dc: "disk_ok P cap logs (fm_fs (db_fm s)) (fm_meta (db_fm s))" "cache_ok P cap (db_fm s)"
    using d(1) by (simp_all add: fm_ok_def)
  obtain f c where f: "fm_AcquireDataFile P io fid (db_fm s) = (kOk, Some f, (db_fm s)\<lparr>fm_open_files := c\<rparr>)"
    "cache_ok P cap ((db_fm s)\<lparr>fm_open_files := c\<rparr>)"
    "fs_links (fm_fs (db_fm s)) (mm_GetDataFilePath P (fm_meta (db_fm s)) fid) = Some (rf_ino f)"
    "rf_length f = cap"
    using fm_AcquireDataFile_disk [OF dc P io fid'] by blast
  let ?fm = "(db_fm s)\<lparr>fm_open_files := c\<rparr>"
  let ?s1 = "set_file_state fid (file_state_of (s\<lparr>db_fm := ?fm\<rparr>) fid\<lparr>compact_state := kCompacting\<rparr>) (s\<lparr>db_fm := ?fm\<rparr>)"
  have fm1: "fm_ok P cap logs ?fm" by (rule fm_ok_open_files [OF d(1) f(2)])
  have ok1: "db_ok P cap logs ?s1"
    using db_ok_reads [OF ok fm1 d(4), of "db_buf s"] by (simp add: db_ok_def db_files_def db_active_def)
  have on1: "file_on P cap fid f ?s1" using fid lt f(3,4) by (simp add: file_on_def db_files_def db_active_def)
  let ?it = "ri_new (rf_ops (fm_fs ?fm)) f"
  have at1: "ri_at P (rf_ops (fm_fs (db_fm ?s1))) ?it (db_buf ?s1) (log_size [])"
    using ri_at_new [of "rf_ops (fm_fs ?fm)" f P "db_buf s"] file_on_log(3) [OF P ok1 on1] disk_okD(1) [OF dc(1)]
    by simp
  from db_compact_loop_ok [OF P io full, of "[]" "logs fid" logs fid ?s1 f ?it] ok1 on1 at1 room
  obtain s2 logs2 where s2: "db_compact_loop P cap io fid ?it ?s1 = Some (True, s2)" "db_ok P cap logs2 s2"
    "db_compacts P fid logs ?s1 logs2 s2" "file_on P cap fid f s2"
    "\<And>k d. db_indices s2 k = Some d \<Longrightarrow> loc_id (dir_loc d) \<noteq> fid"
    "unat (db_active s2) \<le> unat (db_active s) + length (logs fid)"
    by (auto simp: ri_new_def moved_before_def db_active_def)
  have same: "db_abs P logs ?s1 = db_abs P logs s" "db_recoverable logs ?s1 = db_recoverable logs s"
    "db_files ?s1 = db_files s" "db_active ?s1 = db_active s"
    by (simp_all add: db_abs_def [abs_def] db_value_def [abs_def] db_recoverable_def db_files_def db_active_def
        cong: option.case_cong)
  have inactive: "fid \<noteq> fm_active_id (db_fm s2)" using s2(4) by (auto simp: file_on_def db_active_def)
  from fm_RemoveFile_ok [OF P db_okD(1) [OF s2(2)] io inactive] obtain fm3 where
    r: "fm_RemoveFile P io fid (db_fm s2) = (kOk, fm3)" "fm_ok P cap logs2 fm3"
      "fm_active_id fm3 = fm_active_id (db_fm s2)"
      "mm_files (fm_meta fm3) = set_erase fid (mm_files (fm_meta (db_fm s2)))"
      "mm_path (fm_meta fm3) = mm_path (fm_meta (db_fm s2))" by blast
  let ?s3 = "s2\<lparr>db_file_states := (db_file_states s2)(fid := None), db_fm := fm3\<rparr>"
  have res: "db_compact_file P cap io fid s = Some ?s3"
    using rw f(1) s2(1) r(1) by (simp add: db_compact_file_def Let_def)
  have "db_ok P cap logs2 (s2\<lparr>db_fm := fm3\<rparr>)"
    using db_ok_removed [OF s2(2) r(2) _ _ s2(5)] r(3,4) by (simp add: db_active_def db_files_def)
  then have ok3: "db_ok P cap logs2 ?s3" by (simp add: db_ok_def db_files_def db_active_def)
  have f3: "db_files ?s3 = set_erase fid (db_files s2)" "db_active ?s3 = db_active s2"
    using r(3,4) by (simp_all add: db_files_def db_active_def)
  have abs3: "db_abs P logs2 ?s3 = db_abs P logs2 s2"
    by (simp add: db_abs_def [abs_def] db_value_def [abs_def] cong: option.case_cong)
  have rec3: "db_recoverable logs2 ?s3" if rec: "db_recoverable logs s" and sh: "\<not> shields logs (db_files s) fid"
  proof -
    have rec2: "db_recoverable logs2 s2" using s2(3) same rec by (simp add: db_compacts_def)
    have srt: "sorted (db_files s2)" "distinct (db_files s2)"
      using db_okD(1) [OF s2(2)] mm_ok_files disk_okD(4) unfolding fm_ok_def db_files_def by blast+
    have fin: "fid \<in> set (db_files s2)" using s2(4) by (simp add: file_on_def)
    have old: "x \<in> set (db_files s) \<and> logs2 x = logs x" if "x \<in> set (db_files s2)" "x < fid" for x
      using s2(3) that lt same(3,4) unfolding db_compacts_def by (metis less_trans order.asym)
    have "\<not> shields logs2 (db_files s2) fid"
      using sh old s2(3) unfolding shields_def db_compacts_def by metis
    with replay_erase [OF srt fin, of logs2] s2(5) rec2 show ?thesis
      unfolding db_recoverable_def f3 by simp
  qed
  show ?thesis
    using res ok3 f3 abs3 rec3 s2(3,6) same r(5) rw
    by (intro exI [of _ ?s3] exI [of _ logs2]) (auto simp: db_compacts_def)
qed

section \<open>Compacting the queued files\<close>

text \<open>A file that is no longer there is skipped.\<close>

lemma fm_AcquireDataFile_missing:
  assumes ok: "fm_ok P cap logs s" and fid: "fid \<notin> set (mm_files (fm_meta s))" "fid \<noteq> fm_active_id s"
  shows "\<exists>c. fm_AcquireDataFile P io fid s = (kIOError, None, s\<lparr>fm_open_files := c\<rparr>)
     \<and> fm_ok P cap logs (s\<lparr>fm_open_files := c\<rparr>)"
proof -
  let ?Q = "handle_ok P cap (fm_fs s) (fm_meta s)"
  have dok: "disk_ok P cap logs (fm_fs s) (fm_meta s)" and cok: "cache_ok P cap s"
    using ok by (simp_all add: fm_ok_def)
  have c: "lru_ok (fm_open_files s)" "cache_sound lru_lookup ?Q (fm_open_files s)"
    using cok by (simp_all add: cache_ok_def)
  have none: "fs_links (fm_fs s) (mm_GetDataFilePath P (fm_meta s) fid) = None"
    by (rule disk_okD(7) [OF dok fid(1)])
  obtain hit c1 where g: "lru_Get fid (fm_open_files s) = (hit, c1)" by fastforce
  have "hit = None"
  proof (cases hit)
    case (Some f)
    then have "?Q fid f" using lru.sound_hit [OF c, of fid f c1] g by simp
    then show ?thesis using none by (simp add: handle_ok_def)
  qed
  moreover have "cache_ok P cap (s\<lparr>fm_open_files := c1\<rparr>)"
    using lru.get_inv [OF c(1), of fid] lru.sound_get [OF c, of fid] g by (simp add: cache_ok_def)
  ultimately show ?thesis
    using g fid(2) pro_Open_missing [OF none] fm_ok_open_files [OF ok]
    by (intro exI [of _ c1]) (simp add: fm_AcquireDataFile_def)
qed

lemma db_compact_file_missing:
  assumes ok: "db_ok P cap logs s" and rw: "\<not> db_readonly s"
    and fid: "fid \<notin> set (db_files s)" "fid \<noteq> db_active s"
  shows "\<exists>s'. db_compact_file P cap io fid s = Some s' \<and> db_ok P cap logs s' \<and> db_reads s s'"
proof -
  note d = db_okD [OF ok]
  from fm_AcquireDataFile_missing [OF d(1), of fid io] fid obtain c where c:
    "fm_AcquireDataFile P io fid (db_fm s) = (kIOError, None, (db_fm s)\<lparr>fm_open_files := c\<rparr>)"
    "fm_ok P cap logs ((db_fm s)\<lparr>fm_open_files := c\<rparr>)"
    by (auto simp: db_files_def db_active_def)
  let ?s = "s\<lparr>db_fm := (db_fm s)\<lparr>fm_open_files := c\<rparr>\<rparr>"
  have "?s = s\<lparr>db_fm := (db_fm s)\<lparr>fm_open_files := c\<rparr>, db_read_cache := db_read_cache s, db_buf := db_buf s\<rparr>"
    by simp
  then have "db_reads s ?s" "db_ok P cap logs ?s"
    using db_ok_reads [OF ok c(2) d(4), of "db_buf s"] unfolding db_reads_def by (blast, simp)
  then show ?thesis using rw c(1) by (simp add: db_compact_file_def)
qed

definition compact_rel ::
    "'a pedrolib \<Rightarrow> nat \<Rightarrow> (file_id \<Rightarrow> rec_entry list) \<Rightarrow> 'a db \<Rightarrow> (file_id \<Rightarrow> rec_entry list) \<Rightarrow> 'a db \<Rightarrow> bool"
  where
  "compact_rel P cap logs s logs' s' \<longleftrightarrow> db_ok P cap logs' s' \<and> db_abs P logs' s' = db_abs P logs s
     \<and> db_options s' = db_options s \<and> db_readonly s' = db_readonly s \<and> db_max_file s' = db_max_file s
     \<and> (\<forall>x. x < db_active s \<longrightarrow> logs' x = logs x) \<and> db_active s \<le> db_active s'
     \<and> (\<forall>x \<in> set (db_files s'). x \<in> set (db_files s) \<or> db_active s < x)
     \<and> mm_path (fm_meta (db_fm s')) = mm_path (fm_meta (db_fm s))"

lemma compact_rel_trans:
  assumes "compact_rel P cap logs s logs' s'" "compact_rel P cap logs' s' logs'' s''"
  shows "compact_rel P cap logs s logs'' s''"
  using assms unfolding compact_rel_def by (auto intro: order_trans less_le_trans le_less_trans)

lemma db_compact_files_ok:
  assumes P: "pedrolib_ok P" and io: "io_good io"
  shows "db_ok P cap logs s \<Longrightarrow> \<not> db_readonly s \<Longrightarrow> (\<And>fid. fid \<in> set fids \<Longrightarrow> fid < db_active s) \<Longrightarrow>
     (\<And>fid. fid \<in> set fids \<Longrightarrow> log_size (logs fid) < cap) \<Longrightarrow>
     unat (db_active s) + (\<Sum>fid \<leftarrow> fids. length (logs fid)) < 2 ^ 32 - 1 \<Longrightarrow>
     \<exists>s' logs'. db_compact_files P cap io fids s = Some s' \<and> compact_rel P cap logs s logs' s'
       \<and> (\<forall>fid \<in> set fids. fid \<notin> set (db_files s'))"
proof (induction fids arbitrary: s logs)
  case Nil
  then show ?case by (intro exI [of _ s] exI [of _ logs]) (simp add: compact_rel_def)
next
  case (Cons fid fids)
  have lt: "fid < db_active s" and full: "log_size (logs fid) < cap" using Cons.prems(3,4) by simp_all
  have room: "unat (db_active s) + length (logs fid) < 2 ^ 32 - 1" using Cons.prems(5) by simp
  obtain s1 logs1 where s1: "db_compact_file P cap io fid s = Some s1" "compact_rel P cap logs s logs1 s1"
    "fid \<notin> set (db_files s1)" "unat (db_active s1) \<le> unat (db_active s) + length (logs fid)"
  proof (cases "fid \<in> set (db_files s)")
    case True
    from db_compact_file_ok [OF P Cons.prems(1) io Cons.prems(2) True _ full room] lt
    show ?thesis using that Cons.prems(2) unfolding compact_rel_def by blast
  next
    case False
    from db_compact_file_missing [OF Cons.prems(1,2) False, of io] lt obtain s' where
      s': "db_compact_file P cap io fid s = Some s'" "db_ok P cap logs s'" "db_reads s s'" by auto
    then show ?thesis
      using that [of s' logs] False db_reads_same [OF s'(3)] by (simp add: compact_rel_def)
  qed
  have rel: "\<And>x. x < db_active s \<Longrightarrow> logs1 x = logs x" "db_active s \<le> db_active s1" "db_ok P cap logs1 s1"
    "\<not> db_readonly s1"
    using s1(2) Cons.prems(2) by (simp_all add: compact_rel_def)
  have lens: "length (logs1 x) = length (logs x)" if "x \<in> set fids" for x
    using rel(1) Cons.prems(3) [of x] that by simp
  have "(\<Sum>x \<leftarrow> fids. length (logs1 x)) = (\<Sum>x \<leftarrow> fids. length (logs x))"
    using lens by (intro arg_cong [where f = sum_list] map_cong) auto
  then have room1: "unat (db_active s1) + (\<Sum>x \<leftarrow> fids. length (logs1 x)) < 2 ^ 32 - 1"
    using Cons.prems(5) s1(4) by simp
  have "x < db_active s1" "log_size (logs1 x) < cap" if "x \<in> set fids" for x
    using Cons.prems(3,4) [of x] rel(1,2) that by (auto intro: less_le_trans)
  from Cons.IH [OF rel(3,4) this room1] obtain s2 logs2 where s2:
    "db_compact_files P cap io fids s1 = Some s2" "compact_rel P cap logs1 s1 logs2 s2"
    "\<forall>fid \<in> set fids. fid \<notin> set (db_files s2)" by blast
  have "fid \<notin> set (db_files s2)"
    using s1(3) s2(2) lt rel(2) unfolding compact_rel_def by (metis less_le_trans order.asym)
  then show ?case
    using s1(1) s2(1,3) compact_rel_trans [OF s1(2) s2(2)] by auto
qed

text \<open>\<^verbatim>\<open>PollCompactTask\<close> empties the queue and marks its files.\<close>

lemma foldl_set_states:
  "\<exists>st. foldl (\<lambda>s fid. set_file_state fid (file_state_of s fid\<lparr>compact_state := kScheduling\<rparr>) s) s fids
     = s\<lparr>db_file_states := st\<rparr>"
proof (induction fids arbitrary: s)
  case Nil
  show ?case by (rule exI [of _ "db_file_states s"]) simp
next
  case (Cons fid fids)
  from Cons [of "set_file_state fid (file_state_of s fid\<lparr>compact_state := kScheduling\<rparr>) s"]
  show ?case by (auto simp: set_file_state_def)
qed

lemma db_PollCompactTask_ok:
  "\<exists>st. db_PollCompactTask s = (db_compact_tasks s, s\<lparr>db_compact_tasks := [], db_file_states := st\<rparr>)"
  using foldl_set_states [of "s\<lparr>db_compact_tasks := []\<rparr>" "db_compact_tasks s"]
  by (auto simp: db_PollCompactTask_def Let_def)

lemma sum_list_sort: "(\<Sum>x \<leftarrow> sort xs. f x) = (\<Sum>x \<leftarrow> xs. f x :: nat)"
proof (induction xs)
  case (Cons x xs)
  have "(\<Sum>y \<leftarrow> insort x ys. f y) = f x + (\<Sum>y \<leftarrow> ys. f y)" for ys by (induction ys) auto
  with Cons show ?case by simp
qed simp

lemma db_Compact_ok:
  assumes P: "pedrolib_ok P" and io: "io_good io" and ok: "db_ok P cap logs s" and rw: "\<not> db_readonly s"
    and old: "\<And>fid. fid \<in> set (db_compact_tasks s) \<Longrightarrow> fid < db_active s"
    and full: "\<And>fid. fid \<in> set (db_compact_tasks s) \<Longrightarrow> log_size (logs fid) < cap"
    and room: "unat (db_active s) + (\<Sum>fid \<leftarrow> db_compact_tasks s. length (logs fid)) < 2 ^ 32 - 1"
  shows "\<exists>s' logs'. db_Compact P cap io s = Some (kOk, s') \<and> compact_rel P cap logs s logs' s'
     \<and> (\<forall>fid \<in> set (db_compact_tasks s). fid \<notin> set (db_files s'))"
proof -
  obtain st where poll: "db_PollCompactTask s = (db_compact_tasks s, s\<lparr>db_compact_tasks := [], db_file_states := st\<rparr>)"
    using db_PollCompactTask_ok by blast
  let ?s = "s\<lparr>db_compact_tasks := [], db_file_states := st\<rparr>" and ?ts = "sort (db_compact_tasks s)"
  have same: "db_ok P cap logs ?s = db_ok P cap logs s" "db_active ?s = db_active s" "db_files ?s = db_files s"
    "db_abs P logs ?s = db_abs P logs s"
    by (simp_all add: db_active_def db_files_def db_abs_def [abs_def] db_value_def [abs_def] db_ok_def
        cong: option.case_cong)
  have "(\<Sum>fid \<leftarrow> ?ts. length (logs fid)) = (\<Sum>fid \<leftarrow> db_compact_tasks s. length (logs fid))"
    by (rule sum_list_sort)
  then have "unat (db_active ?s) + (\<Sum>fid \<leftarrow> ?ts. length (logs fid)) < 2 ^ 32 - 1" using room same by simp
  moreover have "db_ok P cap logs ?s" "\<not> db_readonly ?s" using ok same(1) rw by simp_all
  moreover have "\<And>fid. fid \<in> set ?ts \<Longrightarrow> fid < db_active ?s" "\<And>fid. fid \<in> set ?ts \<Longrightarrow> log_size (logs fid) < cap"
    using old full same(2) by simp_all
  ultimately have "\<exists>s' logs'. db_compact_files P cap io ?ts ?s = Some s' \<and> compact_rel P cap logs ?s logs' s'
       \<and> (\<forall>fid \<in> set ?ts. fid \<notin> set (db_files s'))"
    using db_compact_files_ok [OF P io, of cap logs ?s ?ts] by blast
  then obtain s' logs' where
    "db_compact_files P cap io ?ts ?s = Some s'" "compact_rel P cap logs ?s logs' s'"
    "\<forall>fid \<in> set ?ts. fid \<notin> set (db_files s')" by blast
  then show ?thesis
    using poll same
    by (intro exI [of _ s'] exI [of _ logs']) (simp add: db_Compact_def compact_rel_def)
qed

end
