(* ===== verification/KvStore.thy ===== *)
theory KvStore
  imports Prelude
begin

text \<open>
  The contract of a key-value store: what its clients (the segmented database, and the statements
  on sequences of operations) rely on. \<open>rep n s m\<close> says that the state \<open>s\<close> stores the
  map \<open>m\<close> and has room for \<open>n\<close> more puts. A put of an empty value is a deletion. A get
  returns the value of the map, or \<open>kCorruption\<close> for a hidden key, never another value.
\<close>

definition kv_upd :: "bytes \<Rightarrow> bytes \<Rightarrow> (bytes \<Rightarrow> bytes option) \<Rightarrow> bytes \<Rightarrow> bytes option" where
  "kv_upd key val m = m(key := if val = [] then None else Some val)"

text \<open>A sequence of puts and deletions, and the map it leaves.\<close>

fun kv_puts :: "(bytes \<Rightarrow> bytes \<Rightarrow> 's \<Rightarrow> (status \<times> 's) option) \<Rightarrow> (bytes \<times> bytes) list \<Rightarrow> 's \<Rightarrow> 's option" where
  "kv_puts put [] s = Some s"
| "kv_puts put ((key, val) # xs) s =
     (case put key val s of None \<Rightarrow> None | Some (_, s) \<Rightarrow> kv_puts put xs s)"

fun kv_map :: "(bytes \<times> bytes) list \<Rightarrow> (bytes \<Rightarrow> bytes option) \<Rightarrow> bytes \<Rightarrow> bytes option" where
  "kv_map [] m = m"
| "kv_map ((key, val) # xs) m = kv_map xs (kv_upd key val m)"

lemma kv_upd_simps [simp]:
  "kv_upd key val m key = (if val = [] then None else Some val)"
  "key' \<noteq> key \<Longrightarrow> kv_upd key val m key' = m key'"
  by (simp_all add: kv_upd_def)

text \<open>The map after a sequence is decided by the last put of the key.\<close>

lemma kv_map_last:
  "kv_map xs m key = (case map_of (rev xs) key of
     None \<Rightarrow> m key | Some val \<Rightarrow> if val = [] then None else Some val)"
proof (induction xs m rule: kv_map.induct)
  case (2 key' val xs m)
  then show ?case by (cases "key = key'") (simp_all add: map_add_def split: option.split)
qed simp

locale kv_store =
  fixes get :: "bytes \<Rightarrow> 's \<Rightarrow> (status \<times> bytes option \<times> 's) option"
    and put :: "bytes \<Rightarrow> bytes \<Rightarrow> 's \<Rightarrow> (status \<times> 's) option"
    and small :: "bytes \<Rightarrow> bytes \<Rightarrow> bool"
    and hidden :: "'s \<Rightarrow> bytes \<Rightarrow> bool"
    and rep :: "nat \<Rightarrow> 's \<Rightarrow> (bytes \<Rightarrow> bytes option) \<Rightarrow> bool"
  assumes get_rep: "rep n s m \<Longrightarrow> \<exists>s'. get key s = Some (case m key of
            None \<Rightarrow> (kNotFound, None, s')
          | Some val \<Rightarrow> if hidden s key then (kCorruption, None, s') else (kOk, Some val, s')) \<and> rep n s' m"
    and put_rep: "rep (Suc n) s m \<Longrightarrow> small key val \<Longrightarrow>
          \<exists>s'. put key val s = Some (if val = [] \<and> m key = None then kNotFound else kOk, s')
            \<and> rep n s' (kv_upd key val m)"
    and rep_weaken: "rep n s m \<Longrightarrow> n' \<le> n \<Longrightarrow> rep n' s m"
begin

text \<open>A get never returns a wrong value.\<close>

lemma get_cases:
  assumes "rep n s m" "get key s = Some (st, v, s')"
  shows "st = kOk \<and> v = m key \<and> v \<noteq> None \<or> st = kNotFound \<and> v = None \<and> m key = None
     \<or> st = kCorruption \<and> v = None \<and> hidden s key"
    and "rep n s' m"
  using get_rep [OF assms(1), of key] assms(2)
  by (cases "m key"; cases "hidden s key"; simp)+

lemma put_get:
  assumes "rep (Suc n) s m" "small key val" "val \<noteq> []"
  shows "\<exists>s1 s2. put key val s = Some (kOk, s1) \<and> rep n s2 (kv_upd key val m) \<and>
     (if hidden s1 key then get key s1 = Some (kCorruption, None, s2)
      else get key s1 = Some (kOk, Some val, s2))"
proof -
  from put_rep [OF assms(1,2)] assms(3) obtain s1 where s1: "put key val s = Some (kOk, s1)"
    "rep n s1 (kv_upd key val m)" by auto
  from get_rep [OF s1(2), of key] assms(3) s1(1) show ?thesis by (auto split: if_splits)
qed

lemma delete_get:
  assumes "rep (Suc n) s m" "small key []"
  shows "\<exists>st s1 s2. put key [] s = Some (st, s1) \<and> get key s1 = Some (kNotFound, None, s2)"
proof -
  from put_rep [OF assms] obtain st s1 where s1: "put key [] s = Some (st, s1)"
    "rep n s1 (kv_upd key [] m)" by blast
  from get_rep [OF s1(2), of key] s1(1) show ?thesis by auto
qed

lemma puts_rep:
  "rep (n + length xs) s m \<Longrightarrow> \<forall>(key, val) \<in> set xs. small key val \<Longrightarrow>
     \<exists>s'. kv_puts put xs s = Some s' \<and> rep n s' (kv_map xs m)"
proof (induction xs arbitrary: s m)
  case (Cons x xs)
  obtain key val where x: "x = (key, val)" by fastforce
  have "rep (Suc (n + length xs)) s m" "small key val" using Cons.prems x by auto
  from put_rep [OF this] obtain st s1 where "put key val s = Some (st, s1)"
    "rep (n + length xs) s1 (kv_upd key val m)" by blast
  with Cons.IH [of s1 "kv_upd key val m"] Cons.prems(2) x show ?case by auto
qed simp

text \<open>After any sequence of puts and deletions, a get sees the last one of its key.\<close>

lemma puts_get:
  assumes "rep (n + length xs) s m" "\<forall>(key, val) \<in> set xs. small key val"
  shows "\<exists>s1 s2. kv_puts put xs s = Some s1 \<and> get key s1 = Some (case kv_map xs m key of
       None \<Rightarrow> (kNotFound, None, s2)
     | Some val \<Rightarrow> if hidden s1 key then (kCorruption, None, s2) else (kOk, Some val, s2))"
  using puts_rep [OF assms] get_rep by blast

end

end
