(* ===== verification/DBStore.thy ===== *)
theory DBStore
  imports DBCompact KvStore
begin

text \<open>
  The database as a key-value store: the contract \<open>kv_store\<close> for \<^verbatim>\<open>DBImpl\<close>, from
  which the statements on sequences of operations follow, and what reopening, the executor and
  compaction do to the stored map.
\<close>

definition db_small :: "'a pedrolib \<Rightarrow> nat \<Rightarrow> bool \<Rightarrow> bytes \<Rightarrow> bytes \<Rightarrow> bool" where
  "db_small P cap compress key val \<longleftrightarrow> length key < 256
     \<and> 14 + length key + length (if compress then snappy_compress P val else val) \<le> cap"

text \<open>
  \<open>db_rep\<close>: the state stores the map. Every put may open a new file, so the numbers of the
  files bound the number of puts.
\<close>

definition db_holds ::
    "'a pedrolib \<Rightarrow> nat \<Rightarrow> bool \<Rightarrow> (file_id \<Rightarrow> rec_entry list) \<Rightarrow> 'a db \<Rightarrow> (bytes \<Rightarrow> bytes option) \<Rightarrow> bool" where
  "db_holds P cap compress logs s m \<longleftrightarrow> db_ok P cap logs s \<and> db_current s \<and> db_recoverable logs s
     \<and> \<not> db_readonly s \<and> opt_compress_value (db_options s) = compress \<and> db_abs P logs s = m"

definition db_rep ::
    "'a pedrolib \<Rightarrow> nat \<Rightarrow> io \<Rightarrow> bool \<Rightarrow> nat \<Rightarrow> 'a db \<Rightarrow> (bytes \<Rightarrow> bytes option) \<Rightarrow> bool" where
  "db_rep P cap io compress n s m \<longleftrightarrow> pedrolib_ok P \<and> io_good io
     \<and> (\<exists>logs. db_holds P cap compress logs s m) \<and> unat (db_active s) + n < 2 ^ 32 - 1"

lemma db_fits_small: "db_fits P cap s key val = db_small P cap (opt_compress_value (db_options s)) key val"
  by (simp add: db_fits_def db_small_def db_entry_def rec_size_def Let_def)

interpretation db_store: kv_store "\<lambda>key s. db_Get P io use_read_cache key s"
  "\<lambda>key val s. db_Put P cap io sync key val s" "db_small P cap compress"
  "\<lambda>s key. db_shadowed cap use_read_cache key s" "db_rep P cap io compress"
  for P cap io use_read_cache sync compress
proof
  fix n s m key
  assume r: "db_rep P cap io compress n s m"
  then have P: "pedrolib_ok P" and io: "io_good io" by (simp_all add: db_rep_def)
  from r obtain logs where h: "db_holds P cap compress logs s m" by (auto simp: db_rep_def)
  then have ok: "db_ok P cap logs s" and cur: "db_current s" and m: "db_abs P logs s = m"
    by (simp_all add: db_holds_def)
  from db_HandleGet_ok [OF P ok io cur, of use_read_cache key] obtain s' where s':
    "db_HandleGet P io use_read_cache key s = Some (case m key of None \<Rightarrow> (kNotFound, None, s')
       | Some val \<Rightarrow> if db_shadowed cap use_read_cache key s then (kCorruption, None, s') else (kOk, Some val, s'))"
    "db_ok P cap logs s'" "db_reads s s'" unfolding m by blast
  have "db_rep P cap io compress n s' m"
    using r h s'(2) db_reads_same [OF s'(3)] unfolding db_rep_def db_holds_def by auto
  then show "\<exists>s'. db_Get P io use_read_cache key s = Some (case m key of None \<Rightarrow> (kNotFound, None, s')
       | Some val \<Rightarrow> if db_shadowed cap use_read_cache key s then (kCorruption, None, s') else (kOk, Some val, s'))
      \<and> db_rep P cap io compress n s' m"
    using s'(1) by (auto simp: db_Get_def)
next
  fix n s m key val
  assume r: "db_rep P cap io compress (Suc n) s m" and small: "db_small P cap compress key val"
  then have P: "pedrolib_ok P" and io: "io_good io" by (simp_all add: db_rep_def)
  from r obtain logs where h: "db_ok P cap logs s" "db_current s" "db_recoverable logs s" "\<not> db_readonly s"
    "opt_compress_value (db_options s) = compress" "db_abs P logs s = m"
    by (auto simp: db_rep_def db_holds_def)
  have fits: "db_fits P cap s key val" using small h(5) by (simp add: db_fits_small)
  have more: "db_active s \<noteq> -1" using r by (auto simp: db_rep_def unsigned_minus_1_eq_mask mask_eq_exp_minus_1)
  from db_HandlePut_ok [OF P h(1) io h(4) fits more, of sync] obtain s' logs' where s':
    "db_HandlePut P cap io sync key val s = Some (if val = [] \<and> m key = None then kNotFound else kOk, s')"
    "db_ok P cap logs' s'" "db_current s'" "db_abs P logs' s' = kv_upd key val m" "db_recoverable logs' s'"
    "db_options s' = db_options s" "\<not> db_readonly s'" "unat (db_active s') \<le> Suc (unat (db_active s))"
    using h(3) unfolding h(6) kv_upd_def [symmetric] by blast
  have "db_rep P cap io compress n s' (kv_upd key val m)"
    using r s' h(5) unfolding db_rep_def db_holds_def by auto
  then show "\<exists>s'. db_Put P cap io sync key val s = Some (if val = [] \<and> m key = None then kNotFound else kOk, s')
      \<and> db_rep P cap io compress n s' (kv_upd key val m)"
    using s'(1) by (auto simp: db_Put_def)
qed (auto simp: db_rep_def)

section \<open>The executor, reopening and compaction\<close>

text \<open>A task of the executor does not change the map.\<close>

lemma db_run_task_rep:
  assumes r: "db_rep P cap io compress n s m"
  shows "\<exists>s'. db_run_task P io s = Some s' \<and> db_rep P cap io compress n s' m"
proof -
  from r have P: "pedrolib_ok P" and io: "io_good io" by (simp_all add: db_rep_def)
  from r obtain logs where h: "db_ok P cap logs s" "db_current s" "db_recoverable logs s" "\<not> db_readonly s"
    "opt_compress_value (db_options s) = compress" "db_abs P logs s = m"
    by (auto simp: db_rep_def db_holds_def)
  note d = db_okD [OF h(1)]
  from fm_run_task_ok [OF P d(1) io] obtain fm where fm: "fm_run_task P io (db_fm s) = Some fm"
    "fm_ok P cap logs fm" "fm_meta fm = fm_meta (db_fm s)" "fm_active_id fm = fm_active_id (db_fm s)" by blast
  let ?s = "s\<lparr>db_fm := fm\<rparr>"
  have same: "db_files ?s = db_files s" "db_active ?s = db_active s"
    using fm(3,4) by (simp_all add: db_files_def db_active_def)
  have k: "disk_ok P cap logs (fm_fs (db_fm s)) (fm_meta (db_fm s))" "disk_ok P cap logs (fm_fs fm) (fm_meta fm)"
    using d(1) fm(2) by (simp_all add: fm_ok_def)
  have "fm_holds P fm = fm_holds P (db_fm s)"
    using fm(3,4) by (intro ext) (simp add: fm_holds_log [OF k(1)] fm_holds_log [OF k(2)])
  then have "db_ok P cap logs ?s" using d fm(2) same by (simp add: db_ok_def)
  moreover have "db_abs P logs ?s = m"
    unfolding h(6) [symmetric] by (simp add: db_abs_def [abs_def] db_value_def [abs_def] cong: option.case_cong)
  ultimately have "db_rep P cap io compress n ?s m"
    using r h same unfolding db_rep_def db_holds_def db_current_def db_recoverable_def
    by (auto simp: db_active_def [symmetric])
  then show ?thesis using fm(1) by (simp add: db_run_task_def)
qed

text \<open>Reopening the files at any point finds the map again.\<close>

lemma db_reopen:
  assumes P: "pedrolib_ok P" and io: "io_good io" and ok: "db_ok P cap logs s" and rec: "db_recoverable logs s"
    and compress: "opt_compress_value opts = opt_compress_value (db_options s)"
    and p: "path_valid (mm_path (fm_meta (db_fm s)))" and seg: "opt_cache_segments opts \<noteq> 0"
    and full: "\<forall>fid \<in> set (db_files s). not_full P cap logs (fm_fs (db_fm s)) (fm_meta (db_fm s)) fid"
  shows "\<exists>s'. db_Open P cap io opts (mm_path (fm_meta (db_fm s))) buf (fm_fs (db_fm s))
       = Some (kOk, Some s', fm_fs (db_fm s)) \<and> db_holds P cap (opt_compress_value opts) logs s' (db_abs P logs s)
     \<and> db_active s' = db_active s \<and> mm_path (fm_meta (db_fm s')) = mm_path (fm_meta (db_fm s))"
proof -
  from db_Open_existing [OF P db_ok_dir_good [OF ok p full] io seg, of buf] obtain s' where
    s': "db_Open P cap io opts (mm_path (fm_meta (db_fm s))) buf (fm_fs (db_fm s))
        = Some (kOk, Some s', fm_fs (db_fm s))" "db_options s' = opts" "\<not> db_readonly s'"
      "fm_meta (db_fm s') = fm_meta (db_fm s)" "db_current s'" "db_ok P cap logs s'" by blast
  from db_reopen_ok [OF P ok rec io p seg full compress, of buf] s'(1) have
    r: "db_recoverable logs s'" "db_abs P logs s' = db_abs P logs s" by auto
  have "db_active s' = db_active s"
    using active_files(1) [OF db_okD(1) [OF s'(6)]] active_files(1) [OF db_okD(1) [OF ok]] s'(4)
    unfolding db_active_def by (metis last_snoc)
  then show ?thesis using s' r by (intro exI [of _ s']) (simp add: db_holds_def)
qed

lemma db_reopen_holds:
  assumes "pedrolib_ok P" "io_good io" "db_holds P cap compress logs s m"
    and "path_valid (mm_path (fm_meta (db_fm s)))" "opt_cache_segments opts \<noteq> 0"
    and "\<forall>fid \<in> set (db_files s). not_full P cap logs (fm_fs (db_fm s)) (fm_meta (db_fm s)) fid"
    and "opt_compress_value opts = compress"
  shows "\<exists>s'. db_Open P cap io opts (mm_path (fm_meta (db_fm s))) buf (fm_fs (db_fm s))
       = Some (kOk, Some s', fm_fs (db_fm s)) \<and> db_holds P cap compress logs s' m
     \<and> db_active s' = db_active s \<and> mm_path (fm_meta (db_fm s')) = mm_path (fm_meta (db_fm s))"
proof -
  have k: "db_ok P cap logs s" "db_recoverable logs s" "opt_compress_value opts = opt_compress_value (db_options s)"
    "db_abs P logs s = m" using assms(3,7) by (simp_all add: db_holds_def)
  from db_reopen [OF assms(1,2) k(1-3) assms(4-6), of buf] show ?thesis using k(4) assms(7) by simp
qed

text \<open>As long as no file is filled to the last byte, no key is hidden.\<close>

lemma not_shadowed_sane:
  assumes ok: "db_sane P cap logs s" and room: "\<And>fid. fid \<in> set (db_files s) \<Longrightarrow> log_size (logs fid) < cap"
  shows "\<not> db_shadowed cap use_read_cache key s"
proof
  assume "db_shadowed cap use_read_cache key s"
  then obtain d where d: "db_indices s key = Some d"
    "unat (loc_offset (dir_loc d)) + unat (dir_entry_size d) = cap" by (auto simp: db_shadowed_def)
  let ?fid = "loc_id (dir_loc d)"
  from index_okE [OF db_saneD(2) [OF ok] d(1)] obtain e where e: "?fid \<in> set (db_files s)"
    "log_at (logs ?fid) (unat (loc_offset (dir_loc d))) = Some e" "dir_entry_size d = rec_sizeof e" by blast
  have "rec_wf e"
    using appended_log_bound(3) [OF db_saneD(1) [OF ok]] e(1) log_at_in [OF e(2)] by (simp add: db_files_def)
  with log_at_bound [OF e(2)] d(2) e(3) room [OF e(1)] show False by fastforce
qed

lemma not_shadowed:
  assumes "db_ok P cap logs s" "\<And>fid. log_size (logs fid) < cap"
  shows "\<not> db_shadowed cap use_read_cache key s"
  using assms not_shadowed_sane [of P cap logs s] by (simp add: db_ok_sane)

text \<open>A fresh database stores the empty map.\<close>

lemma db_Open_fresh_rep:
  assumes P: "pedrolib_ok P" and io: "io_good io" and seg: "opt_cache_segments opts \<noteq> 0"
    and p: "path_valid p" and fs: "fs_ok fs" "fs_links fs = (\<lambda>_. None)"
    and cap: "14 < cap" "cap < 2 ^ 32" "4096 dvd cap" and n: "n < 2 ^ 32 - 2"
  shows "\<exists>s fs'. db_Open P cap io opts p buf fs = Some (kOk, Some s, fs')
     \<and> db_rep P cap io (opt_compress_value opts) n s (\<lambda>_. None) \<and> mm_path (fm_meta (db_fm s)) = p"
  using db_Open_fresh [OF P io seg p fs cap, of buf] P io n
  unfolding db_rep_def db_holds_def by fastforce

end
