(* ===== verification/SegmentDB.thy ===== *)
theory SegmentDB
  imports DBStore
begin

text \<open>
  \<^verbatim>\<open>segment_db.h\<close> and \<^verbatim>\<open>src/segment_db.cc\<close>: a database split over
  \<open>n\<close> databases by the hash of the key. Each segment works on files of its own, so each
  carries its own part of the file system. The work that \<^verbatim>\<open>Open\<close>, \<^verbatim>\<open>Compact\<close>
  and \<^verbatim>\<open>Flush\<close> hand to the executor is independent per segment and is done in the order of
  the segments. The locale \<open>segmented_store\<close> shows that segments that keep the contract
  \<open>kv_store\<close> make up a store that keeps it.
\<close>

section \<open>The class\<close>

type_synonym 'a sdb = "'a db list"

text \<open>\<^verbatim>\<open>GetDB(Hash(key))\<close>.\<close>

definition sdb_hash :: "'a pedrolib \<Rightarrow> bytes \<Rightarrow> nat" where
  "sdb_hash P key = unat (hash32 (std_hash P) key)"

definition sdb_GetDB :: "nat \<Rightarrow> 's list \<Rightarrow> nat" where
  "sdb_GetDB h segs = h mod length segs"

text \<open>The call of an operation on one segment; without segments the modulo is by zero.\<close>

definition seg_get ::
    "(bytes \<Rightarrow> nat) \<Rightarrow> (bytes \<Rightarrow> 's \<Rightarrow> (status \<times> 'v \<times> 's) option) \<Rightarrow> bytes \<Rightarrow> 's list
       \<Rightarrow> (status \<times> 'v \<times> 's list) option" where
  "seg_get hash get key segs =
     (if segs = [] then None
      else let i = sdb_GetDB (hash key) segs in
        case get key (segs ! i) of
          None \<Rightarrow> None
        | Some (st, v, db) \<Rightarrow> Some (st, v, segs[i := db]))"

definition seg_put ::
    "(bytes \<Rightarrow> nat) \<Rightarrow> (bytes \<Rightarrow> bytes \<Rightarrow> 's \<Rightarrow> (status \<times> 's) option) \<Rightarrow> bytes \<Rightarrow> bytes \<Rightarrow> 's list
       \<Rightarrow> (status \<times> 's list) option" where
  "seg_put hash put key val segs =
     (if segs = [] then None
      else let i = sdb_GetDB (hash key) segs in
        case put key val (segs ! i) of
          None \<Rightarrow> None
        | Some (st, db) \<Rightarrow> Some (st, segs[i := db]))"

definition sdb_Get ::
    "'a pedrolib \<Rightarrow> io \<Rightarrow> bool \<Rightarrow> bytes \<Rightarrow> 'a sdb \<Rightarrow> (status \<times> bytes option \<times> 'a sdb) option" where
  "sdb_Get P io use_read_cache = seg_get (sdb_hash P) (\<lambda>key s. db_Get P io use_read_cache key s)"

definition sdb_Put ::
    "'a pedrolib \<Rightarrow> nat \<Rightarrow> io \<Rightarrow> bool \<Rightarrow> bytes \<Rightarrow> bytes \<Rightarrow> 'a sdb \<Rightarrow> (status \<times> 'a sdb) option" where
  "sdb_Put P cap io sync = seg_put (sdb_hash P) (\<lambda>key val s. db_Put P cap io sync key val s)"

definition sdb_Delete ::
    "'a pedrolib \<Rightarrow> nat \<Rightarrow> io \<Rightarrow> bool \<Rightarrow> bytes \<Rightarrow> 'a sdb \<Rightarrow> (status \<times> 'a sdb) option" where
  "sdb_Delete P cap io sync key = seg_put (sdb_hash P) (\<lambda>key val s. db_Delete P cap io sync key s) key []"

text \<open>\<^verbatim>\<open>Open\<close>: every segment is initialised; the first bad status is returned.\<close>

definition sdb_segment_name :: "'a pedrolib \<Rightarrow> bytes \<Rightarrow> nat \<Rightarrow> path" where
  "sdb_segment_name P path i = path @ str ''.seg.'' @ fmt_u32 P (of_nat i) @ str ''.db''"

fun sdb_Init ::
    "'a pedrolib \<Rightarrow> nat \<Rightarrow> io \<Rightarrow> options \<Rightarrow> bytes \<Rightarrow> 'a \<Rightarrow> nat \<Rightarrow> fsys list
       \<Rightarrow> (status list \<times> 'a sdb) option" where
  "sdb_Init P cap io opts path buf i [] = Some ([], [])"
| "sdb_Init P cap io opts path buf i (fs # fss) =
     (case db_new P opts (sdb_segment_name P path i) buf fs of
        None \<Rightarrow> None
      | Some db \<Rightarrow>
          (case db_Init P cap io db of
             None \<Rightarrow> None
           | Some (st, db) \<Rightarrow>
               (case sdb_Init P cap io opts path buf (Suc i) fss of
                  None \<Rightarrow> None
                | Some (sts, dbs) \<Rightarrow> Some (st # sts, db # dbs))))"

definition sdb_Open ::
    "'a pedrolib \<Rightarrow> nat \<Rightarrow> io \<Rightarrow> options \<Rightarrow> bytes \<Rightarrow> 'a \<Rightarrow> fsys list \<Rightarrow> (status \<times> 'a sdb option) option" where
  "sdb_Open P cap io opts path buf fss =
     (case sdb_Init P cap io opts path buf 0 fss of
        None \<Rightarrow> None
      | Some (sts, dbs) \<Rightarrow>
          (case filter (\<lambda>st. st \<noteq> kOk) sts of
             st # _ \<Rightarrow> Some (st, None)
           | [] \<Rightarrow> Some (kOk, Some dbs)))"

fun sdb_compact_all :: "'a pedrolib \<Rightarrow> nat \<Rightarrow> io \<Rightarrow> 'a sdb \<Rightarrow> 'a sdb option" where
  "sdb_compact_all P cap io [] = Some []"
| "sdb_compact_all P cap io (s # segs) =
     (case db_Compact P cap io s of
        None \<Rightarrow> None
      | Some (_, s) \<Rightarrow> map_option (Cons s) (sdb_compact_all P cap io segs))"

definition sdb_Compact :: "'a pedrolib \<Rightarrow> nat \<Rightarrow> io \<Rightarrow> 'a sdb \<Rightarrow> (status \<times> 'a sdb) option" where
  "sdb_Compact P cap io segs = map_option (Pair kOk) (sdb_compact_all P cap io segs)"

text \<open>The status of every segment is only logged.\<close>

definition sdb_Flush :: "'a sdb \<Rightarrow> status" where
  "sdb_Flush segs = (let _ = map db_Flush segs in kOk)"

section \<open>The iterator\<close>

text \<open>
  \<open>sdi_current\<close> is the iterator of the segment before \<open>sdi_index\<close>. The weak pointers to
  the segments are those of a database that is still open.
\<close>

record sdb_iterator =
  sdi_index :: nat
  sdi_current :: "db_iterator option"

definition sdb_GetIterator :: "sdb_iterator" where
  "sdb_GetIterator = \<lparr>sdi_index = 0, sdi_current = None\<rparr>"

function sdi_Valid ::
    "'a pedrolib \<Rightarrow> io \<Rightarrow> ((bytes \<Rightarrow> dir option) \<Rightarrow> (bytes \<times> dir) list) \<Rightarrow> sdb_iterator \<Rightarrow> 'a sdb
       \<Rightarrow> (bool \<times> sdb_iterator \<times> 'a sdb) option" where
  "sdi_Valid P io order it segs =
     (case sdi_current it of
        None \<Rightarrow>
          if sdi_index it \<ge> length segs then Some (False, it, segs)
          else sdi_Valid P io order
                 \<lparr>sdi_index = Suc (sdi_index it),
                  sdi_current = Some (db_GetIterator order (segs ! sdi_index it))\<rparr> segs
      | Some cur \<Rightarrow>
          let i = sdi_index it - 1 in
          (case dbi_Valid P io cur (segs ! i) of
             None \<Rightarrow> None
           | Some (valid, cur, db) \<Rightarrow>
               let segs = segs[i := db] in
               if valid then Some (True, it\<lparr>sdi_current := Some cur\<rparr>, segs)
               else sdi_Valid P io order (it\<lparr>sdi_current := None\<rparr>) segs))"
  by pat_completeness auto

termination
  by (relation "measures [\<lambda>(P, io, order, it, segs). length segs - sdi_index it,
      \<lambda>(P, io, order, it, segs). if sdi_current it = None then 0 else 1]") auto

definition sdi_Next :: "sdb_iterator \<Rightarrow> rec_entry option" where
  "sdi_Next it = map_option dbi_Next (sdi_current it)"

section \<open>Segments that are stores make a store\<close>

definition seg_hidden :: "(bytes \<Rightarrow> nat) \<Rightarrow> ('s \<Rightarrow> bytes \<Rightarrow> bool) \<Rightarrow> 's list \<Rightarrow> bytes \<Rightarrow> bool" where
  "seg_hidden hash hidden segs key = hidden (segs ! sdb_GetDB (hash key) segs) key"

text \<open>Every segment stores a map; the value of a key is that of its segment.\<close>

definition seg_rep ::
    "(bytes \<Rightarrow> nat) \<Rightarrow> (nat \<Rightarrow> 's \<Rightarrow> (bytes \<Rightarrow> bytes option) \<Rightarrow> bool) \<Rightarrow> nat \<Rightarrow> 's list
       \<Rightarrow> (bytes \<Rightarrow> bytes option) \<Rightarrow> bool" where
  "seg_rep hash rep n segs m \<longleftrightarrow> segs \<noteq> [] \<and> (\<exists>ms. length ms = length segs
     \<and> (\<forall>i < length segs. rep n (segs ! i) (ms ! i))
     \<and> (\<forall>key. m key = (ms ! sdb_GetDB (hash key) segs) key))"

lemma sdb_GetDB_less [simp]: "segs \<noteq> [] \<Longrightarrow> sdb_GetDB h segs < length segs"
  by (simp add: sdb_GetDB_def)

lemma sdb_GetDB_update [simp]: "sdb_GetDB h (segs[i := s]) = sdb_GetDB h segs"
  by (simp add: sdb_GetDB_def)

locale segmented_store = kv_store get put small hidden rep
  for get :: "bytes \<Rightarrow> 's \<Rightarrow> (status \<times> bytes option \<times> 's) option"
    and put :: "bytes \<Rightarrow> bytes \<Rightarrow> 's \<Rightarrow> (status \<times> 's) option"
    and small :: "bytes \<Rightarrow> bytes \<Rightarrow> bool" and hidden :: "'s \<Rightarrow> bytes \<Rightarrow> bool"
    and rep :: "nat \<Rightarrow> 's \<Rightarrow> (bytes \<Rightarrow> bytes option) \<Rightarrow> bool" +
  fixes hash :: "bytes \<Rightarrow> nat"
begin

lemma seg_rep_update:
  assumes segs: "length ms = length segs" "\<And>i. i < length segs \<Longrightarrow> rep n (segs ! i) (ms ! i)"
    and s: "i < length segs" "n' \<le> n" "rep n' s mi"
  shows "seg_rep hash rep n' (segs[i := s]) (\<lambda>key. (ms[i := mi] ! sdb_GetDB (hash key) segs) key)"
proof -
  have "rep n' (segs[i := s] ! j) (ms[i := mi] ! j)" if "j < length segs" for j
    using that segs(1) rep_weaken [OF segs(2) [OF that] s(2)] s(1,3) by (cases "j = i") simp_all
  then show ?thesis
    unfolding seg_rep_def using segs(1) s(1) by (intro conjI exI [of _ "ms[i := mi]"]) auto
qed

sublocale seg: kv_store "seg_get hash get" "seg_put hash put" small "seg_hidden hash hidden" "seg_rep hash rep"
proof
  fix n m key and segs :: "'s list"
  let ?i = "sdb_GetDB (hash key) segs"
  assume r: "seg_rep hash rep n segs m"
  then obtain ms where ms: "segs \<noteq> []" "rep n (segs ! ?i) (ms ! ?i)" "m key = (ms ! ?i) key" "length ms = length segs"
    "\<And>key. m key = (ms ! sdb_GetDB (hash key) segs) key" "\<And>i. i < length segs \<Longrightarrow> rep n (segs ! i) (ms ! i)"
    unfolding seg_rep_def using sdb_GetDB_less by metis
  from get_rep [OF ms(2), of key] obtain s' where s': "get key (segs ! ?i) = Some (case (ms ! ?i) key of
        None \<Rightarrow> (kNotFound, None, s')
      | Some val \<Rightarrow> if hidden (segs ! ?i) key then (kCorruption, None, s') else (kOk, Some val, s'))"
    "rep n s' (ms ! ?i)" by blast
  have "m = (\<lambda>key. (ms[?i := ms ! ?i] ! sdb_GetDB (hash key) segs) key)" using ms(5) by auto
  then have "seg_rep hash rep n (segs[?i := s']) m"
    by (rule ssubst) (rule seg_rep_update [OF ms(4,6) sdb_GetDB_less [OF ms(1)] order_refl s'(2)])
  then show "\<exists>s'. seg_get hash get key segs = Some (case m key of None \<Rightarrow> (kNotFound, None, s')
      | Some val \<Rightarrow> if seg_hidden hash hidden segs key then (kCorruption, None, s') else (kOk, Some val, s'))
      \<and> seg_rep hash rep n s' m"
    using s'(1) ms(1,3)
    by (intro exI [of _ "segs[?i := s']"]) (auto simp: seg_get_def seg_hidden_def Let_def split: option.splits)
next
  fix n m key val and segs :: "'s list"
  let ?i = "sdb_GetDB (hash key) segs"
  assume r: "seg_rep hash rep (Suc n) segs m" and small: "small key val"
  then obtain ms where ms: "segs \<noteq> []" "rep (Suc n) (segs ! ?i) (ms ! ?i)" "m key = (ms ! ?i) key"
    "length ms = length segs" "\<And>key. m key = (ms ! sdb_GetDB (hash key) segs) key"
    "\<And>i. i < length segs \<Longrightarrow> rep (Suc n) (segs ! i) (ms ! i)"
    unfolding seg_rep_def using sdb_GetDB_less by metis
  from put_rep [OF ms(2) small] obtain s' where s': "put key val (segs ! ?i)
      = Some (if val = [] \<and> (ms ! ?i) key = None then kNotFound else kOk, s')"
    "rep n s' (kv_upd key val (ms ! ?i))" by blast
  have "kv_upd key val m = (\<lambda>key'. (ms[?i := kv_upd key val (ms ! ?i)] ! sdb_GetDB (hash key') segs) key')"
  proof
    fix key'
    show "kv_upd key val m key' = (ms[?i := kv_upd key val (ms ! ?i)] ! sdb_GetDB (hash key') segs) key'"
      using ms(1,4,5) by (cases "key' = key"; cases "sdb_GetDB (hash key') segs = ?i") simp_all
  qed
  then have "seg_rep hash rep n (segs[?i := s']) (kv_upd key val m)"
    by (rule ssubst) (rule seg_rep_update [OF ms(4,6) sdb_GetDB_less [OF ms(1)] le_SucI [OF order_refl] s'(2)])
  then show "\<exists>s'. seg_put hash put key val segs = Some (if val = [] \<and> m key = None then kNotFound else kOk, s')
      \<and> seg_rep hash rep n s' (kv_upd key val m)"
    using s'(1) ms(1,3) by (intro exI [of _ "segs[?i := s']"]) (simp add: seg_put_def Let_def)
next
  fix n m n' and segs :: "'s list"
  assume "seg_rep hash rep n segs m" "n' \<le> n"
  then show "seg_rep hash rep n' segs m" unfolding seg_rep_def using rep_weaken by blast
qed

end

interpretation sdb_store: segmented_store "\<lambda>key s. db_Get P io use_read_cache key s"
  "\<lambda>key val s. db_Put P cap io sync key val s" "db_small P cap compress"
  "\<lambda>s key. db_shadowed cap use_read_cache key s" "db_rep P cap io compress" "sdb_hash P"
  for P cap io use_read_cache sync compress
  by unfold_locales

text \<open>A deletion on the segments is a put of the empty value.\<close>

lemma sdb_Delete_Put: "sdb_Delete P cap io sync key segs = sdb_Put P cap io sync key [] segs"
  by (simp add: sdb_Delete_def sdb_Put_def seg_put_def db_Delete_def db_Put_def)

section \<open>Opening the segments\<close>

lemma sdb_Init_fresh:
  assumes P: "pedrolib_ok P" and io: "io_good io" and seg: "opt_cache_segments opts \<noteq> 0"
    and cap: "14 < cap" "cap < 2 ^ 32" "4096 dvd cap" and n: "n < 2 ^ 32 - 2"
  shows "\<forall>fs \<in> set fss. fs_ok fs \<and> fs_links fs = (\<lambda>_. None) \<Longrightarrow>
     (\<And>j. path_valid (sdb_segment_name P path j)) \<Longrightarrow>
     \<exists>sts dbs. sdb_Init P cap io opts path buf i fss = Some (sts, dbs) \<and> (\<forall>st \<in> set sts. st = kOk)
       \<and> length dbs = length fss
       \<and> (\<forall>db \<in> set dbs. db_rep P cap io (opt_compress_value opts) n db (\<lambda>_. None))"
proof (induction fss arbitrary: i)
  case (Cons fs fss)
  let ?p = "sdb_segment_name P path i"
  have "fs_ok fs" "fs_links fs = (\<lambda>_. None)" using Cons.prems(1) by simp_all
  from db_Open_fresh_rep [OF P io seg Cons.prems(2) this cap n, of i buf] obtain db fs' where
    o1: "db_Open P cap io opts ?p buf fs = Some (kOk, Some db, fs')"
      "db_rep P cap io (opt_compress_value opts) n db (\<lambda>_. None)" by blast
  then obtain s where "db_new P opts ?p buf fs = Some s" "db_Init P cap io s = Some (kOk, db)"
    by (auto simp: db_Open_def split: option.splits prod.splits if_splits)
  with Cons.IH [OF _ Cons.prems(2), of "Suc i"] Cons.prems(1) o1(2) show ?case by auto
qed simp

lemma sdb_Open_fresh:
  assumes P: "pedrolib_ok P" and io: "io_good io" and seg: "opt_cache_segments opts \<noteq> 0"
    and cap: "14 < cap" "cap < 2 ^ 32" "4096 dvd cap" and n: "n < 2 ^ 32 - 2"
    and fss: "fss \<noteq> []" "\<forall>fs \<in> set fss. fs_ok fs \<and> fs_links fs = (\<lambda>_. None)"
    and path: "\<And>j. path_valid (sdb_segment_name P path j)"
  shows "\<exists>segs. sdb_Open P cap io opts path buf fss = Some (kOk, Some segs) \<and> length segs = length fss
     \<and> seg_rep (sdb_hash P) (db_rep P cap io (opt_compress_value opts)) n segs (\<lambda>_. None)"
proof -
  from sdb_Init_fresh [OF P io seg cap n fss(2) path, where buf = buf and i = 0] obtain sts dbs where
    i: "sdb_Init P cap io opts path buf 0 fss = Some (sts, dbs)" "\<forall>st \<in> set sts. st = kOk"
      "length dbs = length fss" "\<forall>db \<in> set dbs. db_rep P cap io (opt_compress_value opts) n db (\<lambda>_. None)"
    by blast
  have "filter (\<lambda>st. st \<noteq> kOk) sts = []" using i(2) by (simp add: filter_empty_conv)
  moreover have "seg_rep (sdb_hash P) (db_rep P cap io (opt_compress_value opts)) n dbs (\<lambda>_. None)"
  proof -
    have "dbs \<noteq> []" using i(3) fss(1) by auto
    moreover have "replicate (length dbs) (\<lambda>_. None) ! sdb_GetDB h dbs = (\<lambda>_. None)" for h
      using sdb_GetDB_less [OF calculation, of h] by simp
    ultimately show ?thesis
      unfolding seg_rep_def using i(4)
      by (intro conjI exI [of _ "replicate (length dbs) (\<lambda>_. None)"]) auto
  qed
  ultimately show ?thesis using i(1,3) by (simp add: sdb_Open_def)
qed

end
