(* ===== verification/Scenario.thy ===== *)
theory Scenario
  imports SegmentDB
begin

text \<open>
  Concrete runs of the database, with the parameters of \<open>list_pedrolib\<close>, system calls that
  succeed and files of one block: a database that has just been opened, and one whose first file
  has been left for a second. They show that the hypotheses of the properties can hold.
\<close>

definition demo_options :: "bool \<Rightarrow> options" where
  "demo_options compress = \<lparr>opt_max_open_files = 16, opt_threshold_bytes = 3072,
     opt_compress_value = compress, opt_sync_max_io_error = 32, opt_cache_enable = True,
     opt_cache_bytes = 8192, opt_cache_segments = 1\<rparr>"

definition demo_path :: path where
  "demo_path = str ''a.db''"

lemma demo_simps [simp]:
  "opt_compress_value (demo_options c) = c" "opt_cache_segments (demo_options c) = 1"
  "opt_cache_enable (demo_options c)"
  by (simp_all add: demo_options_def)

lemma find_last_of_snoc: "x \<in> set chars \<Longrightarrow> find_last_of chars (p @ [x]) = length p"
  by (auto simp: find_last_of_def split: list.split dest: arg_cong [of _ _ last])

lemma path_valid_db: "length p + 3 < 65536 \<Longrightarrow> path_valid (p @ str ''.db'')"
  using find_last_of_snoc [of 98 "str ''.db''" "p @ [46, 100]"]
  by (simp add: path_valid_def str_def)

lemma demo_path_valid [simp]: "path_valid demo_path"
  by (simp add: path_valid_def demo_path_def find_last_of_def str_def size_sub_def size_max_def upt_rec)

lemma fs_init_links [simp]: "fs_links fs_init = (\<lambda>_. None)"
  by (simp add: fs_init_def)

abbreviation demo_open :: "bool \<Rightarrow> (status \<times> bytes db option \<times> fsys) option" where
  "demo_open c \<equiv> db_Open list_pedrolib 4096 io_fine (demo_options c) demo_path [] fs_init"

lemma demo_open_ok:
  "\<exists>s fs'. demo_open c = Some (kOk, Some s, fs') \<and> db_ok list_pedrolib 4096 (\<lambda>_. []) s
     \<and> db_recoverable (\<lambda>_. []) s \<and> db_current s \<and> db_options s = demo_options c \<and> \<not> db_readonly s
     \<and> db_abs list_pedrolib (\<lambda>_. []) s = (\<lambda>_. None) \<and> db_active s = 1 \<and> db_files s = [1]
     \<and> mm_path (fm_meta (db_fm s)) = demo_path"
  using db_Open_fresh [OF list_pedrolib_ok io_good_fine, of "demo_options c" demo_path fs_init 4096 "[]"]
  by simp

text \<open>A value that leaves no room for another record in its file.\<close>

definition demo_big :: bytes where
  "demo_big = replicate 4000 7"

lemma demo_big_simps [simp]: "length demo_big = 4000" "demo_big \<noteq> []"
  by (simp_all add: demo_big_def)

abbreviation demo_entry :: "bytes \<Rightarrow> bytes \<Rightarrow> rec_entry" where
  "demo_entry key val \<equiv> \<lparr>re_checksum = rec_checksum list_pedrolib key val,
     re_type = (if val = [] then kDelete else kSet), re_key = key, re_value = val, re_timestamp = 0\<rparr>"

lemma demo_entry: "\<not> opt_compress_value (db_options s) \<Longrightarrow> db_entry list_pedrolib s key val = demo_entry key val"
  by (simp add: db_entry_def Let_def)

text \<open>A put on such a state, with the files it leads to.\<close>

definition demo_state ::
    "(file_id \<Rightarrow> rec_entry list) \<Rightarrow> file_id list \<Rightarrow> file_id \<Rightarrow> (bytes \<Rightarrow> bytes option) \<Rightarrow> bytes db \<Rightarrow> bool" where
  "demo_state logs files a m s \<longleftrightarrow> db_ok list_pedrolib 4096 logs s \<and> db_recoverable logs s \<and> db_current s
     \<and> db_options s = demo_options False \<and> \<not> db_readonly s \<and> db_abs list_pedrolib logs s = m
     \<and> db_active s = a \<and> db_files s = files \<and> mm_path (fm_meta (db_fm s)) = demo_path"

lemma demo_open_state:
  "\<exists>s fs'. demo_open False = Some (kOk, Some s, fs') \<and> demo_state (\<lambda>_. []) [1] 1 (\<lambda>_. None) s"
  using demo_open_ok [of False] by (simp add: demo_state_def)

lemma demo_put:
  assumes s: "demo_state logs files a m s" and fits: "length key < 256" "14 + length key + length val \<le> 4096"
    and a: "a \<noteq> -1"
  shows "\<exists>s'. db_Put list_pedrolib 4096 io_fine sync key val s
       = Some (if val = [] \<and> m key = None then kNotFound else kOk, s')
     \<and> (if log_size (logs a) + 14 + length key + length val \<le> 4096
        then demo_state (logs(a := logs a @ [demo_entry key val])) files a (kv_upd key val m) s'
        else demo_state (logs(a + 1 := [demo_entry key val])) (files @ [a + 1]) (a + 1) (kv_upd key val m) s')"
proof -
  have h: "db_ok list_pedrolib 4096 logs s" "db_recoverable logs s" "\<not> db_readonly s" "db_active s = a"
    "db_options s = demo_options False" "db_abs list_pedrolib logs s = m" "db_files s = files"
    "mm_path (fm_meta (db_fm s)) = demo_path"
    using s by (simp_all add: demo_state_def)
  have e: "db_entry list_pedrolib s key val = demo_entry key val" by (rule demo_entry) (simp add: h(5))
  have f: "db_fits list_pedrolib 4096 s key val" using fits by (simp add: db_fits_small db_small_def h(5))
  have size: "rec_size (demo_entry key val) = 14 + length key + length val" by (simp add: rec_size_def)
  have act: "db_active s \<noteq> -1" using a h(4) by simp
  from db_HandlePut_ok [OF list_pedrolib_ok h(1) io_good_fine h(3) f act, of sync] obtain s' logs' loc where s':
    "db_HandlePut list_pedrolib 4096 io_fine sync key val s
      = Some (if val = [] \<and> m key = None then kNotFound else kOk, s')"
    "db_ok list_pedrolib 4096 logs' s'" "db_current s'" "db_abs list_pedrolib logs' s' = kv_upd key val m"
    "db_recoverable logs' s'" "db_options s' = db_options s" "\<not> db_readonly s'"
    "appended 4096 logs (db_fm s) (demo_entry key val) loc logs' (db_fm s')"
    "mm_path (fm_meta (db_fm s')) = demo_path"
    using h(2) unfolding e h(6,8) kv_upd_def by blast
  from s'(8) have "if log_size (logs a) + 14 + length key + length val \<le> 4096
      then db_active s' = a \<and> db_files s' = files \<and> logs' = logs(a := logs a @ [demo_entry key val])
      else db_active s' = a + 1 \<and> db_files s' = files @ [a + 1] \<and> logs' = logs(a + 1 := [demo_entry key val])"
    using h(4,7) size unfolding appended_def db_active_def db_files_def Let_def
    by (simp add: add.assoc split: if_splits)
  then show ?thesis
    using s' h(5) by (intro exI [of _ s']) (auto simp: db_Put_def demo_state_def)
qed

text \<open>Two big values: the second one opens the second file.\<close>

lemma demo_two_files:
  "\<exists>s fs' s1 s2. demo_open False = Some (kOk, Some s, fs')
     \<and> db_Put list_pedrolib 4096 io_fine False [1] demo_big s = Some (kOk, s1)
     \<and> db_Put list_pedrolib 4096 io_fine False [2] demo_big s1 = Some (kOk, s2)
     \<and> demo_state ((\<lambda>_. [])(1 := [demo_entry [1] demo_big], 2 := [demo_entry [2] demo_big])) [1, 2] 2
          ((\<lambda>_. None)([1] \<mapsto> demo_big, [2] \<mapsto> demo_big)) s2"
proof -
  obtain s fs' where s: "demo_open False = Some (kOk, Some s, fs')"
    "demo_state (\<lambda>_. []) [1] 1 (\<lambda>_. None) s" using demo_open_state by blast
  from demo_put [OF s(2), of "[1]" demo_big False] obtain s1 where s1:
    "db_Put list_pedrolib 4096 io_fine False [1] demo_big s = Some (kOk, s1)"
    "demo_state ((\<lambda>_. [])(1 := [demo_entry [1] demo_big])) [1] 1 (kv_upd [1] demo_big (\<lambda>_. None)) s1"
    by auto
  from demo_put [OF s1(2), of "[2]" demo_big False] obtain s2 where s2:
    "db_Put list_pedrolib 4096 io_fine False [2] demo_big s1 = Some (kOk, s2)"
    "demo_state ((\<lambda>_. [])(1 := [demo_entry [1] demo_big], 1 + 1 := [demo_entry [2] demo_big])) ([1] @ [1 + 1]) (1 + 1)
        (kv_upd [2] demo_big (kv_upd [1] demo_big (\<lambda>_. None))) s2"
    by (auto simp: rec_size_def)
  have "(1 + 1 :: file_id) = 2" by simp
  then show ?thesis using s(1) s1(1) s2 by (auto simp: kv_upd_def)
qed

text \<open>The state that the two puts lead to.\<close>

definition demo_logs :: "file_id \<Rightarrow> rec_entry list" where
  "demo_logs = (\<lambda>_. [])(1 := [demo_entry [1] demo_big], 2 := [demo_entry [2] demo_big])"

definition demo_map :: "bytes \<Rightarrow> bytes option" where
  "demo_map = (\<lambda>_. None)([1] \<mapsto> demo_big, [2] \<mapsto> demo_big)"

abbreviation demo_two :: "bytes db \<Rightarrow> bool" where
  "demo_two \<equiv> demo_state demo_logs [1, 2] 2 demo_map"

lemma demo_two_ex: "\<exists>s. demo_two s"
  using demo_two_files unfolding demo_logs_def demo_map_def by blast

lemma demo_map_simps [simp]: "demo_map [1] = Some demo_big" "demo_map [2] = Some demo_big" "demo_map [3] = None"
  by (simp_all add: demo_map_def)

lemma demo_logs_simps [simp]:
  "demo_logs 1 = [demo_entry [1] demo_big]" "demo_logs 2 = [demo_entry [2] demo_big]"
  by (simp_all add: demo_logs_def)

lemma demo_logs_room: "log_size (demo_logs fid) < 4096"
  by (simp add: demo_logs_def rec_size_def)

lemma demo_not_full: "not_full list_pedrolib 4096 demo_logs fs m fid"
  by (simp add: not_full_def demo_logs_room)

lemma demo_twoD:
  assumes "demo_two s"
  shows "db_ok list_pedrolib 4096 demo_logs s" "db_recoverable demo_logs s" "db_current s" "\<not> db_readonly s"
    "db_options s = demo_options False" "db_abs list_pedrolib demo_logs s = demo_map" "db_active s = 2"
    "db_files s = [1, 2]" "mm_path (fm_meta (db_fm s)) = demo_path"
    "db_holds list_pedrolib 4096 False demo_logs s demo_map"
  using assms unfolding demo_state_def db_holds_def by simp_all

text \<open>Another cache of the same kind.\<close>

lemma demo_state_cache:
  assumes "demo_state logs files a m s" "rc_new n c = Some bc"
  shows "demo_state logs files a m (s\<lparr>db_read_cache := bc\<rparr>)"
  using assms(1) rc_new_ok [OF assms(2)]
  by (auto simp: demo_state_def db_ok_def db_recoverable_def db_current_def db_files_def db_active_def
      db_abs_def [abs_def] db_value_def [abs_def] cong: option.case_cong)

text \<open>The hash of the instance depends on the last four bytes.\<close>

lemma be_dec_append: "be_dec (xs @ ys) = be_dec xs * 256 ^ length ys + be_dec ys"
proof (induction ys rule: rev_induct)
  case (snoc y ys)
  then show ?case unfolding append_assoc [symmetric] be_dec_snoc by (simp add: algebra_simps)
qed (simp add: be_dec_def)

lemma list_hash: "hash32 (std_hash list_pedrolib) s = of_nat (be_dec s)"
  by (simp add: hash32_def list_pedrolib_def unsigned_of_nat word_of_nat_eq_iff take_bit_take_bit)

lemma list_hash_last: "length ys = 4 \<Longrightarrow> hash32 (std_hash list_pedrolib) (xs @ ys) = of_nat (be_dec ys)"
proof -
  assume "length ys = 4"
  then have "be_dec (xs @ ys) = be_dec xs * 2 ^ 32 + be_dec ys" by (simp add: be_dec_append)
  moreover have "of_nat (a * 2 ^ 32 + b) = (of_nat b :: u32)" for a b
    by (rule word_of_nat_eq_iff [THEN iffD2]) (simp add: take_bit_eq_mod)
  ultimately show ?thesis unfolding list_hash by metis
qed

section \<open>A state with deletions\<close>

text \<open>
  The two deletions go to the second file, then a third file is opened: no record of the second
  file is current any more, and the first file still has a record of the deleted key 1.
\<close>

definition demo_dead_logs :: "file_id \<Rightarrow> rec_entry list" where
  "demo_dead_logs = (\<lambda>_. [])(1 := [demo_entry [1] demo_big],
     2 := [demo_entry [2] demo_big, demo_entry [1] [], demo_entry [2] []], 3 := [demo_entry [3] demo_big])"

abbreviation demo_dead :: "bytes db \<Rightarrow> bool" where
  "demo_dead \<equiv> demo_state demo_dead_logs [1, 2, 3] 3 [[3] \<mapsto> demo_big]"

text \<open>Before the third file is opened, the second one is the active file, without a current record.\<close>

definition demo_gone_logs :: "file_id \<Rightarrow> rec_entry list" where
  "demo_gone_logs = demo_logs(2 := [demo_entry [2] demo_big, demo_entry [2] []])"

abbreviation demo_gone :: "bytes db \<Rightarrow> bool" where
  "demo_gone \<equiv> demo_state demo_gone_logs [1, 2] 2 [[1] \<mapsto> demo_big]"

lemma demo_gone_ex: "\<exists>s. demo_gone s"
proof -
  obtain s where s: "demo_two s" using demo_two_ex by blast
  have m: "kv_upd [2] [] demo_map = [[1] \<mapsto> demo_big]" by (auto simp: kv_upd_def demo_map_def)
  have "log_size (demo_logs 2) + 14 + length [2 :: u8] + length ([] :: bytes) \<le> 4096" by (simp add: rec_size_def)
  with demo_put [OF s, of "[2]" "[]" False] m show ?thesis
    unfolding demo_gone_logs_def by (auto simp: rec_size_def)
qed

lemma demo_dead_ex: "\<exists>s. demo_dead s"
proof -
  let ?l1 = "demo_logs(2 := [demo_entry [2] demo_big, demo_entry [1] []])"
  let ?l2 = "demo_logs(2 := [demo_entry [2] demo_big, demo_entry [1] [], demo_entry [2] []])"
  obtain s where s: "demo_two s" using demo_two_ex by blast
  from demo_put [OF s, of "[1]" "[]" False] obtain s1 where s1: "demo_state ?l1 [1, 2] 2 (kv_upd [1] [] demo_map) s1"
    by (auto simp: rec_size_def)
  from demo_put [OF s1, of "[2]" "[]" False] obtain s2 where s2:
    "demo_state ?l2 [1, 2] 2 (kv_upd [2] [] (kv_upd [1] [] demo_map)) s2" by (auto simp: rec_size_def)
  from demo_put [OF s2, of "[3]" demo_big False] obtain s3 where s3:
    "demo_state (?l2(3 := [demo_entry [3] demo_big])) [1, 2, 3] 3 (kv_upd [3] demo_big (kv_upd [2] [] (kv_upd [1] [] demo_map))) s3"
    by (auto simp: rec_size_def)
  have "kv_upd [3] demo_big (kv_upd [2] [] (kv_upd [1] [] demo_map)) = [[3] \<mapsto> demo_big]"
    by (auto simp: kv_upd_def demo_map_def)
  moreover have "?l2(3 := [demo_entry [3] demo_big]) = demo_dead_logs"
    by (auto simp: demo_dead_logs_def demo_logs_def)
  ultimately show ?thesis using s3 by metis
qed

lemma demo_dead_room: "log_size (demo_dead_logs fid) < 4096" "log_size (demo_gone_logs fid) < 4096"
  by (simp_all add: demo_dead_logs_def demo_gone_logs_def demo_logs_def rec_size_def)

end
