(* ===== verification/DBDead.thy ===== *)
theory DBDead
  imports DBStore
begin

text \<open>
  Compaction of a file to which no entry of the index leads. The loop moves nothing, so the
  effect is exactly the removal of the file. Two consequences are shown here: a deletion is
  forgotten when its record was in the file and an older record of the key is not, and the
  active file can be removed while the file manager keeps appending to it.
\<close>

definition dead_file :: "file_id \<Rightarrow> 'a db \<Rightarrow> bool" where
  "dead_file fid s \<longleftrightarrow> (\<forall>k d. db_indices s k = Some d \<longrightarrow> loc_id (dir_loc d) \<noteq> fid)"

lemma db_compact_loop_dead:
  assumes P: "pedrolib_ok P" and all: "log_size all < cap" and f: "rf_inv fs f"
    and log: "log_file P cap all (fs_data fs (rf_ino f))" and size: "f_Size (rf_ops fs) f = cap"
  shows "all = pre @ es \<Longrightarrow> fm_fs (db_fm s) = fs \<Longrightarrow> dead_file fid s \<Longrightarrow>
     ri_at P (rf_ops fs) it (db_buf s) (log_size pre) \<Longrightarrow> ri_file it = f \<Longrightarrow>
     \<exists>buf. db_compact_loop P cap io fid it s = Some (True, s\<lparr>db_buf := buf\<rparr>)"
proof (induction es arbitrary: pre it s)
  case Nil
  have inv: "rf_inv fs (ri_file it)" using f Nil.prems(5) by simp
  have "drop (log_size pre) (fs_data fs (rf_ino (ri_file it))) = replicate (cap - log_size all) 0"
    using log Nil.prems(1,5) P by (simp add: log_file_def)
  from rf.ri_Valid_zeros [OF P inv Nil.prems(4) this] obtain it' buf' where
    "ri_Valid P (rf_ops fs) it (db_buf s) = Some (False, it', buf')" by blast
  then show ?case using Nil.prems(2) by (subst db_compact_loop.simps) (auto simp: Let_def)
next
  case (Cons e es)
  have A: "codec_ok P" using P by simp
  have inv: "rf_inv fs (ri_file it)" using f Cons.prems(5) by simp
  have e: "rec_wf e" using log Cons.prems(1) by (simp add: log_file_def)
  have sl: "slice (fs_data fs (rf_ino (ri_file it))) (log_size pre) (rec_size e) = rec_bytes P e"
    using log_file_split [OF A, of cap pre e es] log Cons.prems(1,5) by simp
  have "log_size pre + rec_size e < f_Size (rf_ops fs) (ri_file it)" using all Cons.prems(1,5) size by simp
  from rf.ri_Valid_record [OF P inv Cons.prems(4) e sl this] obtain it1 buf1 where
    v: "ri_Valid P (rf_ops fs) it (db_buf s) = Some (True, it1, buf1)" "ri_entry it1 = e" "ri_file it1 = ri_file it"
      "ri_index it1 = log_size pre" "ri_read_index it1 = log_size pre + rec_size e" "ri_size it1 = ri_size it"
      "ab_bytes P buf1 = []" by blast
  have "ri_size it1 = f_Size (rf_ops fs) (ri_file it1)" using v Cons.prems(4) by (simp add: ri_at_def)
  from ri_Next_at [OF _ _ this v(7)] v(2,4,5) e
  have n: "ri_at P (rf_ops fs) (snd (ri_Next it1)) buf1 (log_size (pre @ [e]))"
    "ri_file (snd (ri_Next it1)) = f" "fst (ri_Next it1) = e"
    using v(3) Cons.prems(5) by simp_all
  obtain it2 where it2: "ri_Next it1 = (e, it2)" using n(3) by (cases "ri_Next it1") simp
  have dead: "\<not> db_compact_check fid off e s" for off
    using Cons.prems(3) by (fastforce simp: dead_file_def db_compact_check_def split: option.splits)
  have step: "db_compact_loop P cap io fid it s = db_compact_loop P cap io fid it2 (s\<lparr>db_buf := buf1\<rparr>)"
    using v(1) it2 Cons.prems(2) dead
    by (subst db_compact_loop.simps) (simp add: Let_def db_compact_check_def)
  have "dead_file fid (s\<lparr>db_buf := buf1\<rparr>)" using Cons.prems(3) by (simp add: dead_file_def)
  from Cons.IH [OF _ _ this] n(1,2) it2 Cons.prems(1,2)
  show ?case unfolding step by fastforce
qed

text \<open>The effect of compacting such a file, the active one or another.\<close>

lemma db_compact_file_dead:
  assumes P: "pedrolib_ok P" and ok: "db_ok P cap logs s" and io: "io_good io" and rw: "\<not> db_readonly s"
    and fid: "fid \<in> set (db_files s)" and full: "log_size (logs fid) < cap" and dead: "dead_file fid s"
  shows "\<exists>c buf. db_compact_file P cap io fid s
       = Some (s\<lparr>db_fm := snd (fm_RemoveFile P io fid ((db_fm s)\<lparr>fm_open_files := c\<rparr>)), db_buf := buf,
           db_file_states := (db_file_states s)(fid := None)\<rparr>)
     \<and> fm_ok P cap logs ((db_fm s)\<lparr>fm_open_files := c\<rparr>)"
proof -
  note d = db_okD [OF ok]
  from fm_AcquireDataFile_ok [OF P d(1) io, of fid] fid obtain f c where f:
    "fm_AcquireDataFile P io fid (db_fm s) = (kOk, Some f, (db_fm s)\<lparr>fm_open_files := c\<rparr>)"
    "fm_ok P cap logs ((db_fm s)\<lparr>fm_open_files := c\<rparr>)" "rf_inv (fm_fs (db_fm s)) f"
    "log_file P cap (logs fid) (fs_data (fm_fs (db_fm s)) (rf_ino f))"
    "f_Size (rf_ops (fm_fs (db_fm s))) f = cap" by (auto simp: db_files_def)
  have cap: "14 < cap" using d(1) unfolding fm_ok_def disk_ok_def by blast
  let ?fs = "fm_fs (db_fm s)" and ?s0 = "s\<lparr>db_fm := (db_fm s)\<lparr>fm_open_files := c\<rparr>\<rparr>"
  let ?s1 = "set_file_state fid (file_state_of ?s0 fid\<lparr>compact_state := kCompacting\<rparr>) ?s0"
  have at: "ri_at P (rf_ops ?fs) (ri_new (rf_ops ?fs) f) (db_buf ?s1) (log_size [])"
    using ri_at_new [of "rf_ops ?fs" f P] f(5) cap by simp
  have "dead_file fid ?s1" using dead by (simp add: dead_file_def set_file_state_def)
  from db_compact_loop_dead [OF P full f(3,4,5) _ _ this at, of "logs fid" io] obtain buf where
    "db_compact_loop P cap io fid (ri_new (rf_ops ?fs) f) ?s1 = Some (True, ?s1\<lparr>db_buf := buf\<rparr>)"
    by (auto simp: ri_new_def set_file_state_def)
  then show ?thesis
    using f(1,2) rw by (intro exI [of _ c] exI [of _ buf]) (simp add: db_compact_file_def Let_def set_file_state_def)
qed

text \<open>An old file: nothing but the file and its states disappears.\<close>

lemma db_compact_dead_old:
  assumes P: "pedrolib_ok P" and ok: "db_ok P cap logs s" and io: "io_good io" and rw: "\<not> db_readonly s"
    and fid: "fid \<in> set (db_files s)" "fid \<noteq> db_active s"
    and full: "log_size (logs fid) < cap" and dead: "dead_file fid s"
  shows "\<exists>s'. db_compact_file P cap io fid s = Some s' \<and> db_ok P cap logs s'
     \<and> db_files s' = set_erase fid (db_files s) \<and> db_indices s' = db_indices s \<and> db_active s' = db_active s
     \<and> db_abs P logs s' = db_abs P logs s \<and> db_current s' = db_current s \<and> db_options s' = db_options s
     \<and> mm_path (fm_meta (db_fm s')) = mm_path (fm_meta (db_fm s))"
proof -
  from db_compact_file_dead [OF P ok io rw fid(1) full dead] obtain c buf where c:
    "db_compact_file P cap io fid s
       = Some (s\<lparr>db_fm := snd (fm_RemoveFile P io fid ((db_fm s)\<lparr>fm_open_files := c\<rparr>)), db_buf := buf,
           db_file_states := (db_file_states s)(fid := None)\<rparr>)"
    "fm_ok P cap logs ((db_fm s)\<lparr>fm_open_files := c\<rparr>)" by blast
  have "fid \<noteq> fm_active_id ((db_fm s)\<lparr>fm_open_files := c\<rparr>)" using fid(2) by (simp add: db_active_def)
  from fm_RemoveFile_ok [OF P c(2) io this] obtain fm where r:
    "fm_RemoveFile P io fid ((db_fm s)\<lparr>fm_open_files := c\<rparr>) = (kOk, fm)" "fm_ok P cap logs fm"
    "fm_active_id fm = fm_active_id (db_fm s)" "mm_files (fm_meta fm) = set_erase fid (db_files s)"
    "mm_path (fm_meta fm) = mm_path (fm_meta (db_fm s))" by (auto simp: db_files_def)
  let ?s = "s\<lparr>db_fm := fm, db_buf := buf, db_file_states := (db_file_states s)(fid := None)\<rparr>"
  have "db_ok P cap logs (s\<lparr>db_fm := fm\<rparr>)"
    using db_ok_removed [OF ok r(2) _ r(4)] r(3) dead by (auto simp: db_active_def dead_file_def)
  then have "db_ok P cap logs ?s" by (simp add: db_ok_def db_files_def db_active_def)
  moreover have "db_abs P logs ?s = db_abs P logs s"
    by (simp add: db_abs_def [abs_def] db_value_def [abs_def] cong: option.case_cong)
  ultimately show ?thesis
    using c(1) r by (intro exI [of _ ?s]) (simp add: db_files_def db_current_def db_active_def)
qed

text \<open>
  A key that is deleted, whose deletion is not in the remaining files, has its older value again
  when the remaining files are opened.
\<close>

lemma db_dead_reopen:
  assumes P: "pedrolib_ok P" and ok: "db_ok P cap logs s" and io: "io_good io" and rw: "\<not> db_readonly s"
    and fid: "fid \<in> set (db_files s)" "fid \<noteq> db_active s" and dead: "dead_file fid s"
    and room: "\<And>x. log_size (logs x) < cap"
    and p: "path_valid (mm_path (fm_meta (db_fm s)))" and seg: "opt_cache_segments opts \<noteq> 0"
    and compress: "opt_compress_value opts = opt_compress_value (db_options s)"
  shows "\<exists>s' s1. db_compact_file P cap io fid s = Some s' \<and> db_ok P cap logs s'
     \<and> db_abs P logs s' = db_abs P logs s \<and> db_current s' = db_current s
     \<and> db_Open P cap io opts (mm_path (fm_meta (db_fm s))) buf (fm_fs (db_fm s'))
         = Some (kOk, Some s1, fm_fs (db_fm s'))
     \<and> db_ok P cap logs s1 \<and> db_current s1
     \<and> db_indices s1 = replay logs (set_erase fid (db_files s)) (\<lambda>_. None)"
proof -
  from db_compact_dead_old [OF P ok io rw fid room dead] obtain s' where s':
    "db_compact_file P cap io fid s = Some s'" "db_ok P cap logs s'" "db_files s' = set_erase fid (db_files s)"
    "db_abs P logs s' = db_abs P logs s" "db_current s' = db_current s" "db_options s' = db_options s"
    "mm_path (fm_meta (db_fm s')) = mm_path (fm_meta (db_fm s))" by blast
  have p': "path_valid (mm_path (fm_meta (db_fm s')))" using p s'(7) by simp
  have "\<forall>x \<in> set (db_files s'). not_full P cap logs (fm_fs (db_fm s')) (fm_meta (db_fm s')) x"
    using room by (simp add: not_full_def)
  from db_Open_existing [OF P db_ok_dir_good [OF s'(2) p' this] io seg, of buf] obtain s1 where
    "db_Open P cap io opts (mm_path (fm_meta (db_fm s'))) buf (fm_fs (db_fm s'))
       = Some (kOk, Some s1, fm_fs (db_fm s'))" "db_ok P cap logs s1" "db_recoverable logs s1" "db_current s1"
    "fm_meta (db_fm s1) = fm_meta (db_fm s')" by blast
  then show ?thesis
    using s' by (intro exI [of _ s'] exI [of _ s1]) (simp add: db_recoverable_def db_files_def)
qed

section \<open>A put that is under way\<close>

text \<open>
  The record of a put is in its file, and the put has not yet taken the lock to update the index,
  when the file is compacted: the index does not lead to the record, so it is not moved. The put
  goes on, and leaves the index with the location of a file that does not exist any more.
\<close>

lemma db_get_missing_file:
  assumes ok: "fm_ok P cap logs (db_fm s)" and d: "db_indices s key = Some d"
    and fid: "loc_id (dir_loc d) \<notin> set (db_files s)" "loc_id (dir_loc d) \<noteq> db_active s"
  shows "\<exists>s'. db_HandleGet P io False key s = Some (kIOError, None, s')"
proof -
  from fm_AcquireDataFile_missing [OF ok, of "loc_id (dir_loc d)" io] fid obtain c where
    "fm_AcquireDataFile P io (loc_id (dir_loc d)) (db_fm s) = (kIOError, None, (db_fm s)\<lparr>fm_open_files := c\<rparr>)"
    by (auto simp: db_files_def db_active_def)
  then show ?thesis using d by (simp add: db_HandleGet_def db_get_direct_def)
qed

lemma db_compact_drops:
  assumes P: "pedrolib_ok P" and ok: "db_ok P cap logs s" and io: "io_good io" and rw: "\<not> db_readonly s"
    and fid: "loc_id loc \<in> set (db_files s)" "loc_id loc \<noteq> db_active s" and dead: "dead_file (loc_id loc) s"
    and room: "\<And>x. log_size (logs x) < cap" and val: "val \<noteq> []"
    and p: "path_valid (mm_path (fm_meta (db_fm s)))" and seg: "opt_cache_segments opts \<noteq> 0"
    and compress: "opt_compress_value opts = opt_compress_value (db_options s)"
  shows "\<exists>s1 s2 s3 s4. db_compact_file P cap io (loc_id loc) s = Some s1
     \<and> db_put_index key val e loc s1 = (kOk, s2) \<and> db_Get P io False key s2 = Some (kIOError, None, s3)
     \<and> db_Open P cap io opts (mm_path (fm_meta (db_fm s))) buf (fm_fs (db_fm s2)) = Some (kOk, Some s4, fm_fs (db_fm s2))
     \<and> db_indices s4 = replay logs (set_erase (loc_id loc) (db_files s)) (\<lambda>_. None)"
proof -
  from db_dead_reopen [OF P ok io rw fid dead room p seg compress, of buf] obtain s1 s4 where s1:
    "db_compact_file P cap io (loc_id loc) s = Some s1"
    "db_Open P cap io opts (mm_path (fm_meta (db_fm s))) buf (fm_fs (db_fm s1)) = Some (kOk, Some s4, fm_fs (db_fm s1))"
    "db_indices s4 = replay logs (set_erase (loc_id loc) (db_files s)) (\<lambda>_. None)" by blast
  from db_compact_dead_old [OF P ok io rw fid room dead] s1(1) have
    s1': "db_ok P cap logs s1" "db_files s1 = set_erase (loc_id loc) (db_files s)" "db_active s1 = db_active s" by auto
  from db_put_index_set [OF val, of key e loc s1] obtain s2 where s2: "db_put_index key val e loc s1 = (kOk, s2)"
    "db_indices s2 = (db_indices s1)(key \<mapsto> \<lparr>dir_entry_size = rec_sizeof e, dir_loc = loc\<rparr>)" "db_fm s2 = db_fm s1"
    by blast
  have ok2: "fm_ok P cap logs (db_fm s2)" using db_okD(1) [OF s1'(1)] s2(3) by simp
  have "db_files s2 = db_files s1" "db_active s2 = db_active s1" using s2(3) by (simp_all add: db_files_def db_active_def)
  then obtain s3 where "db_HandleGet P io False key s2 = Some (kIOError, None, s3)"
    using db_get_missing_file [OF ok2, of key _ io] s2(2) s1'(2,3) fid(2) by auto
  then show ?thesis using s1 s2 by (auto simp: db_Get_def)
qed

section \<open>The active file\<close>

text \<open>An append does not look at the names of the files.\<close>

lemma fm_append_active_names:
  assumes a: "fm_append_active P e s = Some (Inr (loc, t))"
    and same: "fm_data_file s' = fm_data_file s" "fm_index_log s' = fm_index_log s"
      "fm_active_id s' = fm_active_id s"
      "\<And>f. fm_data_file s = Some f \<Longrightarrow> fs_data (fm_fs s') (mrw_ino f) = fs_data (fm_fs s) (mrw_ino f)"
  shows "\<exists>t'. fm_append_active P e s' = Some (Inr (loc, t')) \<and> fs_links (fm_fs t') = fs_links (fm_fs s')
     \<and> fm_meta t' = fm_meta s' \<and> fm_active_id t' = fm_active_id s'"
proof -
  from a obtain f where f: "fm_data_file s = Some f" by (auto simp: fm_append_active_def fm_append_file_def split: option.splits)
  have "mrw_Allocate n (fm_fs s') f = mrw_Allocate n (fm_fs s) f" for n
    using same(4) [OF f] by (simp add: mrw_Allocate_def)
  then show ?thesis
    using a same(1-3) f
    by (auto simp: fm_append_active_def fm_append_file_def Let_def split: option.splits prod.splits if_splits)
qed

lemma fm_RemoveFile_active:
  assumes P: "pedrolib_ok P" and ok: "fm_ok P cap logs s" and io: "io_good io"
  shows "\<exists>s'. fm_RemoveFile P io (fm_active_id s) s = (kOk, s')
     \<and> fm_data_file s' = fm_data_file s \<and> fm_index_log s' = fm_index_log s
     \<and> fm_active_id s' = fm_active_id s \<and> mm_name (fm_meta s') = mm_name (fm_meta s)
     \<and> (\<forall>f. fm_data_file s = Some f \<longrightarrow> fs_data (fm_fs s') (mrw_ino f) = fs_data (fm_fs s) (mrw_ino f))
     \<and> fs_links (fm_fs s') (mm_GetDataFilePath P (fm_meta s) (fm_active_id s)) = None
     \<and> fm_active_id s \<notin> set (mm_files (fm_meta s'))"
proof -
  let ?m = "fm_meta s" and ?fs = "fm_fs s" and ?a = "fm_active_id s"
  have dok: "disk_ok P cap logs ?fs ?m" and aok: "active_ok P cap logs s" using ok by (simp_all add: fm_ok_def)
  note d = disk_okD [OF dok]
  from active_okE [OF aok] obtain f where f: "fm_data_file s = Some f"
    "fs_links ?fs (mm_GetDataFilePath P ?m ?a) = Some (mrw_ino f)" .
  from mm_DeleteFile_ok [OF P d(4), of io ?a] io obtain m' fs' where
    r: "mm_DeleteFile P io ?a ?m ?fs = (kOk, m', fs')" "mm_files m' = set_erase ?a (mm_files ?m)"
      "mm_name m' = mm_name ?m" "fs_links fs' = fs_links ?fs"
      "\<And>j. fs_links ?fs (mm_path ?m) \<noteq> Some j \<Longrightarrow> fs_data fs' j = fs_data ?fs j"
    by auto
  have "mm_path ?m \<noteq> mm_GetDataFilePath P ?m ?a" using d(5) by (simp add: paths_ok_def)
  then have "fs_data fs' (mrw_ino f) = fs_data ?fs (mrw_ino f)"
    using r(5) [of "mrw_ino f"] fs_ok_inj [OF d(3) f(2), of "mm_path ?m"] by metis
  then show ?thesis
    using r f(1) path_name(1) [OF r(3), of P] path_name(2) [OF r(3), of P]
    by (simp add: fm_RemoveFile_def fm_ReleaseDataFile_def Let_def fs_remove_def)
qed

text \<open>
  The compaction of the active file removes its name and its entry in the metadata, and later puts
  still go to it.
\<close>

lemma db_compact_active_dead:
  assumes P: "pedrolib_ok P" and ok: "db_ok P cap logs s" and io: "io_good io" and rw: "\<not> db_readonly s"
    and full: "log_size (logs (db_active s)) < cap" and dead: "dead_file (db_active s) s"
    and e: "db_fits P cap s key val" "log_size (logs (db_active s)) + rec_size (db_entry P s key val) \<le> cap"
    and val: "val \<noteq> []"
  shows "\<exists>s1 s2. db_compact_file P cap io (db_active s) s = Some s1
     \<and> db_Put P cap io sync key val s1 = Some (kOk, s2)
     \<and> db_active s \<notin> set (db_files s2)
     \<and> fs_links (fm_fs (db_fm s2)) (mm_GetDataFilePath P (fm_meta (db_fm s2)) (db_active s)) = None
     \<and> (\<exists>d. db_indices s2 key = Some d \<and> loc_id (dir_loc d) = db_active s)"
proof -
  have fid: "db_active s \<in> set (db_files s)"
    using active_files(4) [OF db_okD(1) [OF ok]] by (simp add: db_files_def db_active_def)
  from db_compact_file_dead [OF P ok io rw fid full dead] obtain c buf where c:
    "db_compact_file P cap io (db_active s) s
       = Some (s\<lparr>db_fm := snd (fm_RemoveFile P io (db_active s) ((db_fm s)\<lparr>fm_open_files := c\<rparr>)), db_buf := buf,
           db_file_states := (db_file_states s)(db_active s := None)\<rparr>)"
    "fm_ok P cap logs ((db_fm s)\<lparr>fm_open_files := c\<rparr>)" by blast
  let ?e = "db_entry P s key val" and ?fm = "(db_fm s)\<lparr>fm_open_files := c\<rparr>"
  have act: "fm_active_id ?fm = db_active s" by (simp add: db_active_def)
  from fm_RemoveFile_active [OF P c(2) io] obtain fm1 where r:
    "fm_RemoveFile P io (db_active s) ?fm = (kOk, fm1)" "fm_data_file fm1 = fm_data_file ?fm"
    "fm_index_log fm1 = fm_index_log ?fm" "fm_active_id fm1 = db_active s"
    "mm_name (fm_meta fm1) = mm_name (fm_meta ?fm)"
    "\<And>f. fm_data_file ?fm = Some f \<Longrightarrow> fs_data (fm_fs fm1) (mrw_ino f) = fs_data (fm_fs ?fm) (mrw_ino f)"
    "fs_links (fm_fs fm1) (mm_GetDataFilePath P (fm_meta ?fm) (db_active s)) = None"
    "db_active s \<notin> set (mm_files (fm_meta fm1))" unfolding act by blast
  have wf: "rec_wf ?e"
    using db_fits_wf [OF e(1)] appended_log_bound(2) [OF db_okD(1) [OF ok]] fid by (simp add: db_files_def)
  from fm_append_active_fits [OF P c(2) wf] e(2) obtain t where
    "fm_append_active P ?e ?fm = Some (Inr (Location (db_active s) (of_nat (log_size (logs (db_active s)))), t))"
    unfolding act by blast
  from fm_append_active_names [OF this r(2,3) _ r(6)] r(4) obtain fm2 where fm2:
    "fm_append_active P ?e fm1 = Some (Inr (Location (db_active s) (of_nat (log_size (logs (db_active s)))), fm2))"
    "fs_links (fm_fs fm2) = fs_links (fm_fs fm1)" "fm_meta fm2 = fm_meta fm1" unfolding act by metis
  let ?loc = "Location (db_active s) (of_nat (log_size (logs (db_active s))))"
  have app: "fm_Append P cap io ?e fm1 = Some (kOk, ?loc, fm2)"
    using fm2(1) by (subst fm_Append.simps) simp
  let ?s1 = "s\<lparr>db_fm := fm1, db_buf := buf, db_file_states := (db_file_states s)(db_active s := None)\<rparr>"
  have e1: "db_entry P ?s1 key val = ?e" by (simp add: db_entry_def)
  have size: "unat (rec_sizeof ?e) \<le> cap" using e(1) wf by (simp add: db_fits_def)
  let ?r = "db_put_index key val ?e ?loc (?s1\<lparr>db_fm := fm2\<rparr>)"
  have "db_Put P cap io sync key val ?s1 = Some ?r"
    using rw app size by (simp add: db_Put_def db_HandlePut_def e1 Let_def split: prod.split)
  moreover have "fst ?r = kOk" "db_fm (snd ?r) = fm2"
    "db_indices (snd ?r) key = Some \<lparr>dir_entry_size = rec_sizeof ?e, dir_loc = ?loc\<rparr>"
    using val by (auto simp: db_put_index_def Let_def split: option.splits)
  moreover have "mm_GetDataFilePath P (fm_meta fm2) (db_active s) = mm_GetDataFilePath P (fm_meta ?fm) (db_active s)"
    using path_name(1) [of "fm_meta fm2" "fm_meta ?fm" P] fm2(3) r(5) by simp
  ultimately show ?thesis
    using c(1) r(1,7,8) fm2(2,3)
    by (intro exI [of _ ?s1] exI [of _ "snd ?r"]) (simp add: db_files_def prod_eq_iff)
qed

end
