(* ===== verification/DBIterator.thy ===== *)
theory DBIterator
  imports DBStore
begin

text \<open>
  The iterator of the database (\<^verbatim>\<open>DBImpl::GetIterator\<close>). It walks over a copy of the
  index, opens the file of every entry, and delivers what a record iterator delivers first: the
  first record of the file, since the offset of the entry is not used.
\<close>

lemma db_reads_refl [simp]: "db_reads s s"
  unfolding db_reads_def
  by (intro exI [of _ "fm_open_files (db_fm s)"] exI [of _ "db_read_cache s"] exI [of _ "db_buf s"]) simp

lemma db_reads_trans: "db_reads s s' \<Longrightarrow> db_reads s' s'' \<Longrightarrow> db_reads s s''"
  unfolding db_reads_def by fastforce

text \<open>What one call of \<^verbatim>\<open>Valid\<close> does for the next entry of the index.\<close>

lemma dbi_Valid_first:
  assumes P: "pedrolib_ok P" and ok: "db_ok P cap logs s" and io: "io_good io"
    and fid: "loc_id (dir_loc d) \<in> set (db_files s)" and log: "logs (loc_id (dir_loc d)) = e # es"
    and room: "rec_size e < cap"
  shows "\<exists>s'. dbi_Valid_from P io ((k, d) # rest) e0 s = Some (True, \<lparr>dbi_rest = rest, dbi_next = e\<rparr>, s')
     \<and> db_ok P cap logs s' \<and> db_reads s s'"
proof -
  note o = db_okD [OF ok]
  let ?fid = "loc_id (dir_loc d)"
  from fm_AcquireDataFile_ok [OF P o(1) io, of ?fid] fid obtain f c where f:
    "fm_AcquireDataFile P io ?fid (db_fm s) = (kOk, Some f, (db_fm s)\<lparr>fm_open_files := c\<rparr>)"
    "fm_ok P cap logs ((db_fm s)\<lparr>fm_open_files := c\<rparr>)" "rf_inv (fm_fs (db_fm s)) f"
    "log_file P cap (logs ?fid) (fs_data (fm_fs (db_fm s)) (rf_ino f))"
    "f_Size (rf_ops (fm_fs (db_fm s))) f = cap" by (auto simp: db_files_def)
  let ?F = "rf_ops (fm_fs (db_fm s))"
  have A: "codec_ok P" using P by simp
  have cap: "14 < cap" using o(1) unfolding fm_ok_def disk_ok_def by blast
  have at: "ri_at P ?F (ri_new ?F f) (db_buf s) 0" using ri_at_new [of ?F f P] f(5) cap by simp
  have inv: "rf_inv (fm_fs (db_fm s)) (ri_file (ri_new ?F f))" using f(3) by (simp add: ri_new_def)
  have e: "rec_wf e" using f(4) log by (simp add: log_file_def)
  have sl: "slice (fs_data (fm_fs (db_fm s)) (rf_ino (ri_file (ri_new ?F f)))) 0 (rec_size e) = rec_bytes P e"
    using log_file_split [OF A, of cap "[]" e es] f(4) log by (simp add: ri_new_def)
  have "0 + rec_size e < f_Size ?F (ri_file (ri_new ?F f))" using room f(5) by (simp add: ri_new_def)
  from rf.ri_Valid_record [OF P inv at e sl this] obtain it buf where
    v: "ri_Valid P ?F (ri_new ?F f) (db_buf s) = Some (True, it, buf)" "ri_entry it = e" by blast
  have val: "rec_validate P e" using o(3) fid log by (simp add: records_valid_def)
  let ?s = "s\<lparr>db_fm := (db_fm s)\<lparr>fm_open_files := c\<rparr>, db_buf := buf\<rparr>"
  have "?s = s\<lparr>db_fm := (db_fm s)\<lparr>fm_open_files := c\<rparr>, db_read_cache := db_read_cache s, db_buf := buf\<rparr>"
    by simp
  then have "db_reads s ?s" "db_ok P cap logs ?s"
    using db_ok_reads [OF ok f(2) o(4), of buf] unfolding db_reads_def by (blast, simp)
  then show ?thesis
    using f(1) v val by (intro exI [of _ ?s]) (simp add: ri_Next_def Let_def)
qed

text \<open>A client that calls \<^verbatim>\<open>Valid\<close> and \<^verbatim>\<open>Next\<close> until the end.\<close>

fun dbi_scan :: "'a pedrolib \<Rightarrow> io \<Rightarrow> nat \<Rightarrow> db_iterator \<Rightarrow> 'a db \<Rightarrow> (rec_entry list \<times> 'a db) option" where
  "dbi_scan P io 0 it s = None"
| "dbi_scan P io (Suc n) it s =
     (case dbi_Valid P io it s of
        None \<Rightarrow> None
      | Some (False, it, s) \<Rightarrow> Some ([], s)
      | Some (True, it, s) \<Rightarrow> map_option (apfst (Cons (dbi_Next it))) (dbi_scan P io n it s))"

lemma dbi_scan_first:
  assumes P: "pedrolib_ok P" and io: "io_good io"
  shows "db_ok P cap logs s \<Longrightarrow> (\<forall>(k, d) \<in> set rest. dir_ok logs (db_files s) k d) \<Longrightarrow>
     (\<forall>fid \<in> set (db_files s). \<forall>e es. logs fid = e # es \<longrightarrow> rec_size e < cap) \<Longrightarrow>
     \<exists>s'. dbi_scan P io (Suc (length rest)) \<lparr>dbi_rest = rest, dbi_next = e0\<rparr> s
         = Some (map (\<lambda>(k, d). hd (logs (loc_id (dir_loc d)))) rest, s')
       \<and> db_ok P cap logs s' \<and> db_reads s s'"
proof (induction rest arbitrary: s e0)
  case Nil
  then show ?case by (simp add: dbi_Valid_def)
next
  case (Cons kd rest)
  obtain k d where kd: "kd = (k, d)" by fastforce
  let ?fid = "loc_id (dir_loc d)"
  from Cons.prems(2) kd have fid: "?fid \<in> set (db_files s)" and
    at: "\<exists>e. log_at (logs ?fid) (unat (loc_offset (dir_loc d))) = Some e" by (auto simp: dir_ok_def)
  from at obtain e es where log: "logs ?fid = e # es" by (cases "logs ?fid") auto
  with Cons.prems(3) fid have "rec_size e < cap" by blast
  from dbi_Valid_first [OF P Cons.prems(1) io fid log this, of k rest e0] obtain s1 where s1:
    "dbi_Valid_from P io ((k, d) # rest) e0 s = Some (True, \<lparr>dbi_rest = rest, dbi_next = e\<rparr>, s1)"
    "db_ok P cap logs s1" "db_reads s s1" by blast
  have files: "db_files s1 = db_files s" by (rule db_reads_same(5) [OF s1(3)])
  from Cons.IH [OF s1(2)] Cons.prems(2,3) obtain s2 where
    "dbi_scan P io (Suc (length rest)) \<lparr>dbi_rest = rest, dbi_next = e\<rparr> s1
       = Some (map (\<lambda>(k, d). hd (logs (loc_id (dir_loc d)))) rest, s2)"
    "db_ok P cap logs s2" "db_reads s1 s2" unfolding files by (metis list.set_intros(2))
  moreover have "db_reads s s2" by (rule db_reads_trans [OF s1(3) calculation(3)])
  ultimately show ?case using s1(1) log kd by (simp add: dbi_Valid_def dbi_Next_def)
qed

end
