(* ===== verification/DBQueue.thy ===== *)
theory DBQueue
  imports DBStore
begin

text \<open>
  The queue of compaction tasks, a small state machine per file: \<open>kNop\<close> until enough of its
  bytes are unused, \<open>kQueued\<close> while it waits in \<^verbatim>\<open>compact_tasks_\<close>,
  \<open>kScheduling\<close> once it has been polled, \<open>kCompacting\<close> during the compaction, and
  forgotten after it. \<open>queue_ok\<close>: a file waits at most once, and exactly the files that
  wait are \<open>kQueued\<close>. \<open>trigger_ok\<close>: no file that has reached the threshold is
  still \<open>kNop\<close>.
\<close>

definition queue_ok :: "'a db \<Rightarrow> bool" where
  "queue_ok s \<longleftrightarrow> distinct (db_compact_tasks s)
     \<and> (\<forall>fid. fid \<in> set (db_compact_tasks s) \<longleftrightarrow> compact_state (file_state_of s fid) = kQueued)"

definition trigger_ok :: "'a db \<Rightarrow> bool" where
  "trigger_ok s \<longleftrightarrow> (\<forall>fid st. db_file_states s fid = Some st \<longrightarrow>
     opt_threshold_bytes (db_options s) \<le> free_bytes st \<longrightarrow> compact_state st \<noteq> kNop)"

text \<open>Steps that leave the queue and the states alone.\<close>

definition queue_same :: "'a db \<Rightarrow> 'a db \<Rightarrow> bool" where
  "queue_same s s' \<longleftrightarrow> db_compact_tasks s' = db_compact_tasks s
     \<and> (\<forall>fid. compact_state (file_state_of s' fid) = compact_state (file_state_of s fid))"

named_theorems queue_simps

lemma queue_same_refl [queue_simps]: "queue_same s s"
  by (simp add: queue_same_def)

lemma queue_same_trans: "queue_same s s' \<Longrightarrow> queue_same s' s'' \<Longrightarrow> queue_same s s''"
  by (simp add: queue_same_def)

lemma queue_ok_same: "queue_same s s' \<Longrightarrow> queue_ok s' = queue_ok s"
  by (simp add: queue_ok_def queue_same_def)

lemma file_state_of_simps [simp]:
  "file_state_of (s\<lparr>db_fm := fm\<rparr>) fid = file_state_of s fid"
  "file_state_of (s\<lparr>db_buf := buf\<rparr>) fid = file_state_of s fid"
  "file_state_of (s\<lparr>db_indices := ix\<rparr>) fid = file_state_of s fid"
  "file_state_of (s\<lparr>db_max_file := m\<rparr>) fid = file_state_of s fid"
  "file_state_of (s\<lparr>db_compact_tasks := ts\<rparr>) fid = file_state_of s fid"
  "file_state_of (set_file_state x st s) fid = (if fid = x then st else file_state_of s fid)"
  by (simp_all add: file_state_of_def set_file_state_def)

lemma queue_same_updates [queue_simps]:
  "queue_same s (s\<lparr>db_fm := fm\<rparr>)" "queue_same s (s\<lparr>db_buf := buf\<rparr>)" "queue_same s (s\<lparr>db_indices := ix\<rparr>)"
  "queue_same s (s\<lparr>db_max_file := m\<rparr>)"
  by (simp_all add: queue_same_def)

lemma queue_ok_updates [simp]:
  "queue_ok (s\<lparr>db_fm := fm\<rparr>) = queue_ok s" "queue_ok (s\<lparr>db_buf := buf\<rparr>) = queue_ok s"
  "queue_ok (s\<lparr>db_indices := ix\<rparr>) = queue_ok s" "queue_ok (s\<lparr>db_max_file := m\<rparr>) = queue_ok s"
  by (rule queue_ok_same, simp add: queue_simps)+

lemma trigger_ok_updates [simp]:
  "trigger_ok (s\<lparr>db_fm := fm\<rparr>) = trigger_ok s" "trigger_ok (s\<lparr>db_buf := buf\<rparr>) = trigger_ok s"
  "trigger_ok (s\<lparr>db_indices := ix\<rparr>) = trigger_ok s" "trigger_ok (s\<lparr>db_max_file := m\<rparr>) = trigger_ok s"
  by (simp_all add: trigger_ok_def)

section \<open>Space accounting\<close>

lemma db_UpdateUnused_queue:
  "queue_ok s \<Longrightarrow> queue_ok (db_UpdateUnused loc n s)" "trigger_ok s \<Longrightarrow> trigger_ok (db_UpdateUnused loc n s)"
  by (auto simp: queue_ok_def trigger_ok_def db_UpdateUnused_def set_file_state_def Let_def file_state_of_def
      split: if_splits option.splits)

lemma db_put_index_queue:
  "queue_ok s \<Longrightarrow> queue_ok (snd (db_put_index key val e loc s))"
  "trigger_ok s \<Longrightarrow> trigger_ok (snd (db_put_index key val e loc s))"
  by (simp_all add: db_put_index_def Let_def db_UpdateUnused_queue split: option.split)

lemma db_HandlePut_queue:
  assumes "db_HandlePut P cap io sync key val s = Some (st, s')"
  shows "queue_ok s \<Longrightarrow> queue_ok s'" "trigger_ok s \<Longrightarrow> trigger_ok s'"
proof -
  from assms consider "s' = s" | fm where "s' = s\<lparr>db_fm := fm\<rparr>"
    | e loc fm where "s' = snd (db_put_index key val e loc (s\<lparr>db_fm := fm\<rparr>))"
    by (fastforce simp: db_HandlePut_def Let_def prod_eq_iff split: if_splits option.splits prod.splits)
  then show "queue_ok s \<Longrightarrow> queue_ok s'" "trigger_ok s \<Longrightarrow> trigger_ok s'"
    by (cases; simp add: db_put_index_queue)+
qed

lemma db_recover_entry_queue:
  assumes "db_recover_entry fid x s = Some s'"
  shows "queue_ok s \<Longrightarrow> queue_ok s'" "trigger_ok s \<Longrightarrow> trigger_ok s'"
  using assms
  by (auto simp: db_recover_entry_def Let_def db_UpdateUnused_queue split: if_splits option.splits)

text \<open>Recovery accounts for the space that it finds unused; both invariants hold after it.\<close>

definition queue_inv :: "'a db \<Rightarrow> bool" where
  "queue_inv s \<longleftrightarrow> queue_ok s \<and> trigger_ok s"

lemma queue_inv_updates [simp]:
  "queue_inv (s\<lparr>db_fm := fm\<rparr>) = queue_inv s" "queue_inv (s\<lparr>db_buf := buf\<rparr>) = queue_inv s"
  "queue_inv (s\<lparr>db_indices := ix\<rparr>) = queue_inv s" "queue_inv (s\<lparr>db_max_file := m\<rparr>) = queue_inv s"
  by (simp_all add: queue_inv_def)

lemma queue_inv_start: "db_compact_tasks s = [] \<Longrightarrow> db_file_states s = (\<lambda>_. None) \<Longrightarrow> queue_inv s"
  by (simp add: queue_inv_def queue_ok_def trigger_ok_def file_state_of_def)

lemma db_recover_entry_inv: "queue_inv s \<Longrightarrow> db_recover_entry fid x s = Some s' \<Longrightarrow> queue_inv s'"
  using db_recover_entry_queue unfolding queue_inv_def by blast

lemma db_recover_index_inv:
  fixes s :: "'b db"
  assumes "db_recover_index P fid buf s = Some s'" and q: "queue_inv s"
  shows "queue_inv s'"
proof -
  have "queue_inv s \<longrightarrow> queue_inv s'"
  proof (rule db_recover_index.raw_induct [where Pa = "\<lambda>t r. queue_inv (snd t) \<longrightarrow> queue_inv r", OF _ assms(1), unfolded snd_conv])
    fix loop :: "'b pedrolib \<Rightarrow> file_id \<Rightarrow> 'b \<Rightarrow> 'b db \<Rightarrow> 'b db option" and P fid buf s r
    assume IH: "\<And>P fid buf s r. loop P fid buf s = Some r \<Longrightarrow> queue_inv s \<longrightarrow> queue_inv r"
      and body: "(case ii_Valid P buf of None \<Rightarrow> Some s
         | Some (entry, buf) \<Rightarrow> (case db_recover_entry fid entry s of None \<Rightarrow> None
             | Some s \<Rightarrow> loop P fid buf s)) = Some r"
    then show "queue_inv s \<longrightarrow> queue_inv r"
      using db_recover_entry_inv by (fastforce split: option.splits)
  qed
  then show ?thesis using q by blast
qed

lemma db_recover_data_inv:
  fixes s :: "'b db"
  assumes "db_recover_data P fid it s = Some s'" and q: "queue_inv s"
  shows "queue_inv s'"
proof -
  have "queue_inv s \<longrightarrow> queue_inv s'"
  proof (rule db_recover_data.raw_induct [where Pa = "\<lambda>t r. queue_inv (snd t) \<longrightarrow> queue_inv r", OF _ assms(1), unfolded snd_conv])
    fix loop :: "'b pedrolib \<Rightarrow> file_id \<Rightarrow> rfile record_iterator \<Rightarrow> 'b db \<Rightarrow> 'b db option" and P fid it s r
    assume IH: "\<And>P fid it s r. loop P fid it s = Some r \<Longrightarrow> queue_inv s \<longrightarrow> queue_inv r"
      and body: "(case ri_Valid P (rf_ops (fm_fs (db_fm s))) it (db_buf s) of None \<Rightarrow> None
         | Some (valid, it, buf) \<Rightarrow>
             let s = s\<lparr>db_buf := buf\<rparr> in
             if \<not> valid then Some s
             else let offset = ri_GetOffset it; (next, it) = ri_Next it
               in case db_recover_entry fid \<lparr>ix_key = re_key next, ix_type = re_type next,
                         ix_offset = offset, ix_len = rec_sizeof next\<rparr> s of
                    None \<Rightarrow> None
                  | Some s \<Rightarrow> loop P fid it s) = Some r"
    show "queue_inv s \<longrightarrow> queue_inv r"
    proof
      assume q: "queue_inv s"
      from body obtain valid it1 buf where v: "ri_Valid P (rf_ops (fm_fs (db_fm s))) it (db_buf s) = Some (valid, it1, buf)"
        by (auto split: option.splits)
      obtain e it2 where n: "ri_Next it1 = (e, it2)" by fastforce
      show "queue_inv r"
      proof (cases valid)
        case False
        then show ?thesis using body q by (auto simp: v Let_def)
      next
        case True
        with body obtain s1 where "db_recover_entry fid \<lparr>ix_key = re_key e, ix_type = re_type e,
            ix_offset = ri_GetOffset it1, ix_len = rec_sizeof e\<rparr> (s\<lparr>db_buf := buf\<rparr>) = Some s1" and l: "loop P fid it2 s1 = Some r"
          by (auto simp: v n Let_def split: option.splits)
        then have "queue_inv s1" using db_recover_entry_inv [of "s\<lparr>db_buf := buf\<rparr>"] q by simp
        then show ?thesis using IH [OF l] by simp
      qed
    qed
  qed
  then show ?thesis using q by blast
qed

lemma db_recover_file_inv: "db_recover_file P io fid s = Some (st, s') \<Longrightarrow> queue_inv s \<Longrightarrow> queue_inv s'"
  by (auto simp: db_recover_file_def Let_def split: sum.splits option.splits prod.splits if_splits
      dest: db_recover_index_inv db_recover_data_inv)

lemma db_recover_files_inv: "db_recover_files P io fids s = Some (st, s') \<Longrightarrow> queue_inv s \<Longrightarrow> queue_inv s'"
proof (induction fids arbitrary: s)
  case (Cons fid fids)
  then obtain status s1 where s1: "db_recover_file P io fid (s\<lparr>db_max_file := max (db_max_file s) fid\<rparr>) = Some (status, s1)"
    "(if status \<noteq> kOk then Some (status, s1) else db_recover_files P io fids s1) = Some (st, s')"
    by (auto simp: Let_def split: option.splits)
  then show ?case using db_recover_file_inv [OF s1(1)] Cons.IH [of s1] Cons.prems(2) by (auto split: if_splits)
qed simp

lemma db_Open_inv:
  assumes "db_Open P cap io opts name buf fs = Some (st, Some s, fs')"
  shows "queue_inv s"
proof -
  from assms obtain s0 where s0: "db_new P opts name buf fs = Some s0" "db_Init P cap io s0 = Some (kOk, s)"
    by (auto simp: db_Open_def split: option.splits if_splits)
  have start: "queue_inv s0" using s0(1) by (intro queue_inv_start) (auto simp: db_new_def split: option.splits)
  have "\<exists>fm. s = s0\<lparr>db_fm := fm\<rparr> \<or> db_Recovery P io (s0\<lparr>db_fm := fm\<rparr>) = Some (kOk, s)"
    using s0(2) by (fastforce simp: db_Init_def Let_def split: option.splits prod.splits if_splits)
  then show ?thesis
  proof
    fix fm assume "s = s0\<lparr>db_fm := fm\<rparr> \<or> db_Recovery P io (s0\<lparr>db_fm := fm\<rparr>) = Some (kOk, s)"
    then show ?thesis using start db_recover_files_inv [of P io _ "s0\<lparr>db_fm := fm\<rparr>" kOk s]
      unfolding db_Recovery_def by auto
  qed
qed

section \<open>Polling and compaction\<close>

lemma foldl_set_scheduling:
  "db_compact_tasks (foldl (\<lambda>s fid. set_file_state fid (file_state_of s fid\<lparr>compact_state := kScheduling\<rparr>) s) s fids)
     = db_compact_tasks s"
  "compact_state (file_state_of
     (foldl (\<lambda>s fid. set_file_state fid (file_state_of s fid\<lparr>compact_state := kScheduling\<rparr>) s) s fids) fid)
     = (if fid \<in> set fids then kScheduling else compact_state (file_state_of s fid))"
  by (induction fids arbitrary: s) simp_all

lemma db_PollCompactTask_queue:
  assumes "queue_ok s" "db_PollCompactTask s = (tasks, s')"
  shows "tasks = db_compact_tasks s" "db_compact_tasks s' = []" "queue_ok s'"
    "fid \<in> set tasks \<Longrightarrow> compact_state (file_state_of s' fid) = kScheduling"
proof -
  let ?f = "\<lambda>s fid. set_file_state fid (file_state_of s fid\<lparr>compact_state := kScheduling\<rparr>) s"
  have s': "tasks = db_compact_tasks s" "s' = foldl ?f (s\<lparr>db_compact_tasks := []\<rparr>) (db_compact_tasks s)"
    using assms(2) by (auto simp: db_PollCompactTask_def Let_def)
  then show "tasks = db_compact_tasks s" "db_compact_tasks s' = []"
    "fid \<in> set tasks \<Longrightarrow> compact_state (file_state_of s' fid) = kScheduling"
    by (simp_all add: foldl_set_scheduling)
  then show "queue_ok s'"
    using assms(1) s'(2) unfolding queue_ok_def by (simp add: foldl_set_scheduling)
qed

lemma db_compact_update_queue [queue_simps]: "queue_same s (db_compact_update e loc s)"
  by (simp add: db_compact_update_def queue_same_def set_file_state_def file_state_of_def Let_def split: option.split)

lemma db_compact_loop_queue:
  fixes s :: "'b db"
  assumes "db_compact_loop P cap io fid it s = Some r"
  shows "queue_same s (snd r)"
proof (rule db_compact_loop.raw_induct [where Pa = "\<lambda>t r. queue_same (snd t) (snd r)", OF _ assms, simplified snd_conv])
  fix loop :: "'b pedrolib \<Rightarrow> nat \<Rightarrow> io \<Rightarrow> file_id \<Rightarrow> rfile record_iterator \<Rightarrow> 'b db \<Rightarrow> (bool \<times> 'b db) option"
    and P cap io fid it s r
  assume IH: "\<And>P cap io fid it s r. loop P cap io fid it s = Some r \<Longrightarrow> queue_same s (snd r)"
  assume body: "(case ri_Valid P (rf_ops (fm_fs (db_fm s))) it (db_buf s) of None \<Rightarrow> None
     | Some (valid, it, buf) \<Rightarrow>
         let s = s\<lparr>db_buf := buf\<rparr>
         in if \<not> valid then Some (True, s)
            else let offset = ri_GetOffset it; (next, it) = ri_Next it
              in if re_type next \<noteq> kSet then loop P cap io fid it s
                 else if \<not> db_compact_check fid offset next s then loop P cap io fid it s
                 else (case fm_Append P cap io next (db_fm s) of None \<Rightarrow> None
                   | Some (status, loc, fm) \<Rightarrow>
                       let s = s\<lparr>db_fm := fm\<rparr>
                       in if status \<noteq> kOk then Some (False, s)
                          else loop P cap io fid it (db_compact_update next loc s))) = Some r"
  then obtain valid it1 buf where v: "ri_Valid P (rf_ops (fm_fs (db_fm s))) it (db_buf s) = Some (valid, it1, buf)"
    by (auto split: option.splits)
  let ?s = "s\<lparr>db_buf := buf\<rparr>"
  obtain e it2 where n: "ri_Next it1 = (e, it2)" by fastforce
  have "(if \<not> valid then Some (True, ?s)
     else if re_type e \<noteq> kSet \<or> \<not> db_compact_check fid (ri_GetOffset it1) e ?s then loop P cap io fid it2 ?s
     else case fm_Append P cap io e (db_fm s) of None \<Rightarrow> None
       | Some (status, loc, fm) \<Rightarrow> if status \<noteq> kOk then Some (False, ?s\<lparr>db_fm := fm\<rparr>)
           else loop P cap io fid it2 (db_compact_update e loc (?s\<lparr>db_fm := fm\<rparr>))) = Some r"
    using body by (simp add: v n Let_def cong: option.case_cong if_cong split: if_splits)
  note body1 = this
  have buf: "queue_same s ?s" by (rule queue_same_updates)
  show "queue_same s (snd r)"
  proof (cases "\<not> valid \<or> re_type e \<noteq> kSet \<or> \<not> db_compact_check fid (ri_GetOffset it1) e ?s")
    case True
    then have "r = (True, ?s) \<or> loop P cap io fid it2 ?s = Some r" using body1 by (cases valid) auto
    then show ?thesis using buf queue_same_trans [OF buf IH] by (metis snd_conv)
  next
    case False
    with body1 obtain status loc fm where "fm_Append P cap io e (db_fm s) = Some (status, loc, fm)"
      by (cases "fm_Append P cap io e (db_fm s)") auto
    with body1 False have r: "r = (False, ?s\<lparr>db_fm := fm\<rparr>)
       \<or> loop P cap io fid it2 (db_compact_update e loc (?s\<lparr>db_fm := fm\<rparr>)) = Some r"
      by (cases "status = kOk") auto
    have fm: "queue_same s (?s\<lparr>db_fm := fm\<rparr>)" by (rule queue_same_trans [OF buf queue_same_updates(1)])
    from r show ?thesis
      using fm queue_same_trans [OF queue_same_trans [OF fm db_compact_update_queue] IH] by (metis snd_conv)
  qed
qed

text \<open>
  Compacting a file that does not wait keeps the queue, and the file is forgotten when the
  compaction has run to its end.
\<close>

lemma db_compact_file_queue:
  assumes q: "queue_ok s" and fid: "fid \<notin> set (db_compact_tasks s)"
    and c: "db_compact_file P cap io fid s = Some s'"
  shows "queue_ok s'" "db_compact_tasks s' = db_compact_tasks s"
proof -
  have not: "queue_ok t \<and> db_compact_tasks t = db_compact_tasks s"
    if "db_compact_tasks t = db_compact_tasks s"
      "\<And>x. x \<noteq> fid \<Longrightarrow> compact_state (file_state_of t x) = compact_state (file_state_of s x)"
      "compact_state (file_state_of t fid) \<noteq> kQueued" for t :: "'a db"
    using q fid that unfolding queue_ok_def by metis
  obtain stat f fm where a: "fm_AcquireDataFile P io fid (db_fm s) = (stat, f, fm)" by (metis prod_cases3)
  let ?s = "s\<lparr>db_fm := fm\<rparr>"
  let ?s1 = "set_file_state fid (file_state_of s fid\<lparr>compact_state := kCompacting\<rparr>) ?s"
  from c a consider "s' = s" | "s' = ?s"
    | h s2 where "db_compact_loop P cap io fid (ri_new (rf_ops (fm_fs fm)) h) ?s1 = Some (False, s2)" "s' = s2"
    | h s2 where "db_compact_loop P cap io fid (ri_new (rf_ops (fm_fs fm)) h) ?s1 = Some (True, s2)"
        "s' = s2\<lparr>db_file_states := (db_file_states s2)(fid := None), db_fm := snd (fm_RemoveFile P io fid (db_fm s2))\<rparr>"
    by (auto simp: db_compact_file_def Let_def split: if_splits option.splits bool.splits)
  then have "queue_ok s' \<and> db_compact_tasks s' = db_compact_tasks s"
  proof cases
    case 3
    from db_compact_loop_queue [OF this(1)] this(2) have "queue_same ?s1 s'" by simp
    then show ?thesis by (intro not) (simp_all add: queue_same_def)
  next
    case 4
    from db_compact_loop_queue [OF this(1)] have same: "queue_same ?s1 s2" by simp
    have "file_state_of s' x = (if x = fid then \<lparr>free_bytes = 0, compact_state = kNop\<rparr> else file_state_of s2 x)" for x
      using 4(2) by (simp add: file_state_of_def)
    then show ?thesis using 4(2) same by (intro not) (simp_all add: queue_same_def)
  qed (use q in simp_all)
  then show "queue_ok s'" "db_compact_tasks s' = db_compact_tasks s" by simp_all
qed

lemma db_compact_files_queue:
  "queue_ok s \<Longrightarrow> set fids \<inter> set (db_compact_tasks s) = {} \<Longrightarrow> db_compact_files P cap io fids s = Some s'
   \<Longrightarrow> queue_ok s' \<and> db_compact_tasks s' = db_compact_tasks s"
proof (induction fids arbitrary: s)
  case (Cons fid fids)
  then obtain s1 where s1: "db_compact_file P cap io fid s = Some s1" "db_compact_files P cap io fids s1 = Some s'"
    by (auto split: option.splits)
  from db_compact_file_queue [OF Cons.prems(1) _ s1(1)] Cons.prems(2) Cons.IH [OF _ _ s1(2)] show ?case by auto
qed simp

lemma db_Compact_queue:
  assumes "queue_ok s" "db_Compact P cap io s = Some (st, s')"
  shows "queue_ok s'" "db_compact_tasks s' = []"
proof -
  obtain tasks s1 where p: "db_PollCompactTask s = (tasks, s1)" by fastforce
  note q = db_PollCompactTask_queue [OF assms(1) p]
  have "db_compact_files P cap io (sort tasks) s1 = Some s'" using assms(2) p by (auto simp: db_Compact_def)
  from db_compact_files_queue [OF q(3) _ this] q(2) show "queue_ok s'" "db_compact_tasks s' = []" by simp_all
qed

end
