(* ===== verification/RecordScan.thy ===== *)
theory RecordScan
  imports FileManager
begin

text \<open>
  What the record iterator delivers when it is called again and again: \<open>ri_take\<close> collects the
  records and their offsets. A file whose records end before its last byte is delivered whole; a
  record that ends with the last byte of the file is not.
\<close>

section \<open>The records that are delivered\<close>

text \<open>The first \<open>n\<close> records that a record iterator delivers, with their offsets.\<close>

fun ri_take ::
    "'a pedrolib \<Rightarrow> 'f file_ops \<Rightarrow> nat \<Rightarrow> 'f record_iterator \<Rightarrow> 'a \<Rightarrow> (u32 \<times> rec_entry) list" where
  "ri_take P F 0 it buf = []"
| "ri_take P F (Suc n) it buf =
     (case ri_Valid P F it buf of
        Some (True, it, buf) \<Rightarrow>
          let off = ri_GetOffset it; (e, it) = ri_Next it in (off, e) # ri_take P F n it buf
      | _ \<Rightarrow> [])"

text \<open>The records of a log with their offsets.\<close>

fun log_entries :: "nat \<Rightarrow> rec_entry list \<Rightarrow> (u32 \<times> rec_entry) list" where
  "log_entries off [] = []"
| "log_entries off (e # es) = (of_nat off, e) # log_entries (off + rec_size e) es"

context readable_file begin

lemma ri_take_step:
  assumes P: "pedrolib_ok P" and f: "inv f" and log: "log_file P cap all (content f)"
    and size: "f_Size F f = cap" and all: "all = pre @ e # es"
    and it: "ri_at P F it buf (log_size pre)" "ri_file it = f" and before: "log_size pre + rec_size e < cap"
  shows "\<exists>it' buf'. ri_take P F (Suc n) it buf = (of_nat (log_size pre), e) # ri_take P F n it' buf'
     \<and> ri_at P F it' buf' (log_size (pre @ [e])) \<and> ri_file it' = f"
proof -
  have A: "codec_ok P" using P by simp
  have e: "rec_wf e" using log all by (simp add: log_file_def)
  have sl: "slice (content (ri_file it)) (log_size pre) (rec_size e) = rec_bytes P e"
    using log_file_split [OF A, of cap pre e es] log all it(2) by simp
  from ri_Valid_record [OF P _ it(1) e sl] f it(2) before size obtain it1 buf1 where
    v: "ri_Valid P F it buf = Some (True, it1, buf1)" "ri_entry it1 = e" "ri_file it1 = f"
      "ri_index it1 = log_size pre" "ri_read_index it1 = log_size pre + rec_size e" "ri_size it1 = ri_size it"
      "ab_bytes P buf1 = []" by auto
  have "ri_size it1 = f_Size F (ri_file it1)" using v it by (simp add: ri_at_def)
  from ri_Next_at [OF _ _ this v(7)] v(2-5) e
  have n: "ri_at P F (snd (ri_Next it1)) buf1 (log_size (pre @ [e]))"
    "ri_file (snd (ri_Next it1)) = f" "fst (ri_Next it1) = e"
    by simp_all
  then show ?thesis
    using v(1,4) by (intro exI [of _ "snd (ri_Next it1)"] exI [of _ buf1])
      (cases "ri_Next it1", simp add: ri_GetOffset_def)
qed

text \<open>What is delivered is in the log, at its offset; a record before the last byte is delivered.\<close>

lemma ri_take_log:
  assumes P: "pedrolib_ok P" and f: "inv f" and log: "log_file P cap all (content f)"
    and size: "f_Size F f = cap" and cap: "cap < 2 ^ 32"
  shows "all = pre @ es \<Longrightarrow> ri_at P F it buf (log_size pre) \<Longrightarrow> ri_file it = f \<Longrightarrow>
     (off, e) \<in> set (ri_take P F n it buf) \<Longrightarrow> log_at all (unat off) = Some e"
proof (induction n arbitrary: pre es it buf)
  case (Suc n)
  have A: "codec_ok P" using P by simp
  have inv: "inv (ri_file it)" using f Suc.prems(3) by simp
  show ?case
  proof (cases es)
    case Nil
    then have "drop (log_size pre) (content (ri_file it)) = replicate (cap - log_size all) 0"
      using log Suc.prems(1,3) P by (simp add: log_file_def)
    from ri_Valid_zeros [OF P inv Suc.prems(2) this] Suc.prems(4) show ?thesis by auto
  next
    case (Cons x xs)
    then have all: "all = pre @ x # xs" using Suc.prems(1) by simp
    have x: "rec_wf x" "log_size pre + rec_size x \<le> cap" using log all by (simp_all add: log_file_def)
    show ?thesis
    proof (cases "log_size pre + rec_size x = cap")
      case True
      have "slice (content (ri_file it)) (log_size pre) (rec_size x) = rec_bytes P x"
        using log_file_split [OF A, of cap pre x xs] log all Suc.prems(3) by simp
      from ri_Valid_at_end [OF P inv Suc.prems(2) x(1) this] True size Suc.prems(3,4) show ?thesis by auto
    next
      case False
      with x(2) have before: "log_size pre + rec_size x < cap" by simp
      from ri_take_step [OF P f log size all Suc.prems(2,3) this, of n] obtain it1 buf1 where
        s: "ri_take P F (Suc n) it buf = (of_nat (log_size pre), x) # ri_take P F n it1 buf1"
        "ri_at P F it1 buf1 (log_size (pre @ [x]))" "ri_file it1 = f" by blast
      have here: "log_at all (unat (of_nat (log_size pre) :: u32)) = Some x"
        using before cap rec_size_pos(1) [of x] all by (auto simp: log_at_split)
      show ?thesis using Suc.IH [OF _ s(2,3), of xs] Suc.prems(4) here all unfolding s(1) by auto
    qed
  qed
qed simp

lemma ri_take_delivers:
  assumes P: "pedrolib_ok P" and f: "inv f" and log: "log_file P cap all (content f)" and size: "f_Size F f = cap"
    and all: "all = pre @ e # es" and before: "log_size pre + rec_size e < cap"
  shows "pre = pre1 @ pre2 \<Longrightarrow> ri_at P F it buf (log_size pre1) \<Longrightarrow> ri_file it = f \<Longrightarrow>
     (of_nat (log_size pre), e) \<in> set (ri_take P F (Suc (length pre2)) it buf)"
proof (induction pre2 arbitrary: pre1 it buf)
  case Nil
  then show ?case using ri_take_step [OF P f log size all _ _ before, of it buf 0] by auto
next
  case (Cons x xs)
  have all': "all = pre1 @ x # xs @ e # es" using all Cons.prems(1) by simp
  have "log_size pre1 + rec_size x < cap" using before Cons.prems(1) by simp
  from ri_take_step [OF P f log size all' Cons.prems(2,3) this, of "Suc (length xs)"] obtain it1 buf1 where
    s: "ri_take P F (Suc (Suc (length xs))) it buf = (of_nat (log_size pre1), x) # ri_take P F (Suc (length xs)) it1 buf1"
    "ri_at P F it1 buf1 (log_size (pre1 @ [x]))" "ri_file it1 = f" by blast
  have "pre = (pre1 @ [x]) @ xs" using Cons.prems(1) by simp
  from Cons.IH [OF this s(2,3)] show ?case unfolding list.size(4) using s(1) by simp
qed

text \<open>All of them, in their order, except one that ends with the last byte of the file.\<close>

lemma ri_take_all:
  assumes P: "pedrolib_ok P" and f: "inv f" and log: "log_file P cap all (content f)" and size: "f_Size F f = cap"
  shows "all = pre @ es \<Longrightarrow> ri_at P F it buf (log_size pre) \<Longrightarrow> ri_file it = f \<Longrightarrow> length es \<le> n \<Longrightarrow>
     ri_take P F n it buf = log_entries (log_size pre) (if log_size all < cap then es else butlast es)"
proof (induction n arbitrary: pre es it buf)
  case (Suc n)
  have A: "codec_ok P" using P by simp
  have inv: "inv (ri_file it)" using f Suc.prems(3) by simp
  have le: "log_size all \<le> cap" using log by (simp add: log_file_def)
  show ?case
  proof (cases es)
    case Nil
    then have "drop (log_size pre) (content (ri_file it)) = replicate (cap - log_size all) 0"
      using log Suc.prems(1,3) P by (simp add: log_file_def)
    from ri_Valid_zeros [OF P inv Suc.prems(2) this] Nil show ?thesis by auto
  next
    case (Cons x xs)
    then have all: "all = pre @ x # xs" using Suc.prems(1) by simp
    have x: "rec_wf x" using log all by (simp add: log_file_def)
    show ?thesis
    proof (cases "log_size pre + rec_size x = cap")
      case True
      have "slice (content (ri_file it)) (log_size pre) (rec_size x) = rec_bytes P x"
        using log_file_split [OF A, of cap pre x xs] log all Suc.prems(3) by simp
      from ri_Valid_at_end [OF P inv Suc.prems(2) x this] True size Suc.prems(3)
      have "ri_take P F (Suc n) it buf = []" by auto
      moreover have "xs = []" using le True all by (cases xs) (auto, metis rec_size_pos(1) less_numeral_extra(3))
      ultimately show ?thesis using all True Cons by simp
    next
      case False
      then have "log_size pre + rec_size x < cap" using le all by simp
      from ri_take_step [OF P f log size all Suc.prems(2,3) this, of n] obtain it1 buf1 where
        s: "ri_take P F (Suc n) it buf = (of_nat (log_size pre), x) # ri_take P F n it1 buf1"
        "ri_at P F it1 buf1 (log_size (pre @ [x]))" "ri_file it1 = f" by blast
      have "ri_take P F n it1 buf1 = log_entries (log_size (pre @ [x])) (if log_size all < cap then xs else butlast xs)"
        using Suc.IH [OF _ s(2,3), of xs] all Suc.prems(4) Cons by simp
      moreover have "xs \<noteq> []" if "\<not> log_size all < cap" using that False le all by auto
      ultimately show ?thesis using s(1) Cons by simp
    qed
  qed
qed simp

end

section \<open>A data file from its start\<close>

text \<open>
  The record iterator on a data file delivers exactly the records of the file, in their order
  and with their offsets, and then stops, when the last record ends before the last byte of the
  file. When it ends with the last byte, the iterator misses it.
\<close>

lemma iterator_delivers_log:
  assumes "pedrolib_ok P" "rf_inv fs f" "log_file P cap es (fs_data fs (rf_ino f))" "14 < cap" "length es \<le> n"
  shows "ri_take P (rf_ops fs) n (ri_new (rf_ops fs) f) buf
     = log_entries 0 (if log_size es < cap then es else butlast es)"
proof -
  have size: "f_Size (rf_ops fs) f = cap"
    using rf.size_content [OF assms(2)] log_file_length [OF _ assms(3)] assms(1) by simp
  have "ri_at P (rf_ops fs) (ri_new (rf_ops fs) f) buf (log_size [])"
    using ri_at_new [of "rf_ops fs" f P buf] size assms(4) by simp
  from rf.ri_take_all [OF assms(1-3) size _ this _ assms(5)] show ?thesis by (simp add: ri_new_def)
qed

end
