(* ===== verification/Concurrency.thy ===== *)
theory Concurrency
  imports DBStore RecordScan
begin

text \<open>
  Puts, deletions and compactions of several threads. Each of these operations takes the locks of
  the database and of the file more than once, and other threads may run in between; the parts
  between are the steps of a transition relation on the state of the database and the program
  counters of the threads. \<open>conc_inv\<close> is what every interleaving keeps: the index leads to
  records of its keys, and all records were written by clients. The last section gives the
  interleavings that lose updates.
\<close>

section \<open>The records that a compaction reads\<close>

text \<open>Opening a file for compaction, and what is read from it.\<close>

lemma comp_reads:
  assumes P: "pedrolib_ok P" and ok: "db_ok P cap logs s" and io: "io_good io"
    and open_: "fm_AcquireDataFile P io fid (db_fm s) = (kOk, Some f, fm)"
    and e: "(off, e) \<in> set (ri_take P (rf_ops (fm_fs fm)) n (ri_new (rf_ops (fm_fs fm)) f) buf)"
  shows "db_ok P cap logs (s\<lparr>db_fm := fm\<rparr>)" "db_reads s (s\<lparr>db_fm := fm\<rparr>)"
    and "fid \<in> set (db_files s)" "log_at (logs fid) (unat off) = Some e"
proof -
  note k = db_okD [OF ok]
  have act: "fm_active_id (db_fm s) \<in> set (db_files s)" using active_files(4) [OF k(1)] by (simp add: db_files_def)
  show fid: "fid \<in> set (db_files s)"
  proof (rule ccontr)
    assume no: "fid \<notin> set (db_files s)"
    then have "fid \<noteq> fm_active_id (db_fm s)" using act by blast
    from fm_AcquireDataFile_missing [OF k(1) _ this, of io] no open_ show False by (auto simp: db_files_def)
  qed
  from fm_AcquireDataFile_ok [OF P k(1) io, of fid] fid open_ obtain c where f:
    "fm = (db_fm s)\<lparr>fm_open_files := c\<rparr>" "fm_ok P cap logs fm" "rf_inv (fm_fs fm) f"
    "log_file P cap (logs fid) (fs_data (fm_fs fm) (rf_ino f))" "f_Size (rf_ops (fm_fs fm)) f = cap"
    by (auto simp: db_files_def)
  have cap: "14 < cap" "cap < 2 ^ 32" using k(1) unfolding fm_ok_def disk_ok_def by blast+
  have at: "ri_at P (rf_ops (fm_fs fm)) (ri_new (rf_ops (fm_fs fm)) f) buf (log_size [])"
    using ri_at_new [of "rf_ops (fm_fs fm)" f P] f(5) cap by simp
  show "log_at (logs fid) (unat off) = Some e"
    by (rule rf.ri_take_log [OF P f(3,4,5) cap(2) _ at _ e, of "logs fid"]) (simp_all add: ri_new_def)
  have "s\<lparr>db_fm := fm\<rparr> = s\<lparr>db_fm := (db_fm s)\<lparr>fm_open_files := c\<rparr>, db_read_cache := db_read_cache s, db_buf := db_buf s\<rparr>"
    by (simp add: f(1))
  then show "db_ok P cap logs (s\<lparr>db_fm := fm\<rparr>)" "db_reads s (s\<lparr>db_fm := fm\<rparr>)"
    using db_ok_reads [OF ok _ k(4), of c "db_buf s"] f(1,2) unfolding db_reads_def by (simp, blast)
qed

lemma comp_reads_all:
  assumes P: "pedrolib_ok P" and ok: "db_ok P cap logs s" and io: "io_good io" and fid: "fid \<in> set (db_files s)"
    and e: "log_at (logs fid) (unat off) = Some e" "unat off + rec_size e < cap"
  shows "\<exists>f fm n. fm_AcquireDataFile P io fid (db_fm s) = (kOk, Some f, fm)
     \<and> (off, e) \<in> set (ri_take P (rf_ops (fm_fs fm)) n (ri_new (rf_ops (fm_fs fm)) f) buf)"
proof -
  note k = db_okD [OF ok]
  from fm_AcquireDataFile_ok [OF P k(1) io, of fid] fid obtain f c where f:
    "fm_AcquireDataFile P io fid (db_fm s) = (kOk, Some f, (db_fm s)\<lparr>fm_open_files := c\<rparr>)"
    "rf_inv (fm_fs (db_fm s)) f" "log_file P cap (logs fid) (fs_data (fm_fs (db_fm s)) (rf_ino f))"
    "f_Size (rf_ops (fm_fs (db_fm s))) f = cap" by (auto simp: db_files_def)
  have cap: "14 < cap" using k(1) unfolding fm_ok_def disk_ok_def by blast
  from e(1) obtain pre post where log: "logs fid = pre @ e # post" "log_size pre = unat off"
    unfolding log_at_split by blast
  let ?F = "rf_ops (fm_fs (db_fm s))"
  have at: "ri_at P ?F (ri_new ?F f) buf (log_size [])" using ri_at_new [of ?F f P] f(4) cap by simp
  have "log_size pre + rec_size e < cap" using e(2) log(2) by simp
  from rf.ri_take_delivers [OF P f(2-4) log(1) this _ at, of pre] have
    "(of_nat (log_size pre), e) \<in> set (ri_take P ?F (Suc (length pre)) (ri_new ?F f) buf)"
    by (simp add: ri_new_def)
  then have "(off, e) \<in> set (ri_take P ?F (Suc (length pre)) (ri_new ?F f) buf)"
    unfolding log(2) by simp
  then show ?thesis using f(1)
    by (intro exI [of _ f] exI [of _ "(db_fm s)\<lparr>fm_open_files := c\<rparr>"] exI [of _ "Suc (length pre)"]) simp
qed

section \<open>The steps\<close>

text \<open>
  Where a thread is. A put has passed the guards, or appended its record at a location; a
  compaction holds a record that it has read at an offset of a file, has found that the index
  leads to it, or has appended it again.
\<close>

datatype pc =
    Idle
  | PutAppend bytes bytes
  | PutIndex bytes bytes rec_entry location
  | CompCheck file_id u32 rec_entry
  | CompAppend rec_entry
  | CompUpdate rec_entry location

record 'a conc =
  cc_db :: "'a db"
  cc_pc :: "nat \<Rightarrow> pc"

definition cc_goto :: "nat \<Rightarrow> pc \<Rightarrow> 'a db \<Rightarrow> 'a conc \<Rightarrow> 'a conc" where
  "cc_goto t pc s c = c\<lparr>cc_db := s, cc_pc := (cc_pc c)(t := pc)\<rparr>"

lemma cc_goto_simps [simp]:
  "cc_db (cc_goto t pc s c) = s" "cc_pc (cc_goto t pc s c) = (cc_pc c)(t := pc)"
  by (simp_all add: cc_goto_def)

text \<open>
  \<open>client\<close> says which puts the clients issue. A put or a compaction whose append fails
  returns. The file numbers are not used up. A compaction is followed here up to its last update of
  the index; the removal of its file is a step of \<open>ConcCompact\<close>.
\<close>

inductive conc_step ::
    "'a pedrolib \<Rightarrow> nat \<Rightarrow> io \<Rightarrow> (bytes \<Rightarrow> bytes \<Rightarrow> bool) \<Rightarrow> 'a conc \<Rightarrow> 'a conc \<Rightarrow> bool"
  for P cap io client where
  put_begin: "cc_pc c t = Idle \<Longrightarrow> client key val \<Longrightarrow> \<not> db_readonly (cc_db c) \<Longrightarrow>
     unat (rec_sizeof (db_entry P (cc_db c) key val)) \<le> cap \<Longrightarrow>
     conc_step P cap io client c (cc_goto t (PutAppend key val) (cc_db c) c)"
| put_append: "cc_pc c t = PutAppend key val \<Longrightarrow> e = db_entry P (cc_db c) key val \<Longrightarrow>
     db_active (cc_db c) \<noteq> -1 \<Longrightarrow> fm_Append P cap io e (db_fm (cc_db c)) = Some (kOk, loc, fm) \<Longrightarrow>
     conc_step P cap io client c (cc_goto t (PutIndex key val e loc) ((cc_db c)\<lparr>db_fm := fm\<rparr>) c)"
| put_fail: "cc_pc c t = PutAppend key val \<Longrightarrow> db_active (cc_db c) \<noteq> -1 \<Longrightarrow>
     fm_Append P cap io (db_entry P (cc_db c) key val) (db_fm (cc_db c)) = Some (st, loc, fm) \<Longrightarrow> st \<noteq> kOk \<Longrightarrow>
     conc_step P cap io client c (cc_goto t Idle ((cc_db c)\<lparr>db_fm := fm\<rparr>) c)"
| put_index: "cc_pc c t = PutIndex key val e loc \<Longrightarrow> db_put_index key val e loc (cc_db c) = (st, s) \<Longrightarrow>
     conc_step P cap io client c (cc_goto t Idle s c)"
| comp_read: "cc_pc c t = Idle \<Longrightarrow> fm_AcquireDataFile P io fid (db_fm (cc_db c)) = (kOk, Some f, fm) \<Longrightarrow>
     (off, e) \<in> set (ri_take P (rf_ops (fm_fs fm)) n (ri_new (rf_ops (fm_fs fm)) f) buf) \<Longrightarrow> re_type e = kSet \<Longrightarrow>
     conc_step P cap io client c (cc_goto t (CompCheck fid off e) ((cc_db c)\<lparr>db_fm := fm\<rparr>) c)"
| comp_check: "cc_pc c t = CompCheck fid off e \<Longrightarrow>
     conc_step P cap io client c
       (cc_goto t (if db_compact_check fid off e (cc_db c) then CompAppend e else Idle) (cc_db c) c)"
| comp_append: "cc_pc c t = CompAppend e \<Longrightarrow> db_active (cc_db c) \<noteq> -1 \<Longrightarrow>
     fm_Append P cap io e (db_fm (cc_db c)) = Some (kOk, loc, fm) \<Longrightarrow>
     conc_step P cap io client c (cc_goto t (CompUpdate e loc) ((cc_db c)\<lparr>db_fm := fm\<rparr>) c)"
| comp_fail: "cc_pc c t = CompAppend e \<Longrightarrow> db_active (cc_db c) \<noteq> -1 \<Longrightarrow>
     fm_Append P cap io e (db_fm (cc_db c)) = Some (st, loc, fm) \<Longrightarrow> st \<noteq> kOk \<Longrightarrow>
     conc_step P cap io client c (cc_goto t Idle ((cc_db c)\<lparr>db_fm := fm\<rparr>) c)"
| comp_update: "cc_pc c t = CompUpdate e loc \<Longrightarrow>
     conc_step P cap io client c (cc_goto t Idle (db_compact_update e loc (cc_db c)) c)"

inductive_cases conc_stepE: "conc_step P cap io client c c'"

abbreviation conc_steps where
  "conc_steps P cap io client \<equiv> (conc_step P cap io client)\<^sup>*\<^sup>*"

section \<open>What every interleaving keeps\<close>

definition record_at :: "(file_id \<Rightarrow> rec_entry list) \<Rightarrow> 'a db \<Rightarrow> location \<Rightarrow> rec_entry \<Rightarrow> bool" where
  "record_at logs s loc e \<longleftrightarrow> loc_id loc \<in> set (db_files s)
     \<and> log_at (logs (loc_id loc)) (unat (loc_offset loc)) = Some e"

text \<open>Every set record of the files is one that \<open>A\<close> allows.\<close>

definition records_from ::
    "'a pedrolib \<Rightarrow> (bytes \<Rightarrow> bytes \<Rightarrow> bool) \<Rightarrow> (file_id \<Rightarrow> rec_entry list) \<Rightarrow> 'a db \<Rightarrow> bool" where
  "records_from P A logs s \<longleftrightarrow> (\<forall>fid \<in> set (db_files s). \<forall>e \<in> set (logs fid).
     re_type e = kSet \<longrightarrow> A (re_key e) (db_value P s e))"

definition pc_ok ::
    "'a pedrolib \<Rightarrow> nat \<Rightarrow> (bytes \<Rightarrow> bytes \<Rightarrow> bool) \<Rightarrow> (file_id \<Rightarrow> rec_entry list) \<Rightarrow> 'a db \<Rightarrow> pc \<Rightarrow> bool" where
  "pc_ok P cap A logs s pc = (case pc of
       Idle \<Rightarrow> True
     | PutAppend key val \<Rightarrow> db_fits P cap s key val \<and> (val \<noteq> [] \<longrightarrow> A key val)
     | PutIndex key val e loc \<Rightarrow> re_key e = key \<and> re_type e = (if val = [] then kDelete else kSet)
         \<and> db_value P s e = val \<and> record_at logs s loc e
     | CompCheck fid off e \<Rightarrow> re_type e = kSet \<and> record_at logs s (Location fid off) e
     | CompAppend e \<Rightarrow> re_type e = kSet \<and> rec_wf e \<and> rec_size e \<le> cap \<and> rec_validate P e \<and> A (re_key e) (db_value P s e)
     | CompUpdate e loc \<Rightarrow> re_type e = kSet \<and> record_at logs s loc e)"

definition conc_inv ::
    "'a pedrolib \<Rightarrow> nat \<Rightarrow> (bytes \<Rightarrow> bytes \<Rightarrow> bool) \<Rightarrow> (file_id \<Rightarrow> rec_entry list) \<Rightarrow> 'a conc \<Rightarrow> bool" where
  "conc_inv P cap A logs c \<longleftrightarrow> db_ok P cap logs (cc_db c) \<and> records_from P A logs (cc_db c)
     \<and> (\<forall>t. pc_ok P cap A logs (cc_db c) (cc_pc c t))"

lemma pc_ok_mono:
  assumes "pc_ok P cap A logs s pc" "db_options s' = db_options s"
    and "\<And>loc e. record_at logs s loc e \<Longrightarrow> record_at logs' s' loc e"
  shows "pc_ok P cap A logs' s' pc"
proof -
  have "db_fits P cap s' key val = db_fits P cap s key val" for key val
    using assms(2) by (simp add: db_fits_small)
  then show ?thesis using assms db_value_cong [OF assms(2), of P] by (auto simp: pc_ok_def split: pc.splits)
qed

lemma conc_inv_goto:
  assumes inv: "conc_inv P cap A logs c" and s: "db_ok P cap logs' s" "records_from P A logs' s"
    and opt: "db_options s = db_options (cc_db c)"
    and mono: "\<And>loc e. record_at logs (cc_db c) loc e \<Longrightarrow> record_at logs' s loc e"
    and pc: "pc_ok P cap A logs' s pc"
  shows "conc_inv P cap A logs' (cc_goto t pc s c)"
proof -
  have "pc_ok P cap A logs' s (cc_pc c u)" for u
    by (rule pc_ok_mono [OF _ opt mono]) (use inv in \<open>simp_all add: conc_inv_def\<close>)
  then show ?thesis using s pc by (simp add: conc_inv_def)
qed

text \<open>What a step of any thread leaves alone: all that the other threads rely on.\<close>

definition conc_keeps ::
    "'a pedrolib \<Rightarrow> (file_id \<Rightarrow> rec_entry list) \<Rightarrow> 'a db \<Rightarrow> (file_id \<Rightarrow> rec_entry list) \<Rightarrow> 'a db \<Rightarrow> bool" where
  "conc_keeps P logs s logs' s' \<longleftrightarrow> links_kept P (db_fm s) (db_fm s')
     \<and> db_active s \<le> db_active s' \<and> unat (db_active s') \<le> Suc (unat (db_active s))
     \<and> set (db_files s) \<subseteq> set (db_files s') \<and> (\<forall>fid \<in> set (db_files s'). fid \<in> set (db_files s) \<or> db_active s < fid)
     \<and> (\<forall>fid. fid < db_active s \<longrightarrow> logs' fid = logs fid)
     \<and> (\<forall>loc e. record_at logs s loc e \<longrightarrow> record_at logs' s' loc e)
     \<and> db_options s' = db_options s \<and> db_readonly s' = db_readonly s \<and> db_buf s' = db_buf s"

lemma conc_keeps_same:
  assumes "fm_fs (db_fm s') = fm_fs (db_fm s)" "fm_meta (db_fm s') = fm_meta (db_fm s)"
    "fm_active_id (db_fm s') = fm_active_id (db_fm s)"
    "db_options s' = db_options s" "db_readonly s' = db_readonly s" "db_buf s' = db_buf s"
  shows "conc_keeps P logs s logs s'"
  using assms by (simp add: conc_keeps_def links_kept_def record_at_def db_files_def db_active_def)

text \<open>The step that appends a record, for a put or a compaction.\<close>

lemma conc_append:
  assumes P: "pedrolib_ok P" and io: "io_good io" and ok: "db_ok P cap logs s" and src: "records_from P A logs s"
    and e: "rec_wf e" "rec_size e \<le> cap" "rec_validate P e" "re_type e = kSet \<longrightarrow> A (re_key e) (db_value P s e)"
    and more: "db_active s \<noteq> -1" and app: "fm_Append P cap io e (db_fm s) = Some (kOk, loc, fm)"
  shows "\<exists>logs'. db_ok P cap logs' (s\<lparr>db_fm := fm\<rparr>) \<and> records_from P A logs' (s\<lparr>db_fm := fm\<rparr>)
     \<and> record_at logs' (s\<lparr>db_fm := fm\<rparr>) loc e
     \<and> (\<forall>loc' e'. record_at logs s loc' e' \<longrightarrow> record_at logs' (s\<lparr>db_fm := fm\<rparr>) loc' e' \<and> loc' < loc)
     \<and> appended cap logs (db_fm s) e loc logs' fm \<and> conc_keeps P logs s logs' (s\<lparr>db_fm := fm\<rparr>)"
proof -
  note k = db_okD [OF ok]
  let ?s = "s\<lparr>db_fm := fm\<rparr>"
  from fm_Append_ok [OF P k(1) e(1) io e(2)] more app obtain logs' where a: "fm_ok P cap logs' fm"
    "appended cap logs (db_fm s) e loc logs' fm" "links_kept P (db_fm s) fm"
    "unat (fm_active_id fm) \<le> Suc (unat (fm_active_id (db_fm s)))" by (auto simp: db_active_def)
  note f = appended_facts [OF k(1) a(2)]
  have "index_ok logs' (db_files ?s) (db_indices ?s)"
    using index_ok_appended(1) [OF k(1) a(2)] k(2) by (simp add: db_files_def)
  moreover have "records_valid P logs' (db_files ?s)"
    using records_valid_appended [OF k(1) a(2) _ e(3)] k(3) by (simp add: db_files_def)
  moreover have "rc_cache_ok P (fm_holds P (db_fm ?s)) (\<lambda>fid. fid < db_active ?s) (db_read_cache ?s)"
    using rc_cache_ok_appended [OF k(1) a(1,2)] k(4) by (simp add: db_active_def)
  ultimately have "db_ok P cap logs' ?s"
    using a(1) k(5,6) f(3) by (simp add: db_ok_def db_active_def)
  moreover have "db_value P ?s = db_value P s" by (rule db_value_cong) simp
  then have "records_from P A logs' ?s"
    using src e(4) f(8) unfolding records_from_def by (auto simp: db_files_def)
  moreover have "record_at logs' ?s loc e" using f(1,2,4) by (simp add: record_at_def db_files_def)
  moreover have mono: "record_at logs' ?s loc' e' \<and> loc' < loc" if "record_at logs s loc' e'" for loc' e'
  proof -
    have l: "loc_id loc' \<in> set (mm_files (fm_meta (db_fm s)))"
      "log_at (logs (loc_id loc')) (unat (loc_offset loc')) = Some e'"
      using that by (simp_all add: record_at_def db_files_def)
    have "loc' < loc" using f(9) [OF l] by simp
    then show ?thesis using l f(4,5) by (simp add: record_at_def db_files_def)
  qed
  moreover have "conc_keeps P logs s logs' ?s"
    using a(3,4) f(3,4,6) mono active_files(4) [OF k(1)]
    by (auto simp: conc_keeps_def db_active_def db_files_def order.order_iff_strict)
  ultimately show ?thesis using a(2) by blast
qed

text \<open>A step that only changes the index.\<close>

lemma conc_index:
  assumes ok: "db_ok P cap logs s" and s': "db_fm s' = db_fm s" "db_read_cache s' = db_read_cache s"
    and max: "db_max_file s' \<le> db_active s"
    and idx: "\<And>k d. db_indices s' k = Some d \<Longrightarrow> db_indices s k = Some d \<or>
      (\<exists>e. record_at logs s (dir_loc d) e \<and> re_type e = kSet \<and> re_key e = k \<and> dir_entry_size d = rec_sizeof e)"
  shows "db_ok P cap logs s'"
proof -
  note k = db_okD [OF ok]
  have same: "db_files s' = db_files s" "db_active s' = db_active s" using s' by (simp_all add: db_files_def db_active_def)
  have "dir_ok logs (db_files s) key d" if "db_indices s' key = Some d" for key d
    using idx [OF that] k(2) unfolding index_ok_def dir_ok_def record_at_def by metis
  then show ?thesis using k max s' same by (simp add: db_ok_def index_ok_def)
qed

lemma db_compact_update_simps:
  "db_fm (db_compact_update e loc s) = db_fm s" "db_read_cache (db_compact_update e loc s) = db_read_cache s"
  "db_max_file (db_compact_update e loc s) = db_max_file s" "db_options (db_compact_update e loc s) = db_options s"
  "db_indices (db_compact_update e loc s) = (case db_indices s (re_key e) of None \<Rightarrow> db_indices s
     | Some d \<Rightarrow> if dir_loc d < loc then (db_indices s)(re_key e \<mapsto> \<lparr>dir_entry_size = rec_sizeof e, dir_loc = loc\<rparr>)
         else db_indices s)"
  "db_readonly (db_compact_update e loc s) = db_readonly s" "db_buf (db_compact_update e loc s) = db_buf s"
  by (simp_all add: db_compact_update_def Let_def split: option.split)

lemma record_at_same: "db_fm s' = db_fm s \<Longrightarrow> record_at logs s' = record_at logs s"
  by (simp add: record_at_def [abs_def] db_files_def)

lemma records_from_same:
  "db_fm s' = db_fm s \<Longrightarrow> db_options s' = db_options s \<Longrightarrow> records_from P A logs s' = records_from P A logs s"
  using db_value_cong [of s' s P] by (simp add: records_from_def db_files_def)

text \<open>The steps that change the index, and a record that is found in the files.\<close>

lemma conc_put_index:
  assumes ok: "db_ok P cap logs s" and e: "re_key e = key" "re_type e = (if val = [] then kDelete else kSet)"
    and at: "record_at logs s loc e" and r: "db_put_index key val e loc s = (st, s')"
  shows "db_ok P cap logs s'"
proof -
  note k = db_okD [OF ok] and p = db_put_index_ok [OF e r]
  have "loc_id loc \<le> db_active s"
    using active_files(3) [OF k(1)] at by (simp add: record_at_def db_files_def db_active_def)
  then have max: "db_max_file s' \<le> db_active s" using p(3) k(5) by simp
  show ?thesis
    by (rule conc_index [OF ok p(4,6) max]) (use p(2) e at in \<open>auto simp: replay_entry_def split: if_splits\<close>)
qed

lemma conc_compact_update:
  assumes ok: "db_ok P cap logs s" and e: "re_type e = kSet" "record_at logs s loc e"
  shows "db_ok P cap logs (db_compact_update e loc s)"
proof -
  note u = db_compact_update_simps [of e loc s]
  show ?thesis
    by (rule conc_index [OF ok u(1,2)])
      (use u(3,5) db_okD(5) [OF ok] e in \<open>auto split: option.splits if_splits\<close>)
qed

lemma record_at_wf:
  assumes ok: "db_ok P cap logs s" and at: "record_at logs s loc e"
  shows "rec_wf e" "rec_size e \<le> cap" "rec_validate P e" "e \<in> set (logs (loc_id loc))" "loc_id loc \<in> set (db_files s)"
proof -
  note k = db_okD [OF ok]
  show here: "loc_id loc \<in> set (db_files s)" "e \<in> set (logs (loc_id loc))"
    using at log_at_in by (auto simp: record_at_def)
  then show "rec_wf e" "rec_size e \<le> cap" "rec_validate P e"
    using appended_log_bound(1,3) [OF k(1)] at log_at_bound [of "logs (loc_id loc)" "unat (loc_offset loc)" e] k(3)
    by (auto simp: record_at_def db_files_def records_valid_def) (meson le_trans add_leD2)
qed

lemma conc_append_ex:
  assumes P: "pedrolib_ok P" and io: "io_good io" and ok: "db_ok P cap logs s"
    and e: "rec_wf e" "rec_size e \<le> cap" "rec_validate P e" and more: "db_active s \<noteq> -1"
  obtains loc fm logs' where "fm_Append P cap io e (db_fm s) = Some (kOk, loc, fm)" "db_ok P cap logs' (s\<lparr>db_fm := fm\<rparr>)"
    "record_at logs' (s\<lparr>db_fm := fm\<rparr>) loc e"
    "\<And>loc' x. record_at logs s loc' x \<Longrightarrow> record_at logs' (s\<lparr>db_fm := fm\<rparr>) loc' x \<and> loc' < loc"
    "unat (fm_active_id fm) \<le> Suc (unat (db_active s))"
    "\<And>m. replay logs' (mm_files (fm_meta fm)) m = replay_entry loc e (replay logs (db_files s) m)"
proof -
  note k = db_okD(1) [OF ok]
  from fm_Append_ok [OF P k e(1) io e(2)] more obtain loc fm logs1 where a:
    "fm_Append P cap io e (db_fm s) = Some (kOk, loc, fm)" "unat (fm_active_id fm) \<le> Suc (unat (db_active s))"
    by (auto simp: db_active_def)
  have src: "records_from P (\<lambda>_ _. True) logs s" by (simp add: records_from_def)
  from conc_append [OF P io ok src e _ more a(1)] obtain logs' where l:
    "db_ok P cap logs' (s\<lparr>db_fm := fm\<rparr>)" "record_at logs' (s\<lparr>db_fm := fm\<rparr>) loc e"
    "\<And>loc' x. record_at logs s loc' x \<Longrightarrow> record_at logs' (s\<lparr>db_fm := fm\<rparr>) loc' x \<and> loc' < loc"
    "appended cap logs (db_fm s) e loc logs' fm" by blast
  show thesis
    by (rule that [OF a(1) l(1-3) a(2)]) (use appended_facts(10) [OF k l(4)] in \<open>simp_all add: db_files_def\<close>)
qed

text \<open>As long as the system calls work, no append of a thread fails.\<close>

lemma conc_append_kOk:
  assumes P: "pedrolib_ok P" and io: "io_good io" and inv: "conc_inv P cap A logs c" and more: "db_active (cc_db c) \<noteq> -1"
    and pc: "cc_pc c t = PutAppend key val \<and> e = db_entry P (cc_db c) key val \<or> cc_pc c t = CompAppend e"
    and app: "fm_Append P cap io e (db_fm (cc_db c)) = Some (st, loc, fm)"
  shows "st = kOk"
proof -
  have ok: "db_ok P cap logs (cc_db c)" and pcs: "pc_ok P cap A logs (cc_db c) (cc_pc c t)"
    using inv by (simp_all add: conc_inv_def)
  have cap: "cap < 2 ^ 32"
    using appended_log_bound(2) [OF db_okD(1) [OF ok]] active_files(4) [OF db_okD(1) [OF ok]] by blast
  have e: "rec_wf e" "rec_size e \<le> cap" "rec_validate P e"
    using pc pcs db_fits_wf [OF _ cap, of P "cc_db c" key val] by (auto simp: pc_ok_def db_fits_def)
  obtain loc' fm' where "fm_Append P cap io e (db_fm (cc_db c)) = Some (kOk, loc', fm')"
    by (rule conc_append_ex [OF P io ok e more]) (rule that)
  then show ?thesis using app by simp
qed

lemma conc_step_inv:
  assumes P: "pedrolib_ok P" and io: "io_good io" and inv: "conc_inv P cap A logs c"
    and small: "\<And>key val. client key val \<Longrightarrow> length key < 256 \<and> length val < 2 ^ 31
       \<and> length (snappy_compress P val) < 2 ^ 31 \<and> (val \<noteq> [] \<longrightarrow> A key val)"
    and step: "conc_step P cap io client c c'"
  shows "\<exists>logs'. conc_inv P cap A logs' c' \<and> conc_keeps P logs (cc_db c) logs' (cc_db c')"
proof -
  let ?s = "cc_db c"
  have ok: "db_ok P cap logs ?s" and src: "records_from P A logs ?s"
    and pcs: "\<And>t. pc_ok P cap A logs ?s (cc_pc c t)" using inv by (simp_all add: conc_inv_def)
  note k = db_okD [OF ok]
  have cap: "cap < 2 ^ 32" using appended_log_bound(2) [OF k(1)] active_files(4) [OF k(1)] by blast
  from step show ?thesis
  proof (cases rule: conc_step.cases)
    case (put_begin t key val)
    from small [OF put_begin(3)] have "length key < 256" "val \<noteq> [] \<longrightarrow> A key val"
      and "rec_size (db_entry P ?s key val) < 2 ^ 32" by (auto simp: rec_size_def db_entry_def Let_def)
    then have "pc_ok P cap A logs ?s (PutAppend key val)" using put_begin(5) by (simp add: pc_ok_def db_fits_def)
    from conc_inv_goto [OF inv ok src refl _ this, of t] put_begin conc_keeps_same [of ?s ?s P logs] show ?thesis by auto
  next
    case (put_append t key val e loc fm)
    have fits: "db_fits P cap ?s key val" "val \<noteq> [] \<longrightarrow> A key val" using pcs [of t] put_append by (simp_all add: pc_ok_def)
    have val: "db_value P ?s e = val" using db_value_entry [OF P refl] put_append by simp
    with fits put_append have e: "rec_wf e" "rec_size e \<le> cap" "rec_validate P e"
      "re_type e = kSet \<longrightarrow> A (re_key e) (db_value P ?s e)"
      using db_fits_wf [OF fits(1) cap] by (auto simp: db_fits_def)
    from conc_append [OF P io ok src e] put_append obtain logs' where l:
      "db_ok P cap logs' (?s\<lparr>db_fm := fm\<rparr>)" "records_from P A logs' (?s\<lparr>db_fm := fm\<rparr>)"
      "record_at logs' (?s\<lparr>db_fm := fm\<rparr>) loc e"
      "\<And>loc' e'. record_at logs ?s loc' e' \<Longrightarrow> record_at logs' (?s\<lparr>db_fm := fm\<rparr>) loc' e'"
      "conc_keeps P logs ?s logs' (?s\<lparr>db_fm := fm\<rparr>)" by blast
    have "pc_ok P cap A logs' (?s\<lparr>db_fm := fm\<rparr>) (PutIndex key val e loc)"
      using l(3) put_append val db_value_cong [of "?s\<lparr>db_fm := fm\<rparr>" ?s P] by (simp add: pc_ok_def)
    from conc_inv_goto [OF inv l(1,2) _ l(4) this] l(5) put_append show ?thesis by auto
  next
    case (put_fail t key val st loc fm)
    then show ?thesis using conc_append_kOk [OF P io inv put_fail(3) _ put_fail(4)] by blast
  next
    case (put_index t key val e loc st s)
    have e: "re_key e = key" "re_type e = (if val = [] then kDelete else kSet)" "record_at logs ?s loc e"
      using pcs [of t] put_index by (simp_all add: pc_ok_def)
    note p = db_put_index_ok [OF e(1,2) put_index(3)]
    have "db_ok P cap logs s" by (rule conc_put_index [OF ok e put_index(3)])
    moreover have "records_from P A logs s" using src records_from_same [OF p(4,5)] by simp
    ultimately have "conc_inv P cap A logs (cc_goto t Idle s c)"
      using conc_inv_goto [OF inv, of logs s Idle t] p(5) record_at_same [OF p(4)] by (simp add: pc_ok_def)
    moreover have "conc_keeps P logs ?s logs s" by (rule conc_keeps_same) (use p(4,5,7,9) in simp_all)
    ultimately show ?thesis using put_index by auto
  next
    case (comp_read t fid f fm off e n buf)
    note r = comp_reads [OF P ok io comp_read(3,4)]
    have same: "record_at logs (?s\<lparr>db_fm := fm\<rparr>) = record_at logs ?s"
      using db_reads_same(5) [OF r(2)] by (simp add: record_at_def [abs_def])
    have "records_from P A logs (?s\<lparr>db_fm := fm\<rparr>)"
      using src db_reads_same(5) [OF r(2)] db_value_cong [of "?s\<lparr>db_fm := fm\<rparr>" ?s P] by (simp add: records_from_def)
    moreover have "pc_ok P cap A logs (?s\<lparr>db_fm := fm\<rparr>) (CompCheck fid off e)"
      using r(3,4) comp_read(5) unfolding pc_ok_def pc.case same by (simp add: record_at_def)
    ultimately have "conc_inv P cap A logs (cc_goto t (CompCheck fid off e) (?s\<lparr>db_fm := fm\<rparr>) c)"
      using conc_inv_goto [OF inv r(1), of _ t] same by simp
    moreover have "conc_keeps P logs ?s logs (?s\<lparr>db_fm := fm\<rparr>)"
      by (rule conc_keeps_same) (use db_reads_same [OF r(2)] in \<open>simp_all add: db_active_def\<close>)
    ultimately show ?thesis using comp_read by auto
  next
    case (comp_check t fid off e)
    have e: "re_type e = kSet" "record_at logs ?s (Location fid off) e"
      using pcs [of t] comp_check by (simp_all add: pc_ok_def)
    note w = record_at_wf [OF ok e(2)]
    have "A (re_key e) (db_value P ?s e)" using src w(4,5) e(1) by (simp add: records_from_def)
    then have "pc_ok P cap A logs ?s (if db_compact_check fid off e ?s then CompAppend e else Idle)"
      using e(1) w by (simp add: pc_ok_def)
    from conc_inv_goto [OF inv ok src refl _ this, of t] comp_check conc_keeps_same [of ?s ?s P logs] show ?thesis by auto
  next
    case (comp_append t e loc fm)
    have e: "re_type e = kSet" "rec_wf e" "rec_size e \<le> cap" "rec_validate P e" "A (re_key e) (db_value P ?s e)"
      using pcs [of t] comp_append by (simp_all add: pc_ok_def)
    from conc_append [OF P io ok src e(2-4) _ comp_append(3,4)] e(5) obtain logs' where l:
      "db_ok P cap logs' (?s\<lparr>db_fm := fm\<rparr>)" "records_from P A logs' (?s\<lparr>db_fm := fm\<rparr>)"
      "record_at logs' (?s\<lparr>db_fm := fm\<rparr>) loc e"
      "\<And>loc' e'. record_at logs ?s loc' e' \<Longrightarrow> record_at logs' (?s\<lparr>db_fm := fm\<rparr>) loc' e'"
      "conc_keeps P logs ?s logs' (?s\<lparr>db_fm := fm\<rparr>)" by blast
    have "pc_ok P cap A logs' (?s\<lparr>db_fm := fm\<rparr>) (CompUpdate e loc)" using l(3) e(1) by (simp add: pc_ok_def)
    from conc_inv_goto [OF inv l(1,2) _ l(4) this] l(5) comp_append show ?thesis by auto
  next
    case (comp_fail t e st loc fm)
    then show ?thesis using conc_append_kOk [OF P io inv comp_fail(3) _ comp_fail(4)] by blast
  next
    case (comp_update t e loc)
    have e: "re_type e = kSet" "record_at logs ?s loc e" using pcs [of t] comp_update by (simp_all add: pc_ok_def)
    note u = db_compact_update_simps [of e loc ?s]
    have "db_ok P cap logs (db_compact_update e loc ?s)" by (rule conc_compact_update [OF ok e])
    moreover have "records_from P A logs (db_compact_update e loc ?s)" using src records_from_same [OF u(1,4)] by simp
    ultimately have "conc_inv P cap A logs (cc_goto t Idle (db_compact_update e loc ?s) c)"
      using conc_inv_goto [OF inv, of logs _ Idle t] u(4) record_at_same [OF u(1)] by (simp add: pc_ok_def)
    moreover have "conc_keeps P logs ?s logs (db_compact_update e loc ?s)"
      by (rule conc_keeps_same) (use u in simp_all)
    ultimately show ?thesis using comp_update by auto
  qed
qed

lemma conc_steps_inv:
  assumes P: "pedrolib_ok P" and io: "io_good io"
    and small: "\<And>key val. client key val \<Longrightarrow> length key < 256 \<and> length val < 2 ^ 31
       \<and> length (snappy_compress P val) < 2 ^ 31 \<and> (val \<noteq> [] \<longrightarrow> A key val)"
    and steps: "conc_steps P cap io client c c'" and inv: "conc_inv P cap A logs c"
  shows "\<exists>logs'. conc_inv P cap A logs' c'"
  using steps
proof (induction rule: rtranclp_induct)
  case base
  show ?case using inv by blast
next
  case (step c1 c2)
  then obtain logs1 where "conc_inv P cap A logs1 c1" by blast
  from conc_step_inv [OF P io this small step(2)] show ?case by blast
qed

text \<open>What the index says in such a state.\<close>

lemma conc_inv_abs:
  assumes inv: "conc_inv P cap A logs c" and val: "db_abs P logs (cc_db c) key = Some val"
  shows "A key val"
proof -
  have ok: "db_ok P cap logs (cc_db c)" and src: "records_from P A logs (cc_db c)"
    using inv by (simp_all add: conc_inv_def)
  from val obtain d e where d: "db_indices (cc_db c) key = Some d"
    "log_at (logs (loc_id (dir_loc d))) (unat (loc_offset (dir_loc d))) = Some e" "db_value P (cc_db c) e = val"
    by (auto simp: db_abs_def split: option.splits)
  have "re_key e = key \<and> re_type e = kSet \<and> e \<in> set (logs (loc_id (dir_loc d))) \<and> loc_id (dir_loc d) \<in> set (db_files (cc_db c))"
    by (rule index_okE [OF db_okD(2) [OF ok] d(1)]) (use d(2) log_at_in in auto)
  then show ?thesis using src d(3) by (auto simp: records_from_def)
qed

text \<open>The map after a change of the index at one key, when all records are still there.\<close>

lemma conc_abs:
  assumes ok: "db_ok P cap logs s" and opt: "db_options s' = db_options s"
    and mono: "\<forall>loc e. record_at logs s loc e \<longrightarrow> record_at logs' s' loc e"
    and idx: "db_indices s' = (db_indices s)(key := v)"
  shows "db_abs P logs' s' = (db_abs P logs s)(key := (case v of None \<Rightarrow> None
     | Some d \<Rightarrow> map_option (db_value P s) (log_at (logs' (loc_id (dir_loc d))) (unat (loc_offset (dir_loc d))))))"
proof -
  have "log_at (logs' (loc_id (dir_loc d))) (unat (loc_offset (dir_loc d)))
      = log_at (logs (loc_id (dir_loc d))) (unat (loc_offset (dir_loc d)))" if "db_indices s k = Some d" for k d
    by (rule index_okE [OF db_okD(2) [OF ok] that]) (use mono in \<open>auto simp: record_at_def\<close>)
  then show ?thesis
    using db_value_cong [OF opt, of P] by (intro ext) (auto simp: db_abs_def idx split: option.splits)
qed

section \<open>Every operation takes effect in one step\<close>

lemma db_abs_keeps:
  assumes ok: "db_ok P cap logs s" and keeps: "conc_keeps P logs s logs' s'"
    and idx: "db_indices s' k = db_indices s k"
  shows "db_abs P logs' s' k = db_abs P logs s k"
proof (cases "db_indices s k")
  case (Some d)
  have "db_value P s' = db_value P s" using db_value_cong [of s' s P] keeps by (simp add: conc_keeps_def)
  moreover have "log_at (logs' (loc_id (dir_loc d))) (unat (loc_offset (dir_loc d)))
      = log_at (logs (loc_id (dir_loc d))) (unat (loc_offset (dir_loc d)))"
    by (rule index_okE [OF db_okD(2) [OF ok] Some]) (use keeps in \<open>auto simp: conc_keeps_def record_at_def\<close>)
  ultimately show ?thesis using Some idx by (simp add: db_abs_def)
qed (use idx in \<open>simp add: db_abs_def\<close>)

lemma db_abs_at:
  assumes "record_at logs s loc e" "db_indices s k = Some d" "dir_loc d = loc"
  shows "db_abs P logs s k = Some (db_value P s e)"
  using assms by (simp add: db_abs_def record_at_def)

text \<open>
  What a step of thread \<open>t\<close> writes to the map: the update of the index that ends a put or a deletion
  writes its value, the update that ends the move of a record writes the value of the record when
  the index leads to an older one, every other step nothing.
\<close>

definition conc_write :: "'a pedrolib \<Rightarrow> 'a conc \<Rightarrow> nat \<Rightarrow> (bytes \<times> bytes option) list" where
  "conc_write P c t = (case cc_pc c t of
       PutIndex key val e loc \<Rightarrow> [(key, if val = [] then None else Some val)]
     | CompUpdate e loc \<Rightarrow>
         (case db_indices (cc_db c) (re_key e) of
            None \<Rightarrow> []
          | Some d \<Rightarrow> if dir_loc d < loc then [(re_key e, Some (db_value P (cc_db c) e))] else [])
     | _ \<Rightarrow> [])"

fun map_writes :: "(bytes \<times> bytes option) list \<Rightarrow> (bytes \<Rightarrow> bytes option) \<Rightarrow> bytes \<Rightarrow> bytes option" where
  "map_writes [] m = m"
| "map_writes ((key, v) # ws) m = map_writes ws (m(key := v))"

lemma map_writes_append: "map_writes (ws @ ws') m = map_writes ws' (map_writes ws m)"
  by (induction ws m rule: map_writes.induct) (simp_all del: fun_upd_apply)

abbreviation conc_effect where
  "conc_effect P c t \<equiv> map_writes (conc_write P c t)"

lemma conc_effect_cases:
  "conc_effect P c t m = (case cc_pc c t of
       PutIndex key val e loc \<Rightarrow> m(key := if val = [] then None else Some val)
     | CompUpdate e loc \<Rightarrow>
         (case db_indices (cc_db c) (re_key e) of
            None \<Rightarrow> m
          | Some d \<Rightarrow> if dir_loc d < loc then m(re_key e \<mapsto> db_value P (cc_db c) e) else m)
     | _ \<Rightarrow> m)"
  by (simp add: conc_write_def split: pc.split option.split)

text \<open>Only one thread moves in a step.\<close>

lemma conc_step_pc:
  assumes "conc_step P cap io client c c'" "cc_pc c' t \<noteq> cc_pc c t" "u \<noteq> t"
  shows "cc_pc c' u = cc_pc c u"
  using assms by (cases rule: conc_step.cases) (auto split: if_splits)

lemma conc_step_moves:
  assumes "conc_step P cap io client c c'"
  obtains t where "cc_pc c' t \<noteq> cc_pc c t"
proof -
  note found = that
  have moves: thesis if "c' = cc_goto t pc s c" "pc \<noteq> cc_pc c t" for t pc s
    by (rule found [of t]) (simp add: that)
  from assms show thesis by (cases rule: conc_step.cases) (erule moves, simp split: if_split)+
qed

lemma conc_step_writes:
  assumes inv: "conc_inv P cap A logs c" and keeps: "conc_keeps P logs (cc_db c) logs' (cc_db c')"
    and step: "conc_step P cap io client c c'" and t: "cc_pc c' t \<noteq> cc_pc c t"
    and P: "pedrolib_ok P" and io: "io_good io"
  shows "db_abs P logs' (cc_db c') = conc_effect P c t (db_abs P logs (cc_db c))"
proof -
  let ?s = "cc_db c"
  have ok: "db_ok P cap logs ?s" and pcs: "\<And>t. pc_ok P cap A logs ?s (cc_pc c t)" using inv by (simp_all add: conc_inv_def)
  have val: "db_value P (cc_db c') = db_value P ?s"
    using db_value_cong [of "cc_db c'" ?s P] keeps by (simp add: conc_keeps_def)
  have same: "db_abs P logs' (cc_db c') k = db_abs P logs ?s k" if "db_indices (cc_db c') k = db_indices ?s k" for k
    by (rule db_abs_keeps [OF ok keeps that])
  have at: "record_at logs' (cc_db c') loc e" if "record_at logs ?s loc e" for loc e
    using keeps that by (simp add: conc_keeps_def)
  have quiet: ?thesis if "db_indices (cc_db c') = db_indices ?s" "\<And>m. conc_effect P c t m = m"
    using that same by (intro ext) simp
  from step show ?thesis
  proof (cases rule: conc_step.cases)
    case (put_begin u key val)
    then have "u = t" using t by (cases "u = t") auto
    then show ?thesis using put_begin by (intro quiet) (simp_all add: conc_effect_cases)
  next
    case (put_append u key val e loc fm)
    then have "u = t" using t by (cases "u = t") auto
    then show ?thesis using put_append by (intro quiet) (simp_all add: conc_effect_cases)
  next
    case (put_fail u key val st loc fm)
    then show ?thesis using conc_append_kOk [OF P io inv put_fail(3) _ put_fail(4)] by blast
  next
    case (put_index u key val e loc st s)
    then have u: "u = t" using t by (cases "u = t") auto
    have e: "re_key e = key" "re_type e = (if val = [] then kDelete else kSet)" "db_value P ?s e = val"
      "record_at logs ?s loc e" using pcs [of u] put_index(2) by (simp_all add: pc_ok_def)
    note p = db_put_index_ok [OF e(1,2) put_index(3)]
    have "db_abs P logs' s k = ((db_abs P logs ?s)(key := if val = [] then None else Some val)) k" for k
    proof (cases "k = key")
      case True
      then show ?thesis
        using p(2) e(1-3) at [OF e(4)] val put_index(1) db_abs_at [of logs' s loc e key _ P]
        by (cases "val = []") (simp_all add: replay_entry_def db_abs_def record_at_def)
    next
      case False
      then show ?thesis using same [of k] put_index(1) p(2) e(1,2) by (auto simp: replay_entry_def)
    qed
    then show ?thesis using put_index(1,2) u by (intro ext) (simp add: conc_effect_cases)
  next
    case (comp_read u fid f fm off e n buf)
    then have "u = t" using t by (cases "u = t") auto
    then show ?thesis using comp_read by (intro quiet) (simp_all add: conc_effect_cases)
  next
    case (comp_check u fid off e)
    then have "u = t" using t by (cases "u = t") auto
    then show ?thesis using comp_check by (intro quiet) (simp_all add: conc_effect_cases)
  next
    case (comp_append u e loc fm)
    then have "u = t" using t by (cases "u = t") auto
    then show ?thesis using comp_append by (intro quiet) (simp_all add: conc_effect_cases)
  next
    case (comp_fail u e st loc fm)
    then show ?thesis using conc_append_kOk [OF P io inv comp_fail(3) _ comp_fail(4)] by blast
  next
    case (comp_update u e loc)
    then have u: "u = t" using t by (cases "u = t") auto
    have e: "record_at logs ?s loc e" using pcs [of u] comp_update(2) by (simp add: pc_ok_def)
    show ?thesis
    proof
      fix k
      show "db_abs P logs' (cc_db c') k = conc_effect P c t (db_abs P logs ?s) k"
      proof (cases "k = re_key e \<and> (\<exists>d. db_indices ?s k = Some d \<and> dir_loc d < loc)")
        case True
        then obtain d where "k = re_key e" "db_indices ?s k = Some d" "dir_loc d < loc" by blast
        then have d': "db_indices (cc_db c') k = Some \<lparr>dir_entry_size = rec_sizeof e, dir_loc = loc\<rparr>"
          "conc_effect P c t (db_abs P logs ?s) k = Some (db_value P ?s e)"
          using u comp_update(1,2) by (simp_all add: conc_effect_cases db_compact_update_simps)
        show ?thesis using db_abs_at [OF at [OF e] d'(1), of P] d'(2) val by simp
      next
        case False
        then have "db_indices (cc_db c') k = db_indices ?s k"
          using comp_update(1) by (auto simp: db_compact_update_simps split: option.split)
        then show ?thesis using same [of k] False u comp_update(2) by (auto simp: conc_effect_cases split: option.split)
      qed
    qed
  qed
qed

section \<open>Interleavings that lose an update\<close>

text \<open>
  A compaction reads the record of a key and finds it current; a put of the key completes; then
  the compaction appends the old record behind the new one and moves the index to it.
\<close>

lemma conc_race:
  assumes P: "pedrolib_ok P" and io: "io_good io" and ok: "db_ok P cap logs (cc_db c)" and tu: "t \<noteq> u"
    and idle: "cc_pc c t = Idle" "cc_pc c u = Idle" and rw: "\<not> db_readonly (cc_db c)"
    and d: "db_indices (cc_db c) key = Some d"
    and e0: "log_at (logs (loc_id (dir_loc d))) (unat (loc_offset (dir_loc d))) = Some e0"
      "unat (loc_offset (dir_loc d)) + rec_size e0 < cap"
    and client: "client key val" and fits: "db_fits P cap (cc_db c) key val" and more: "unat (db_active (cc_db c)) < 2 ^ 32 - 2"
  shows "\<exists>c' logs' loc1 loc2. conc_steps P cap io client c c' \<and> cc_pc c' = cc_pc c \<and> db_ok P cap logs' (cc_db c')
     \<and> record_at logs' (cc_db c') loc1 (db_entry P (cc_db c) key val)
     \<and> record_at logs' (cc_db c') loc2 e0 \<and> loc1 < loc2
     \<and> db_indices (cc_db c') = (if val = [] then (db_indices (cc_db c))(key := None)
          else (db_indices (cc_db c))(key \<mapsto> \<lparr>dir_entry_size = rec_sizeof e0, dir_loc = loc2\<rparr>))
     \<and> db_options (cc_db c') = db_options (cc_db c)
     \<and> (\<forall>loc e. record_at logs (cc_db c) loc e \<longrightarrow> record_at logs' (cc_db c') loc e \<and> loc < loc1)
     \<and> replay logs' (db_files (cc_db c')) (\<lambda>_. None) = replay_entry loc2 e0
          (replay_entry loc1 (db_entry P (cc_db c) key val) (replay logs (db_files (cc_db c)) (\<lambda>_. None)))"
proof -
  let ?s = "cc_db c"
  let ?id = "loc_id (dir_loc d)" and ?off = "loc_offset (dir_loc d)"
  define e where "e = db_entry P ?s key val"
  have e0': "?id \<in> set (db_files ?s)" "re_type e0 = kSet" "re_key e0 = key"
    by (rule index_okE [OF db_okD(2) [OF ok] d]; use e0(1) in simp)+
  from comp_reads_all [OF P ok io e0'(1) e0] obtain f fm0 n where rd:
    "fm_AcquireDataFile P io ?id (db_fm ?s) = (kOk, Some f, fm0)"
    "(?off, e0) \<in> set (ri_take P (rf_ops (fm_fs fm0)) n (ri_new (rf_ops (fm_fs fm0)) f) buf)" by blast
  let ?s1 = "?s\<lparr>db_fm := fm0\<rparr>"
  note r = comp_reads [OF P ok io rd]
  note same = db_reads_same [OF r(2)]
  have at0: "record_at logs ?s1 (dir_loc d) e0" using e0(1) e0'(1) same(5) by (simp add: record_at_def)
  note w0 = record_at_wf [OF r(1) at0]
  have cap: "cap < 2 ^ 32" using db_okD(1) [OF ok] unfolding fm_ok_def disk_ok_def by blast
  have e: "rec_wf e" "rec_size e \<le> cap" "rec_validate P e" "re_key e = key"
    "re_type e = (if val = [] then kDelete else kSet)"
    using fits db_fits_wf [OF fits cap] by (simp_all add: e_def db_fits_def)
  have e1: "e = db_entry P ?s1 key val" by (simp add: e_def db_entry_def)
  have "db_active ?s1 \<noteq> -1" using more same(6) by (auto simp: unsigned_minus_1_eq_mask mask_eq_exp_minus_1)
  from conc_append_ex [OF P io r(1) e(1-3) this] obtain loc1 fm1 logs1 where a1:
    "fm_Append P cap io e fm0 = Some (kOk, loc1, fm1)" "db_ok P cap logs1 (?s\<lparr>db_fm := fm1\<rparr>)"
    "record_at logs1 (?s\<lparr>db_fm := fm1\<rparr>) loc1 e"
    "\<And>loc x. record_at logs ?s1 loc x \<Longrightarrow> record_at logs1 (?s\<lparr>db_fm := fm1\<rparr>) loc x \<and> loc < loc1"
    "unat (fm_active_id fm1) \<le> Suc (unat (db_active ?s))"
    "\<And>m. replay logs1 (mm_files (fm_meta fm1)) m = replay_entry loc1 e (replay logs (db_files ?s) m)"
    using same(5,6) by (auto simp: fun_eq_iff)
  let ?s2 = "?s\<lparr>db_fm := fm1\<rparr>"
  obtain st s3 where pi: "db_put_index key val e loc1 ?s2 = (st, s3)" by fastforce
  note p = db_put_index_ok [OF e(4,5) pi]
  note ok3 = conc_put_index [OF a1(2) e(4,5) a1(3) pi]
  have at3: "record_at logs1 s3 = record_at logs1 ?s2" by (rule record_at_same) (rule p(4))
  have "db_active s3 \<noteq> -1" using more a1(5) p(4) by (auto simp: db_active_def unsigned_minus_1_eq_mask mask_eq_exp_minus_1)
  then obtain loc2 fm2 logs2 where a2:
    "fm_Append P cap io e0 (db_fm s3) = Some (kOk, loc2, fm2)" "db_ok P cap logs2 (s3\<lparr>db_fm := fm2\<rparr>)"
    "record_at logs2 (s3\<lparr>db_fm := fm2\<rparr>) loc2 e0"
    "\<And>loc x. record_at logs1 s3 loc x \<Longrightarrow> record_at logs2 (s3\<lparr>db_fm := fm2\<rparr>) loc x \<and> loc < loc2"
    "unat (fm_active_id fm2) \<le> Suc (unat (db_active s3))"
    "\<And>m. replay logs2 (mm_files (fm_meta fm2)) m = replay_entry loc2 e0 (replay logs1 (db_files s3) m)"
    by (rule conc_append_ex [OF P io ok3 w0(1-3)]) (rule that)
  let ?s4 = "s3\<lparr>db_fm := fm2\<rparr>"
  let ?s5 = "db_compact_update e0 loc2 ?s4"
  let ?c1 = "cc_goto u (CompCheck ?id ?off e0) ?s1 c"
  let ?c2 = "cc_goto u (CompAppend e0) ?s1 ?c1"
  let ?c3 = "cc_goto t (PutAppend key val) ?s1 ?c2"
  let ?c4 = "cc_goto t (PutIndex key val e loc1) ?s2 ?c3"
  let ?c5 = "cc_goto t Idle s3 ?c4"
  let ?c6 = "cc_goto u (CompUpdate e0 loc2) ?s4 ?c5"
  let ?c7 = "cc_goto u Idle ?s5 ?c6"
  let ?step = "conc_step P cap io client"
  have "?step c ?c1" by (rule comp_read [OF idle(2) rd e0'(2)])
  moreover have "?step ?c1 ?c2"
    using comp_check [of ?c1 u ?id ?off e0 P cap io client] d e0'(3)
    by (simp add: db_compact_check_def location_neq_def)
  moreover have "?step ?c2 ?c3"
    using put_begin [of ?c2 t client key val P cap io] idle tu client rw e(2) cap same(3) unfolding e1 by simp
  moreover have "?step ?c3 ?c4"
    using put_append [of ?c3 t key val e P cap io loc1 fm1 client] e1 a1(1) \<open>db_active ?s1 \<noteq> -1\<close> by simp
  moreover have "?step ?c4 ?c5" using put_index [of ?c4 t key val e loc1 st s3 P cap io client] pi by simp
  moreover have "?step ?c5 ?c6"
    using comp_append [of ?c5 u e0 P cap io loc2 fm2 client] a2(1) tu \<open>db_active s3 \<noteq> -1\<close> by simp
  moreover have "?step ?c6 ?c7" using comp_update [of ?c6 u e0 loc2 P cap io client] by simp
  ultimately have steps: "conc_steps P cap io client c ?c7"
    by (meson rtranclp.rtrancl_into_rtrancl rtranclp.rtrancl_refl)
  note u = db_compact_update_simps [of e0 loc2 ?s4]
  have at5: "record_at logs2 ?s5 = record_at logs2 ?s4" by (rule record_at_same) (rule u(1))
  have new: "loc1 < loc2" "record_at logs2 ?s5 loc1 e" using a2(4) [of loc1 e] a1(3) at3 at5 by simp_all
  have pcs: "cc_pc ?c7 = cc_pc c" using idle tu by (simp add: fun_eq_iff)
  from new have idx: "db_indices ?s5 = (if val = [] then (db_indices ?s)(key := None)
      else (db_indices ?s)(key \<mapsto> \<lparr>dir_entry_size = rec_sizeof e0, dir_loc = loc2\<rparr>))"
    using u(5) p(2) e0'(3) e(4,5) by (simp add: replay_entry_def)
  have rep: "replay logs2 (db_files ?s5) (\<lambda>_. None)
      = replay_entry loc2 e0 (replay_entry loc1 e (replay logs (db_files ?s) (\<lambda>_. None)))"
    using a2(6) a1(6) u(1) p(4) by (simp add: db_files_def)
  have mono: "record_at logs2 ?s5 loc x \<and> loc < loc1" if "record_at logs ?s loc x" for loc x
    using that a1(4) [of loc x] a2(4) [of loc x] at3 at5 same(5) by (simp add: record_at_def)
  show ?thesis
    using steps conc_compact_update [OF a2(2) e0'(2) a2(3)] a2(3) new pcs idx rep mono at5 u(4) p(5)
    by (intro exI [of _ ?c7] exI [of _ logs2] exI [of _ loc1] exI [of _ loc2]) (simp add: e_def)
qed

text \<open>
  Two puts of a key: the records are appended in one order, the index is updated in the other. The
  files and the memory disagree from then on.
\<close>

lemma db_entry_wf:
  assumes "db_fits P cap s key val" "cap < 2 ^ 32" "pedrolib_ok P"
  shows "rec_wf (db_entry P s key val)" "rec_size (db_entry P s key val) \<le> cap" "rec_validate P (db_entry P s key val)"
    and "re_key (db_entry P s key val) = key" "re_type (db_entry P s key val) = (if val = [] then kDelete else kSet)"
    and "unat (rec_sizeof (db_entry P s key val)) \<le> cap"
  using assms db_fits_wf [OF assms(1,2)] by (simp_all add: db_fits_def)

lemma conc_put_race:
  assumes P: "pedrolib_ok P" and io: "io_good io" and ok: "db_ok P cap logs (cc_db c)" and tu: "t \<noteq> u"
    and idle: "cc_pc c t = Idle" "cc_pc c u = Idle" and rw: "\<not> db_readonly (cc_db c)"
    and client: "client key val" "client key val'"
    and fits: "db_fits P cap (cc_db c) key val" "db_fits P cap (cc_db c) key val'"
    and more: "unat (db_active (cc_db c)) < 2 ^ 32 - 2"
  shows "\<exists>c' logs' loc1 loc2. conc_steps P cap io client c c' \<and> cc_pc c' = cc_pc c \<and> db_ok P cap logs' (cc_db c')
     \<and> loc1 < loc2 \<and> (\<forall>loc e. record_at logs (cc_db c) loc e \<longrightarrow> record_at logs' (cc_db c') loc e \<and> loc < loc1)
     \<and> db_options (cc_db c') = db_options (cc_db c)
     \<and> record_at logs' (cc_db c') loc1 (db_entry P (cc_db c) key val)
     \<and> record_at logs' (cc_db c') loc2 (db_entry P (cc_db c) key val')
     \<and> db_indices (cc_db c') = replay_entry loc1 (db_entry P (cc_db c) key val)
          (replay_entry loc2 (db_entry P (cc_db c) key val') (db_indices (cc_db c)))
     \<and> replay logs' (db_files (cc_db c')) (\<lambda>_. None)
        = replay_entry loc2 (db_entry P (cc_db c) key val')
          (replay_entry loc1 (db_entry P (cc_db c) key val) (replay logs (db_files (cc_db c)) (\<lambda>_. None)))"
proof -
  let ?s = "cc_db c"
  have cap: "cap < 2 ^ 32" using db_okD(1) [OF ok] unfolding fm_ok_def disk_ok_def by blast
  let ?e = "db_entry P ?s key val" and ?e' = "db_entry P ?s key val'"
  note e = db_entry_wf [OF fits(1) cap P] and e' = db_entry_wf [OF fits(2) cap P]
  have a: "db_active ?s \<noteq> -1" using more by (auto simp: unsigned_minus_1_eq_mask mask_eq_exp_minus_1)
  then obtain loc1 fm1 logs1 where a1:
    "fm_Append P cap io ?e (db_fm ?s) = Some (kOk, loc1, fm1)" "db_ok P cap logs1 (?s\<lparr>db_fm := fm1\<rparr>)"
    "record_at logs1 (?s\<lparr>db_fm := fm1\<rparr>) loc1 ?e"
    "\<And>loc x. record_at logs ?s loc x \<Longrightarrow> record_at logs1 (?s\<lparr>db_fm := fm1\<rparr>) loc x \<and> loc < loc1" "unat (fm_active_id fm1) \<le> Suc (unat (db_active ?s))"
    "\<And>m. replay logs1 (mm_files (fm_meta fm1)) m = replay_entry loc1 ?e (replay logs (db_files ?s) m)"
    by (rule conc_append_ex [OF P io ok e(1-3)]) (rule that)
  let ?s1 = "?s\<lparr>db_fm := fm1\<rparr>"
  have b: "db_active ?s1 \<noteq> -1" using more a1(5) by (auto simp: db_active_def unsigned_minus_1_eq_mask mask_eq_exp_minus_1)
  then obtain loc2 fm2 logs2 where a2:
    "fm_Append P cap io ?e' (db_fm ?s1) = Some (kOk, loc2, fm2)" "db_ok P cap logs2 (?s1\<lparr>db_fm := fm2\<rparr>)"
    "record_at logs2 (?s1\<lparr>db_fm := fm2\<rparr>) loc2 ?e'"
    "\<And>loc x. record_at logs1 ?s1 loc x \<Longrightarrow> record_at logs2 (?s1\<lparr>db_fm := fm2\<rparr>) loc x \<and> loc < loc2"
    "unat (fm_active_id fm2) \<le> Suc (unat (db_active ?s1))"
    "\<And>m. replay logs2 (mm_files (fm_meta fm2)) m = replay_entry loc2 ?e' (replay logs1 (db_files ?s1) m)"
    by (rule conc_append_ex [OF P io a1(2) e'(1-3)]) (rule that)
  let ?s2 = "?s\<lparr>db_fm := fm2\<rparr>"
  obtain st2 s3 where p2: "db_put_index key val' ?e' loc2 ?s2 = (st2, s3)" by fastforce
  obtain st1 s4 where p1: "db_put_index key val ?e loc1 s3 = (st1, s4)" by fastforce
  note q2 = db_put_index_ok [OF e'(4,5) p2] and q1 = db_put_index_ok [OF e(4,5) p1]
  have at2: "record_at logs2 ?s2 loc2 ?e'" "record_at logs2 ?s2 loc1 ?e" using a2(3) a2(4) a1(3) by auto
  have ok2: "db_ok P cap logs2 ?s2" using a2(2) by simp
  note ok3 = conc_put_index [OF ok2 e'(4,5) at2(1) p2]
  have at3: "record_at logs2 s3 = record_at logs2 ?s2" by (rule record_at_same) (rule q2(4))
  have "record_at logs2 s3 loc1 ?e" using at2 at3 by simp
  note ok4 = conc_put_index [OF ok3 e(4,5) this p1]
  have at4: "record_at logs2 s4 = record_at logs2 ?s2" using at3 record_at_same [OF q1(4)] by simp
  let ?c1 = "cc_goto t (PutAppend key val) ?s c"
  let ?c2 = "cc_goto u (PutAppend key val') ?s ?c1"
  let ?c3 = "cc_goto t (PutIndex key val ?e loc1) ?s1 ?c2"
  let ?c4 = "cc_goto u (PutIndex key val' ?e' loc2) ?s2 ?c3"
  let ?c5 = "cc_goto u Idle s3 ?c4"
  let ?c6 = "cc_goto t Idle s4 ?c5"
  let ?step = "conc_step P cap io client"
  have opt: "db_entry P ?s1 key val' = ?e'" by (simp add: db_entry_def)
  have "?step c ?c1" 
    using put_begin [of c t client key val P cap io] idle(1) client(1) rw e(6) by simp
  moreover have "?step ?c1 ?c2"
    using put_begin [of ?c1 u client key val' P cap io] idle(2) tu client(2) rw e'(6) by simp
  moreover have "?step ?c2 ?c3"
    using put_append [of ?c2 t key val ?e P cap io loc1 fm1 client] a1(1) tu a by simp
  moreover have "?step ?c3 ?c4"
    using put_append [of ?c3 u key val' ?e' P cap io loc2 fm2 client] a2(1) tu b opt by simp
  moreover have "?step ?c4 ?c5" using put_index [of ?c4 u key val' ?e' loc2 st2 s3 P cap io client] p2 by simp
  moreover have "?step ?c5 ?c6" using put_index [of ?c5 t key val ?e loc1 st1 s4 P cap io client] p1 tu by simp
  ultimately have steps: "conc_steps P cap io client c ?c6"
    by (meson rtranclp.rtrancl_into_rtrancl rtranclp.rtrancl_refl)
  have rep: "replay logs2 (db_files s4) (\<lambda>_. None)
      = replay_entry loc2 ?e' (replay_entry loc1 ?e (replay logs (db_files ?s) (\<lambda>_. None)))"
    using a2(6) a1(6) q1(4) q2(4) by (simp add: db_files_def)
  have pcs: "cc_pc ?c6 = cc_pc c" using idle tu by (simp add: fun_eq_iff)
  have "loc1 < loc2" using a2(4) a1(3) by blast
  moreover have "record_at logs2 s4 loc x \<and> loc < loc1" if "record_at logs ?s loc x" for loc x
    using a2(4) [of loc x] a1(4) [OF that] at4 by simp
  ultimately show ?thesis
    using steps pcs ok4 at2 at4 rep q1(2,5) q2(2,5)
    by (intro exI [of _ ?c6] exI [of _ logs2] exI [of _ loc1] exI [of _ loc2]) simp
qed

end
