(* ===== verification/ConcCompact.thy ===== *)
theory ConcCompact
  imports Concurrency
begin

text \<open>
  The whole of \<^verbatim>\<open>Compact(id)\<close> as a thread among others: opening the file, the loop of its
  iterator, the three parts of each round that \<open>Concurrency\<close> has as steps, and the removal of the
  file at the end. The other threads put, delete and compact other files in between. The removal
  is safe when no put was under way that had already written its record into the file, and the
  loop ends after a number of steps that only depends on the file.
\<close>

section \<open>The steps of the compaction and of the others\<close>

datatype compactor =
    CompStart
  | CompOpened rfile
  | CompLoop "rfile record_iterator"
  | CompDone

text \<open>The last part, under one lock: the states of the file are erased and the file removed.\<close>

definition comp_remove :: "'a pedrolib \<Rightarrow> io \<Rightarrow> file_id \<Rightarrow> 'a db \<Rightarrow> 'a db" where
  "comp_remove P io fid s = s\<lparr>db_file_states := (db_file_states s)(fid := None),
     db_fm := snd (fm_RemoveFile P io fid (db_fm s))\<rparr>"

text \<open>
  The thread \<open>t\<close> that compacts the file \<open>fid\<close>. The buffer of the state is its own
  (\<^verbatim>\<open>thread_local\<close>). In \<open>body\<close> it checks, appends or updates the index. It returns
  without removing the file when the database is read-only, when the file cannot be opened, and
  when an append fails.
\<close>

definition append_fails :: "'a pedrolib \<Rightarrow> nat \<Rightarrow> io \<Rightarrow> 'a conc \<Rightarrow> nat \<Rightarrow> bool" where
  "append_fails P cap io c t = (case cc_pc c t of
       CompAppend e \<Rightarrow> (case fm_Append P cap io e (db_fm (cc_db c)) of
           None \<Rightarrow> False | Some (st, loc, fm) \<Rightarrow> st \<noteq> kOk)
     | _ \<Rightarrow> False)"

inductive comp_own ::
    "'a pedrolib \<Rightarrow> nat \<Rightarrow> io \<Rightarrow> file_id \<Rightarrow> nat \<Rightarrow> compactor \<times> 'a conc \<Rightarrow> compactor \<times> 'a conc \<Rightarrow> bool"
  for P cap io fid t where
  refuse: "db_readonly (cc_db c) \<Longrightarrow> comp_own P cap io fid t (CompStart, c) (CompDone, c)"
| open_fail: "\<not> db_readonly (cc_db c) \<Longrightarrow> fm_AcquireDataFile P io fid (db_fm (cc_db c)) = (st, f, fm) \<Longrightarrow> st \<noteq> kOk \<Longrightarrow>
     comp_own P cap io fid t (CompStart, c) (CompDone, c\<lparr>cc_db := (cc_db c)\<lparr>db_fm := fm\<rparr>\<rparr>)"
| open_file: "\<not> db_readonly (cc_db c) \<Longrightarrow> fm_AcquireDataFile P io fid (db_fm (cc_db c)) = (kOk, Some f, fm) \<Longrightarrow>
     comp_own P cap io fid t (CompStart, c) (CompOpened f, c\<lparr>cc_db := (cc_db c)\<lparr>db_fm := fm\<rparr>\<rparr>)"
| mark: "comp_own P cap io fid t (CompOpened f, c)
     (CompLoop (ri_new (rf_ops (fm_fs (db_fm (cc_db c)))) f),
      c\<lparr>cc_db := set_file_state fid (file_state_of (cc_db c) fid\<lparr>compact_state := kCompacting\<rparr>) (cc_db c)\<rparr>)"
| next_record: "cc_pc c t = Idle \<Longrightarrow>
     ri_Valid P (rf_ops (fm_fs (db_fm (cc_db c)))) it (db_buf (cc_db c)) = Some (True, it1, buf) \<Longrightarrow>
     ri_Next it1 = (e, it2) \<Longrightarrow>
     comp_own P cap io fid t (CompLoop it, c)
       (CompLoop it2, cc_goto t (if re_type e \<noteq> kSet then Idle else CompCheck fid (ri_GetOffset it1) e)
          ((cc_db c)\<lparr>db_buf := buf\<rparr>) c)"
| body: "cc_pc c t \<noteq> Idle \<Longrightarrow> conc_step P cap io (\<lambda>_ _. False) c c' \<Longrightarrow> cc_pc c' t \<noteq> cc_pc c t \<Longrightarrow>
     \<not> append_fails P cap io c t \<Longrightarrow> comp_own P cap io fid t (CompLoop it, c) (CompLoop it, c')"
| give_up: "append_fails P cap io c t \<Longrightarrow> conc_step P cap io (\<lambda>_ _. False) c c' \<Longrightarrow> cc_pc c' t \<noteq> cc_pc c t \<Longrightarrow>
     comp_own P cap io fid t (CompLoop it, c) (CompDone, c')"
| remove: "cc_pc c t = Idle \<Longrightarrow>
     ri_Valid P (rf_ops (fm_fs (db_fm (cc_db c)))) it (db_buf (cc_db c)) = Some (False, it1, buf) \<Longrightarrow>
     comp_own P cap io fid t (CompLoop it, c)
       (CompDone, c\<lparr>cc_db := comp_remove P io fid ((cc_db c)\<lparr>db_buf := buf\<rparr>)\<rparr>)"

text \<open>The other threads do anything but begin to read the file.\<close>

inductive comp_other ::
    "'a pedrolib \<Rightarrow> nat \<Rightarrow> io \<Rightarrow> (bytes \<Rightarrow> bytes \<Rightarrow> bool) \<Rightarrow> file_id \<Rightarrow> nat
       \<Rightarrow> compactor \<times> 'a conc \<Rightarrow> compactor \<times> 'a conc \<Rightarrow> bool"
  for P cap io client fid t where
  "conc_step P cap io client c c' \<Longrightarrow> cc_pc c' t = cc_pc c t \<Longrightarrow>
     (\<And>u off e. cc_pc c' u = CompCheck fid off e \<Longrightarrow> cc_pc c u = CompCheck fid off e) \<Longrightarrow>
     comp_other P cap io client fid t (k, c) (k, c')"

text \<open>Both in any order; the number counts the steps of the compaction.\<close>

inductive comp_run ::
    "'a pedrolib \<Rightarrow> nat \<Rightarrow> io \<Rightarrow> (bytes \<Rightarrow> bytes \<Rightarrow> bool) \<Rightarrow> file_id \<Rightarrow> nat
       \<Rightarrow> compactor \<times> 'a conc \<Rightarrow> nat \<Rightarrow> compactor \<times> 'a conc \<Rightarrow> bool"
  for P cap io client fid t x where
  start: "comp_run P cap io client fid t x 0 x"
| own: "comp_run P cap io client fid t x n y \<Longrightarrow> comp_own P cap io fid t y z \<Longrightarrow>
     comp_run P cap io client fid t x (Suc n) z"
| other: "comp_run P cap io client fid t x n y \<Longrightarrow> comp_other P cap io client fid t y z \<Longrightarrow>
     comp_run P cap io client fid t x n z"

inductive_cases comp_otherE: "comp_other P cap io client fid t (k, c) y"

section \<open>The invariant\<close>

text \<open>A thread that is about to enter a location into the index, outside of the file.\<close>

definition avoids :: "file_id \<Rightarrow> pc \<Rightarrow> bool" where
  "avoids fid pc = (case pc of
       PutIndex key val e loc \<Rightarrow> loc_id loc \<noteq> fid
     | CompUpdate e loc \<Rightarrow> loc_id loc \<noteq> fid
     | _ \<Rightarrow> True)"

text \<open>
  Between two rounds, the index has no entries into the part of the file that has been read;
  during a round, the record of the round may be an exception. \<open>n\<close> is a bound on the steps that
  are left.
\<close>

definition comp_at :: "file_id \<Rightarrow> rec_entry list \<Rightarrow> rec_entry list \<Rightarrow> index \<Rightarrow> nat \<Rightarrow> pc \<Rightarrow> bool" where
  "comp_at fid pre es m n pc = (case pc of
       Idle \<Rightarrow> moved_before fid (log_size pre) m \<and> n = 4 * length es + 1
     | CompCheck fid' off e \<Rightarrow> fid' = fid \<and> n = 4 * length es + 4
         \<and> (\<exists>pre'. pre = pre' @ [e] \<and> unat off = log_size pre' \<and> moved_before fid (log_size pre') m)
     | CompAppend e \<Rightarrow> n = 4 * length es + 3 \<and> (\<exists>pre'. pre = pre' @ [e] \<and> moved_before fid (log_size pre') m)
     | CompUpdate e loc \<Rightarrow> n = 4 * length es + 2 \<and> fid < loc_id loc
         \<and> (\<exists>pre'. pre = pre' @ [e] \<and> moved_before fid (log_size pre') m)
     | _ \<Rightarrow> False)"

definition comp_inv ::
    "'a pedrolib \<Rightarrow> nat \<Rightarrow> (bytes \<Rightarrow> bytes \<Rightarrow> bool) \<Rightarrow> file_id \<Rightarrow> nat \<Rightarrow> rec_entry list
       \<Rightarrow> (file_id \<Rightarrow> rec_entry list) \<Rightarrow> nat \<Rightarrow> compactor \<Rightarrow> 'a conc \<Rightarrow> bool" where
  "comp_inv P cap A fid t all logs n k c \<longleftrightarrow> conc_inv P cap A logs c \<and> (\<forall>u. avoids fid (cc_pc c u))
     \<and> (\<forall>u off e. u \<noteq> t \<longrightarrow> cc_pc c u \<noteq> CompCheck fid off e)
     \<and> (case k of
          CompStart \<Rightarrow> fid \<in> set (db_files (cc_db c)) \<and> fid < db_active (cc_db c) \<and> logs fid = all
            \<and> \<not> db_readonly (cc_db c) \<and> cc_pc c t = Idle \<and> n = 4 * length all + 3
        | CompOpened f \<Rightarrow> file_on P cap fid f (cc_db c) \<and> logs fid = all \<and> cc_pc c t = Idle \<and> n = 4 * length all + 2
        | CompLoop it \<Rightarrow> file_on P cap fid (ri_file it) (cc_db c) \<and> logs fid = all
            \<and> (\<exists>pre es. all = pre @ es \<and> comp_at fid pre es (db_indices (cc_db c)) n (cc_pc c t)
               \<and> ri_at P (rf_ops (fm_fs (db_fm (cc_db c)))) it (db_buf (cc_db c)) (log_size pre))
        | CompDone \<Rightarrow> fid \<notin> set (db_files (cc_db c)) \<and> fid < db_active (cc_db c) \<and> cc_pc c t = Idle \<and> n = 0)"

section \<open>What a step of any thread does to the index\<close>

lemma conc_step_index:
  assumes pc: "\<And>u. avoids fid (cc_pc c u)" and inv: "conc_inv P cap A logs c"
    and step: "conc_step P cap io client c c'" and k: "db_indices (cc_db c') key = Some d"
  shows "db_indices (cc_db c) key = Some d \<or> loc_id (dir_loc d) \<noteq> fid"
  using step
proof (cases rule: conc_step.cases)
  case (put_index t key' val e loc st s)
  have "pc_ok P cap A logs (cc_db c) (cc_pc c t)" using inv by (simp add: conc_inv_def)
  then have e: "re_key e = key'" "re_type e = (if val = [] then kDelete else kSet)"
    using put_index(2) by (simp_all add: pc_ok_def)
  have "loc_id loc \<noteq> fid" using pc [of t] put_index(2) by (simp add: avoids_def)
  then show ?thesis
    using k put_index(1) db_put_index_ok(2) [OF e put_index(3)] by (auto simp: replay_entry_def split: if_splits)
next
  case (comp_update t e loc)
  have "loc_id loc \<noteq> fid" using pc [of t] comp_update(2) by (simp add: avoids_def)
  then show ?thesis
    using k comp_update(1) by (auto simp: db_compact_update_simps split: option.splits if_splits)
qed (use k in simp_all)

lemma moved_before_step:
  assumes "moved_before fid off m" "\<And>k d. m' k = Some d \<Longrightarrow> m k = Some d \<or> loc_id (dir_loc d) \<noteq> fid"
  shows "moved_before fid off m'"
  using assms unfolding moved_before_def by blast

text \<open>Appends go to a file behind all others, so no thread comes to hold a location in the file.\<close>

lemma append_active:
  assumes P: "pedrolib_ok P" and io: "io_good io" and ok: "db_ok P cap logs s" and src: "records_from P A logs s"
    and e: "rec_wf e" "rec_size e \<le> cap" "rec_validate P e" "re_type e = kSet \<longrightarrow> A (re_key e) (db_value P s e)"
    and more: "db_active s \<noteq> -1" and app: "fm_Append P cap io e (db_fm s) = Some (kOk, loc, fm)"
  shows "db_active s \<le> loc_id loc"
proof -
  from conc_append [OF assms] obtain logs' where "appended cap logs (db_fm s) e loc logs' fm" by blast
  then show ?thesis using appended_facts(2,3) [OF db_okD(1) [OF ok]] by (simp add: db_active_def)
qed

lemma conc_step_append:
  assumes P: "pedrolib_ok P" and io: "io_good io" and inv: "conc_inv P cap A logs c"
    and step: "conc_step P cap io client c c'"
    and pc: "cc_pc c' u = PutIndex key val e loc \<or> cc_pc c' u = CompUpdate e loc"
  shows "cc_pc c' u = cc_pc c u \<or> db_active (cc_db c) \<le> loc_id loc"
proof -
  have ok: "db_ok P cap logs (cc_db c)" "records_from P A logs (cc_db c)"
    and pcs: "\<And>t. pc_ok P cap A logs (cc_db c) (cc_pc c t)" using inv by (simp_all add: conc_inv_def)
  have cap: "cap < 2 ^ 32"
    using appended_log_bound(2) [OF db_okD(1) [OF ok(1)]] active_files(4) [OF db_okD(1) [OF ok(1)]] by blast
  from step show ?thesis
  proof (cases rule: conc_step.cases)
    case (put_append t key' val' e' loc' fm)
    have f: "db_fits P cap (cc_db c) key' val'" "val' \<noteq> [] \<longrightarrow> A key' val'"
      using pcs [of t] put_append(2) by (simp_all add: pc_ok_def)
    have "db_value P (cc_db c) e' = val'" using db_value_entry [OF P refl] put_append(3) by simp
    then have "db_active (cc_db c) \<le> loc_id loc'"
      using f db_fits_wf [OF f(1) cap] put_append
      by (intro append_active [OF P io ok _ _ _ _ put_append(4,5)]) (auto simp: db_fits_def)
    then show ?thesis using pc put_append(1) by (cases "u = t") auto
  next
    case (comp_append t e' loc' fm)
    have "db_active (cc_db c) \<le> loc_id loc'"
      using pcs [of t] comp_append(2) by (intro append_active [OF P io ok _ _ _ _ comp_append(3,4)]) (simp_all add: pc_ok_def)
    then show ?thesis using pc comp_append(1) by (cases "u = t") auto
  next
    case (put_begin t) then show ?thesis using pc by (cases "u = t") auto
  next
    case (put_fail t) then show ?thesis using pc by (cases "u = t") auto
  next
    case (comp_fail t) then show ?thesis using pc by (cases "u = t") auto
  next
    case (put_index t) then show ?thesis using pc by (cases "u = t") auto
  next
    case (comp_read t) then show ?thesis using pc by (cases "u = t") auto
  next
    case (comp_check t) then show ?thesis using pc by (cases "u = t") (auto split: if_splits)
  next
    case (comp_update t) then show ?thesis using pc by (cases "u = t") auto
  qed
qed

lemma conc_step_avoids:
  assumes P: "pedrolib_ok P" and io: "io_good io" and inv: "conc_inv P cap A logs c"
    and step: "conc_step P cap io client c c'" and fid: "fid < db_active (cc_db c)" and pc: "avoids fid (cc_pc c u)"
  shows "avoids fid (cc_pc c' u)"
proof (cases "cc_pc c' u = cc_pc c u")
  case False
  then have "db_active (cc_db c) \<le> loc_id loc"
    if "cc_pc c' u = PutIndex key val e loc \<or> cc_pc c' u = CompUpdate e loc" for key val e loc
    using conc_step_append [OF P io inv step that] by blast
  then show ?thesis using fid by (fastforce simp: avoids_def split: pc.splits)
qed (use pc in simp)

lemma file_on_keeps:
  assumes "file_on P cap fid f s" "conc_keeps P logs s logs' s'"
  shows "file_on P cap fid f s'" "logs' fid = logs fid"
  using assms path_name(1) [of "fm_meta (db_fm s')" "fm_meta (db_fm s)" P]
  unfolding file_on_def conc_keeps_def links_kept_def by (auto simp: db_files_def)

text \<open>The iterator of the compaction after a step of any thread.\<close>

lemma ri_at_keeps:
  assumes P: "pedrolib_ok P" and ok: "db_ok P cap logs s" "db_ok P cap logs' s'"
    and f: "file_on P cap fid (ri_file it) s" and keeps: "conc_keeps P logs s logs' s'"
    and it: "ri_at P (rf_ops (fm_fs (db_fm s))) it (db_buf s) off"
  shows "ri_at P (rf_ops (fm_fs (db_fm s'))) it (db_buf s') off"
proof -
  have "db_buf s' = db_buf s" using keeps by (simp add: conc_keeps_def)
  then show ?thesis
    using ri_at_frame [OF it] file_on_log(3) [OF P ok(1) f] file_on_log(3) [OF P ok(2) file_on_keeps(1) [OF f keeps]]
    by simp
qed

lemma comp_at_step:
  assumes "comp_at fid pre es m n pc" "\<And>k d. m' k = Some d \<Longrightarrow> m k = Some d \<or> loc_id (dir_loc d) \<noteq> fid"
  shows "comp_at fid pre es m' n pc"
  using assms(1) moved_before_step [of fid _ m m', OF _ assms(2)]
  unfolding comp_at_def by (auto split: pc.splits)

lemma conc_keepsD:
  assumes "conc_keeps P logs s logs' s'"
  shows "db_active s \<le> db_active s'" "unat (db_active s') \<le> Suc (unat (db_active s))"
    "fid < db_active s \<Longrightarrow> fid \<in> set (db_files s') \<longleftrightarrow> fid \<in> set (db_files s)" "fid < db_active s \<Longrightarrow> logs' fid = logs fid"
    "db_readonly s' = db_readonly s" "db_buf s' = db_buf s" "db_options s' = db_options s"
  using assms unfolding conc_keeps_def by (auto dest: less_asym)

abbreviation client_small ::
    "'a pedrolib \<Rightarrow> (bytes \<Rightarrow> bytes \<Rightarrow> bool) \<Rightarrow> (bytes \<Rightarrow> bytes \<Rightarrow> bool) \<Rightarrow> bool" where
  "client_small P A client \<equiv> \<forall>key val. client key val \<longrightarrow> length key < 256 \<and> length val < 2 ^ 31
     \<and> length (snappy_compress P val) < 2 ^ 31 \<and> (val \<noteq> [] \<longrightarrow> A key val)"

lemma comp_inv_file:
  assumes "comp_inv P cap A fid t all logs n k c"
  shows "fid < db_active (cc_db c)" "conc_inv P cap A logs c" "avoids fid (cc_pc c u)"
  using assms by (cases k; auto simp: comp_inv_def file_on_def)+

lemma comp_inv_loop:
  assumes "conc_inv P cap A logs c" "\<And>u. avoids fid (cc_pc c u)" "\<And>u off e. u \<noteq> t \<Longrightarrow> cc_pc c u \<noteq> CompCheck fid off e"
    and "file_on P cap fid (ri_file it) (cc_db c)" "logs fid = all" "all = pre @ es"
    and "comp_at fid pre es (db_indices (cc_db c)) n (cc_pc c t)"
    and "ri_at P (rf_ops (fm_fs (db_fm (cc_db c)))) it (db_buf (cc_db c)) (log_size pre)"
  shows "comp_inv P cap A fid t all logs n (CompLoop it) c"
  using assms unfolding comp_inv_def by auto

lemma comp_inv_other:
  assumes P: "pedrolib_ok P" and io: "io_good io" and small: "client_small P A client"
    and inv: "comp_inv P cap A fid t all logs n k c" and step: "comp_other P cap io client fid t (k, c) (k', c')"
  shows "k' = k \<and> (\<exists>logs'. comp_inv P cap A fid t all logs' n k c' \<and> conc_keeps P logs (cc_db c) logs' (cc_db c'))"
proof -
  from step have s: "conc_step P cap io client c c'" "cc_pc c' t = cc_pc c t" "k' = k"
    and reads: "\<And>u off e. cc_pc c' u = CompCheck fid off e \<Longrightarrow> cc_pc c u = CompCheck fid off e"
    by (auto elim: comp_otherE)
  note i = comp_inv_file [OF inv]
  from conc_step_inv [OF P io i(2) _ s(1)] small obtain logs' where
    l: "conc_inv P cap A logs' c'" "conc_keeps P logs (cc_db c) logs' (cc_db c')" by blast
  note kp = conc_keepsD [OF l(2)]
  have act: "fid < db_active (cc_db c')" using i(1) kp(1) by simp
  have av: "avoids fid (cc_pc c' u)" for u by (rule conc_step_avoids [OF P io i(2) s(1) i(1,3)])
  have noread: "cc_pc c' u \<noteq> CompCheck fid off e" if "u \<noteq> t" for u off e
    using reads [of u off e] inv that by (auto simp: comp_inv_def)
  have ok: "db_ok P cap logs (cc_db c)" "db_ok P cap logs' (cc_db c')" using i(2) l(1) by (simp_all add: conc_inv_def)
  have "comp_inv P cap A fid t all logs' n k c'"
  proof (cases k)
    case CompStart
    then show ?thesis using inv l(1) av noread act kp s(2) i(1) by (simp add: comp_inv_def)
  next
    case (CompOpened f)
    then show ?thesis using inv l(1) av noread file_on_keeps [OF _ l(2), of cap fid f] s(2) by (simp add: comp_inv_def)
  next
    case (CompLoop it)
    from inv CompLoop obtain pre es where p: "file_on P cap fid (ri_file it) (cc_db c)" "logs fid = all" "all = pre @ es"
      "comp_at fid pre es (db_indices (cc_db c)) n (cc_pc c t)"
      "ri_at P (rf_ops (fm_fs (db_fm (cc_db c)))) it (db_buf (cc_db c)) (log_size pre)" by (auto simp: comp_inv_def)
    have "comp_at fid pre es (db_indices (cc_db c')) n (cc_pc c' t)"
      unfolding s(2) by (rule comp_at_step [OF p(4)]) (rule conc_step_index [OF i(3,2) s(1)])
    then show ?thesis
      using CompLoop l(1) av noread file_on_keeps [OF p(1) l(2)] p(2,3) ri_at_keeps [OF P ok p(1) l(2) p(5)]
      unfolding comp_inv_def by auto
  next
    case CompDone
    then show ?thesis using inv l(1) av noread act s(2) kp(3) i(1) by (simp add: comp_inv_def)
  qed
  then show ?thesis using s(3) l(2) by blast
qed

section \<open>The removal\<close>

lemma comp_remove_ok:
  assumes P: "pedrolib_ok P" and io: "io_good io" and ok: "db_ok P cap logs s" and fid: "fid \<noteq> db_active s"
    and gone: "\<forall>k d. db_indices s k = Some d \<longrightarrow> loc_id (dir_loc d) \<noteq> fid"
  shows "db_ok P cap logs (comp_remove P io fid s)" "set (db_files (comp_remove P io fid s)) = set (db_files s) - {fid}"
    "db_active (comp_remove P io fid s) = db_active s" "db_options (comp_remove P io fid s) = db_options s"
    "db_abs P logs (comp_remove P io fid s) = db_abs P logs s"
proof -
  have "fid \<noteq> fm_active_id (db_fm s)" using fid by (simp add: db_active_def)
  from fm_RemoveFile_ok [OF P db_okD(1) [OF ok] io this] obtain fm where
    r: "fm_RemoveFile P io fid (db_fm s) = (kOk, fm)" "fm_ok P cap logs fm"
      "fm_active_id fm = fm_active_id (db_fm s)" "mm_files (fm_meta fm) = set_erase fid (mm_files (fm_meta (db_fm s)))" by blast
  have "db_ok P cap logs (s\<lparr>db_fm := fm\<rparr>)"
    using db_ok_removed [OF ok r(2)] gone r(3,4) by (simp add: db_active_def db_files_def)
  then show "db_ok P cap logs (comp_remove P io fid s)"
    using r(1) by (simp add: comp_remove_def db_ok_def db_files_def db_active_def)
  show "set (db_files (comp_remove P io fid s)) = set (db_files s) - {fid}"
    "db_active (comp_remove P io fid s) = db_active s" "db_options (comp_remove P io fid s) = db_options s"
    "db_abs P logs (comp_remove P io fid s) = db_abs P logs s"
    using r by (simp_all add: comp_remove_def db_files_def db_active_def db_abs_def [abs_def] db_value_def [abs_def]
        cong: option.case_cong)
qed

text \<open>The other threads hold records of other files only, and these stay.\<close>

lemma pc_ok_removed:
  assumes "pc_ok P cap A logs s pc" "avoids fid pc" "\<And>off e. pc \<noteq> CompCheck fid off e"
    and s': "db_options s' = db_options s" "\<And>x. x \<noteq> fid \<Longrightarrow> x \<in> set (db_files s) \<Longrightarrow> x \<in> set (db_files s')"
  shows "pc_ok P cap A logs s' pc"
proof -
  have at: "record_at logs s' loc e" if "record_at logs s loc e" "loc_id loc \<noteq> fid" for loc e
    using that s'(2) by (simp add: record_at_def)
  have fits: "db_fits P cap s' key val = db_fits P cap s key val" for key val
    using s'(1) by (simp add: db_fits_small)
  have "f \<noteq> fid" if "pc = CompCheck f off e" for f off e using assms(3) that by blast
  then show ?thesis
    using assms(1,2) at db_value_cong [OF s'(1), of P] by (cases pc) (simp_all add: pc_ok_def avoids_def fits)
qed

lemma conc_inv_removed:
  assumes P: "pedrolib_ok P" and io: "io_good io" and inv: "conc_inv P cap A logs c" and s: "s = (cc_db c)\<lparr>db_buf := buf\<rparr>"
    and fid: "fid \<noteq> db_active s" and gone: "\<forall>k d. db_indices s k = Some d \<longrightarrow> loc_id (dir_loc d) \<noteq> fid"
    and pcs: "\<And>u. avoids fid (cc_pc c u)" "\<And>u off e. cc_pc c u \<noteq> CompCheck fid off e"
  shows "conc_inv P cap A logs (c\<lparr>cc_db := comp_remove P io fid s\<rparr>)"
proof -
  have ok: "db_ok P cap logs s" using inv s by (simp add: conc_inv_def)
  note r = comp_remove_ok [OF P io ok fid gone]
  have opt: "db_options (comp_remove P io fid s) = db_options (cc_db c)" using r(4) s by simp
  have "records_from P A logs (comp_remove P io fid s)"
    using inv r(2) s db_value_cong [OF opt, of P] by (auto simp: conc_inv_def records_from_def)
  moreover have "pc_ok P cap A logs (comp_remove P io fid s) (cc_pc c u)" for u
    by (rule pc_ok_removed [OF _ pcs(1,2) opt]) (use inv r(2) s in \<open>simp_all add: conc_inv_def\<close>)
  ultimately show ?thesis using r(1) by (simp add: conc_inv_def)
qed

section \<open>The steps of the compaction keep the invariant\<close>

lemma location_before: "loc_id a < loc_id b \<Longrightarrow> a < b"
  unfolding less_location_def location_less_def by auto

text \<open>The body of a round: the record is checked, appended, and entered into the index.\<close>

lemma comp_at_body:
  assumes P: "pedrolib_ok P" and io: "io_good io" and inv: "conc_inv P cap A logs c" and av: "\<And>u. avoids fid (cc_pc c u)"
    and fid: "fid < db_active (cc_db c)" and log: "logs fid = pre @ es"
    and at: "comp_at fid pre es (db_indices (cc_db c)) n (cc_pc c t)"
    and step: "conc_step P cap io (\<lambda>_ _. False) c c'" "cc_pc c' t \<noteq> cc_pc c t" "cc_pc c t \<noteq> Idle"
  shows "\<exists>n'. n' < n \<and> comp_at fid pre es (db_indices (cc_db c')) n' (cc_pc c' t)"
proof -
  have ok: "db_ok P cap logs (cc_db c)" "records_from P A logs (cc_db c)"
    and pcs: "pc_ok P cap A logs (cc_db c) (cc_pc c t)" using inv by (simp_all add: conc_inv_def)
  note idx = db_okD(2) [OF ok(1)]
  from step(1) show ?thesis
  proof (cases rule: conc_step.cases)
    case (comp_check u fid' off e)
    then have u: "u = t" using step(2) by (cases "u = t") auto
    then obtain pre' where p: "fid' = fid" "n = 4 * length es + 4" "pre = pre' @ [e]" "unat off = log_size pre'"
      "moved_before fid (log_size pre') (db_indices (cc_db c))"
      using at comp_check(2) by (auto simp: comp_at_def)
    show ?thesis
    proof (cases "db_compact_check fid off e (cc_db c)")
      case True
      then show ?thesis using comp_check(1) u p by (intro exI [of _ "4 * length es + 3"]) (auto simp: comp_at_def)
    next
      case False
      have "logs fid = pre' @ e # es" using log p(3) by simp
      then have "moved_before fid (log_size (pre' @ [e])) (db_indices (cc_db c))"
      proof (rule moved_before_skip [OF idx _ p(5)])
        fix d
        assume d: "db_indices (cc_db c) (re_key e) = Some d" "re_type e = kSet" "unat (loc_offset (dir_loc d)) = log_size pre'"
        then have "loc_offset (dir_loc d) = off" using p(4) d(3) by (metis of_nat_unat ucast_id)
        then show "loc_id (dir_loc d) \<noteq> fid"
          using False d(1) by (cases "dir_loc d") (auto simp: db_compact_check_def)
      qed
      then show ?thesis using comp_check(1) u p False by (intro exI [of _ "4 * length es + 1"]) (simp add: comp_at_def)
    qed
  next
    case (comp_append u e loc fm)
    then have u: "u = t" using step(2) by (cases "u = t") auto
    have "db_active (cc_db c) \<le> loc_id loc"
      using pcs comp_append(2) u by (intro append_active [OF P io ok _ _ _ _ comp_append(3,4)]) (simp_all add: pc_ok_def)
    then have "fid < loc_id loc" using fid by simp
    then show ?thesis using at comp_append(1,2) u by (intro exI [of _ "4 * length es + 2"]) (simp add: comp_at_def)
  next
    case (comp_fail u e st loc fm)
    then show ?thesis using conc_append_kOk [OF P io inv comp_fail(3) _ comp_fail(4)] by blast
  next
    case (put_fail u key val st loc fm)
    then show ?thesis using conc_append_kOk [OF P io inv put_fail(3) _ put_fail(4)] by blast
  next
    case (comp_update u e loc)
    then have u: "u = t" using step(2) by (cases "u = t") auto
    then obtain pre' where p: "fid < loc_id loc" "n = 4 * length es + 2" "pre = pre' @ [e]"
      "moved_before fid (log_size pre') (db_indices (cc_db c))" using at comp_update(2) by (auto simp: comp_at_def)
    let ?s = "db_compact_update e loc (cc_db c)"
    have e: "re_type e = kSet" "record_at logs (cc_db c) loc e" using pcs comp_update(2) u by (simp_all add: pc_ok_def)
    have mb: "moved_before fid (log_size pre') (db_indices ?s)"
      by (rule moved_before_step [OF p(4)])
        (use p(1) in \<open>auto simp: db_compact_update_simps split: option.splits if_splits\<close>)
    have log': "logs fid = pre' @ e # es" using log p(3) by simp
    have "loc_id (dir_loc d) \<noteq> fid" if "db_indices ?s (re_key e) = Some d" for d
      using that p(1) location_before [of "dir_loc d" loc]
      by (auto simp: db_compact_update_simps split: option.splits if_splits)
    from moved_before_skip [OF db_okD(2) [OF conc_compact_update [OF ok(1) e]] log' mb] this
    have "moved_before fid (log_size (pre' @ [e])) (db_indices ?s)" by blast
    then show ?thesis using comp_update(1) u p by (intro exI [of _ "4 * length es + 1"]) (simp add: comp_at_def)
  next
    case (put_append u key val e loc fm)
    then have "u = t" using step(2) by (cases "u = t") auto
    then show ?thesis using at put_append(2) by (simp add: comp_at_def)
  next
    case (put_index u key val e loc)
    then have "u = t" using step(2) by (cases "u = t") auto
    then show ?thesis using at put_index(2) by (simp add: comp_at_def)
  next
    case (comp_read u)
    then have "u = t" using step(2) by (cases "u = t") auto
    then show ?thesis using comp_read(2) step(3) by simp
  qed simp
qed

text \<open>Steps that leave the files and the index alone.\<close>

lemma conc_inv_db:
  assumes inv: "conc_inv P cap A logs c" and ok: "db_ok P cap logs s" and s: "db_files s = db_files (cc_db c)"
    "db_options s = db_options (cc_db c)" and pc: "pc_ok P cap A logs s pc"
  shows "conc_inv P cap A logs (cc_goto t pc s c)"
proof -
  have "records_from P A logs s"
    using inv s db_value_cong [OF s(2), of P] by (simp add: conc_inv_def records_from_def)
  then show ?thesis
    by (rule conc_inv_goto [OF inv ok _ s(2) _ pc]) (use s(1) in \<open>simp add: record_at_def\<close>)
qed

lemma cc_goto_same: "cc_pc c t = pc \<Longrightarrow> cc_goto t pc s c = c\<lparr>cc_db := s\<rparr>"
  by (simp add: cc_goto_def fun_upd_idem)

text \<open>A round begins: the iterator delivers the next record of the file, or it is at its end.\<close>

lemma comp_next:
  assumes P: "pedrolib_ok P" and ok: "db_ok P cap logs s" and on: "file_on P cap fid (ri_file it) s"
    and log: "logs fid = pre @ es" "log_size (logs fid) < cap"
    and at: "ri_at P (rf_ops (fm_fs (db_fm s))) it (db_buf s) (log_size pre)"
    and v: "ri_Valid P (rf_ops (fm_fs (db_fm s))) it (db_buf s) = Some (b, it1, buf)"
  shows "if b then (\<exists>es'. es = fst (ri_Next it1) # es' \<and> unat (ri_GetOffset it1) = log_size pre
     \<and> record_at logs s (Location fid (ri_GetOffset it1)) (fst (ri_Next it1))
     \<and> ri_file (snd (ri_Next it1)) = ri_file it
     \<and> ri_at P (rf_ops (fm_fs (db_fm s))) (snd (ri_Next it1)) buf (log_size (pre @ [fst (ri_Next it1)])))
     else es = []"
proof (cases es)
  case Nil
  then have "ri_at P (rf_ops (fm_fs (db_fm s))) it (db_buf s) (log_size (logs fid))" using at log by simp
  from compact_end [OF P ok on this] v have "\<not> b" by auto
  then show ?thesis using Nil by simp
next
  case (Cons e es')
  have log': "logs fid = pre @ e # es'" using log(1) Cons by simp
  from compact_next [OF P ok on log' log(2) at refl] v have w: "b" "ri_index it1 = log_size pre"
    "fst (ri_Next it1) = e" "ri_file (snd (ri_Next it1)) = ri_file it"
    "ri_at P (rf_ops (fm_fs (db_fm s))) (snd (ri_Next it1)) buf (log_size (pre @ [e]))" by auto
  have fid: "fid \<in> set (db_files s)" using on by (simp add: file_on_def)
  have off: "unat (ri_GetOffset it1) = log_size pre"
    using appended_log_bound(1,2) [OF db_okD(1) [OF ok], of fid] fid log' w(2) by (simp add: ri_GetOffset_def db_files_def)
  have "log_at (logs fid) (unat (ri_GetOffset it1)) = Some e" unfolding off log' log_at_split by auto
  then show ?thesis using w off fid Cons by (simp add: record_at_def)
qed

definition comp_next_inv where
  "comp_next_inv P cap A fid t all n logs c y \<longleftrightarrow> (\<exists>logs' n'. n' < n
     \<and> comp_inv P cap A fid t all logs' n' (fst y) (snd y)
     \<and> unat (db_active (cc_db (snd y))) \<le> Suc (unat (db_active (cc_db c)))
     \<and> db_abs P logs' (cc_db (snd y)) = conc_effect P c t (db_abs P logs (cc_db c))
     \<and> (fst y = CompDone \<longrightarrow> logs' = logs \<and> db_abs P logs (cc_db (snd y)) = db_abs P logs (cc_db c)))"

text \<open>As long as the system calls work, the compaction does not give up.\<close>

lemma append_fails_not:
  assumes P: "pedrolib_ok P" and io: "io_good io" and inv: "conc_inv P cap A logs c"
    and step: "conc_step P cap io client c c'" "cc_pc c' t \<noteq> cc_pc c t"
  shows "\<not> append_fails P cap io c t"
  using step(1)
proof (cases rule: conc_step.cases)
  case (comp_fail u e st loc fm)
  then show ?thesis using conc_append_kOk [OF P io inv comp_fail(3) _ comp_fail(4)] by blast
next
  case (put_fail u key val st loc fm)
  then show ?thesis using conc_append_kOk [OF P io inv put_fail(3) _ put_fail(4)] by blast
next
  case (put_begin u) then show ?thesis using step(2) by (cases "u = t") (auto simp: append_fails_def)
next
  case (put_append u) then show ?thesis using step(2) by (cases "u = t") (auto simp: append_fails_def)
next
  case (put_index u) then show ?thesis using step(2) by (cases "u = t") (auto simp: append_fails_def)
next
  case (comp_read u) then show ?thesis using step(2) by (cases "u = t") (auto simp: append_fails_def)
next
  case (comp_check u) then show ?thesis using step(2) by (cases "u = t") (auto simp: append_fails_def)
next
  case (comp_append u) then show ?thesis using step(2) by (cases "u = t") (auto simp: append_fails_def)
next
  case (comp_update u) then show ?thesis using step(2) by (cases "u = t") (auto simp: append_fails_def)
qed

lemma conc_write_Idle: "cc_pc c t = Idle \<Longrightarrow> conc_effect P c t m = m"
  by (simp add: conc_write_def)

text \<open>Steps that leave the index and the records alone leave the map alone.\<close>

lemma db_abs_same:
  "db_indices s' = db_indices s \<Longrightarrow> db_options s' = db_options s \<Longrightarrow> db_abs P logs s' = db_abs P logs s"
  using db_value_cong [of s' s P] by (simp add: db_abs_def [abs_def] cong: option.case_cong)

lemma comp_inv_own:
  assumes P: "pedrolib_ok P" and io: "io_good io" and full: "log_size all < cap"
    and inv: "comp_inv P cap A fid t all logs n k c" and step: "comp_own P cap io fid t (k, c) y"
  shows "comp_next_inv P cap A fid t all n logs c y"
proof -
  have cinv: "conc_inv P cap A logs c" and ok: "db_ok P cap logs (cc_db c)" and av: "\<And>u. avoids fid (cc_pc c u)"
    and noread: "\<And>u off e. u \<noteq> t \<Longrightarrow> cc_pc c u \<noteq> CompCheck fid off e"
    using inv by (simp_all add: comp_inv_def conc_inv_def)
  note k = db_okD [OF ok]
  have fid: "fid < db_active (cc_db c)" by (rule comp_inv_file(1) [OF inv])
  from step show ?thesis
  proof (cases rule: comp_own.cases)
    case refuse
    then show ?thesis using inv by (simp add: comp_inv_def)
  next
    case (open_fail st f fm)
    then have "fid \<in> set (mm_files (fm_meta (db_fm (cc_db c))))" using inv by (simp add: comp_inv_def db_files_def)
    from fm_AcquireDataFile_ok [OF P k(1) io this] open_fail(4,5) show ?thesis by auto
  next
    case (give_up c' it)
    then show ?thesis using append_fails_not [OF P io cinv give_up(4,5)] by blast
  next
    case (open_file f fm)
    then have [simp]: "k = CompStart" by simp
    have i: "fid \<in> set (db_files (cc_db c))" "logs fid = all" "cc_pc c t = Idle" "n = 4 * length all + 3"
      using inv open_file(1) by (simp_all add: comp_inv_def)
    have d: "disk_ok P cap logs (fm_fs (db_fm (cc_db c))) (fm_meta (db_fm (cc_db c)))" "cache_ok P cap (db_fm (cc_db c))"
      using k(1) by (simp_all add: fm_ok_def)
    from fm_AcquireDataFile_disk [OF d P io] i(1) fid open_file(4) obtain oc where f:
      "fm = (db_fm (cc_db c))\<lparr>fm_open_files := oc\<rparr>" "cache_ok P cap fm"
      "fs_links (fm_fs (db_fm (cc_db c))) (mm_GetDataFilePath P (fm_meta (db_fm (cc_db c))) fid) = Some (rf_ino f)"
      "rf_length f = cap" by (fastforce simp: db_files_def db_active_def)
    let ?s = "(cc_db c)\<lparr>db_fm := fm\<rparr>"
    have "fm_ok P cap logs fm" using fm_ok_open_files [OF k(1)] f(1,2) by simp
    then have ok': "db_ok P cap logs ?s"
      using db_ok_reads [OF ok, of oc "db_read_cache (cc_db c)" "db_buf (cc_db c)"] k(4) f(1) by simp
    have "conc_inv P cap A logs (c\<lparr>cc_db := ?s\<rparr>)"
      using conc_inv_db [OF cinv ok', of Idle t] i(3) f(1) cc_goto_same [of c t Idle ?s] by (simp add: db_files_def pc_ok_def)
    then have "comp_inv P cap A fid t all logs (4 * length all + 2) (CompOpened f) (c\<lparr>cc_db := ?s\<rparr>)"
      using av noread i fid f by (simp add: comp_inv_def file_on_def db_files_def db_active_def)
    moreover have "db_abs P logs ?s = conc_effect P c t (db_abs P logs (cc_db c))"
      using conc_write_Idle [OF i(3)] db_abs_same [of ?s "cc_db c" P logs] by simp
    ultimately show ?thesis using open_file(2) i(4) f(1)
      unfolding comp_next_inv_def by (intro exI [of _ logs] exI [of _ "4 * length all + 2"]) (simp add: db_active_def)
  next
    case (mark f)
    then have [simp]: "k = CompOpened f" by simp
    have i: "file_on P cap fid f (cc_db c)" "logs fid = all" "cc_pc c t = Idle" "n = 4 * length all + 2"
      using inv mark(1) by (simp_all add: comp_inv_def)
    let ?s = "set_file_state fid (file_state_of (cc_db c) fid\<lparr>compact_state := kCompacting\<rparr>) (cc_db c)"
    let ?it = "ri_new (rf_ops (fm_fs (db_fm (cc_db c)))) f"
    have "conc_inv P cap A logs (c\<lparr>cc_db := ?s\<rparr>)"
      using conc_inv_db [OF cinv, of ?s Idle t] ok i(3) cc_goto_same [of c t Idle ?s] by (simp add: db_files_def pc_ok_def)
    moreover have "14 < cap" using k(1) unfolding fm_ok_def disk_ok_def by blast
    then have "ri_at P (rf_ops (fm_fs (db_fm (cc_db c)))) ?it (db_buf (cc_db c)) (log_size [])"
      using ri_at_new [of "rf_ops (fm_fs (db_fm (cc_db c)))" f P "db_buf (cc_db c)"] file_on_log(3) [OF P ok i(1)] by simp
    moreover have "comp_at fid [] all (db_indices ?s) (4 * length all + 1) Idle"
      by (simp add: comp_at_def moved_before_def)
    moreover have "file_on P cap fid (ri_file ?it) ?s"
      using i(1) by (simp add: ri_new_def file_on_def db_files_def db_active_def)
    ultimately have "comp_inv P cap A fid t all logs (4 * length all + 1) (CompLoop ?it) (c\<lparr>cc_db := ?s\<rparr>)"
      by (intro comp_inv_loop [where pre = "[]" and es = all]) (use av noread i(2,3) in simp_all)
    moreover have "db_abs P logs ?s = conc_effect P c t (db_abs P logs (cc_db c))"
      using conc_write_Idle [OF i(3)] db_abs_same [of ?s "cc_db c" P logs] by simp
    ultimately show ?thesis using mark(2) i(4)
      unfolding comp_next_inv_def by (intro exI [of _ logs] exI [of _ "4 * length all + 1"]) (simp add: db_active_def)
  next
    case (next_record it it1 buf e it2)
    then have [simp]: "k = CompLoop it" by simp
    from inv obtain pre es where p: "file_on P cap fid (ri_file it) (cc_db c)" "logs fid = all" "all = pre @ es"
      "comp_at fid pre es (db_indices (cc_db c)) n Idle" "cc_pc c t = Idle"
      "ri_at P (rf_ops (fm_fs (db_fm (cc_db c)))) it (db_buf (cc_db c)) (log_size pre)"
      using next_record(3) by (auto simp: comp_inv_def)
    have log: "logs fid = pre @ es" "log_size (logs fid) < cap" using p(2,3) full by simp_all
    have v: "ri_Valid P (rf_ops (fm_fs (db_fm (cc_db c)))) it (db_buf (cc_db c)) = Some (True, it1, buf)"
      using next_record(4) by simp
    from comp_next [OF P ok p(1) log p(6) v] next_record(5) obtain es' where e: "es = e # es'"
      "unat (ri_GetOffset it1) = log_size pre" "record_at logs (cc_db c) (Location fid (ri_GetOffset it1)) e"
      "ri_file it2 = ri_file it" "ri_at P (rf_ops (fm_fs (db_fm (cc_db c)))) it2 buf (log_size (pre @ [e]))" by auto
    let ?s = "(cc_db c)\<lparr>db_buf := buf\<rparr>" and ?pc = "if re_type e \<noteq> kSet then Idle else CompCheck fid (ri_GetOffset it1) e"
    let ?n = "4 * length es' + (if re_type e \<noteq> kSet then 1 else 4)"
    have mb: "moved_before fid (log_size pre) (db_indices (cc_db c))" "n = 4 * length es + 1"
      using p(4) by (simp_all add: comp_at_def)
    have "comp_at fid (pre @ [e]) es' (db_indices ?s) ?n ?pc"
    proof (cases "re_type e = kSet")
      case False
      have "logs fid = pre @ e # es'" using log(1) e(1) by simp
      then have "moved_before fid (log_size (pre @ [e])) (db_indices (cc_db c))"
        by (rule moved_before_skip [OF k(2) _ mb(1)]) (use False in simp)
      then show ?thesis using False by (simp add: comp_at_def)
    qed (use e(2) mb(1) in \<open>simp add: comp_at_def\<close>)
    moreover have "conc_inv P cap A logs (cc_goto t ?pc ?s c)"
      by (rule conc_inv_db [OF cinv]) (use ok e(3) in \<open>simp_all add: pc_ok_def record_at_def\<close>)
    ultimately have "comp_inv P cap A fid t all logs ?n (CompLoop it2) (cc_goto t ?pc ?s c)"
      by (intro comp_inv_loop [where pre = "pre @ [e]" and es = es'])
        (use av noread p(1-3) e(1,4,5) in \<open>simp_all add: avoids_def\<close>)
    moreover have "db_abs P logs ?s = conc_effect P c t (db_abs P logs (cc_db c))"
      using conc_write_Idle [OF p(5)] db_abs_same [of ?s "cc_db c" P logs] by simp
    ultimately show ?thesis using next_record(2) mb(2) e(1)
      unfolding comp_next_inv_def by (intro exI [of _ logs] exI [of _ ?n]) simp
  next
    case (body c' it)
    then have [simp]: "k = CompLoop it" by simp
    from inv obtain pre es where p: "file_on P cap fid (ri_file it) (cc_db c)" "logs fid = all" "all = pre @ es"
      "comp_at fid pre es (db_indices (cc_db c)) n (cc_pc c t)"
      "ri_at P (rf_ops (fm_fs (db_fm (cc_db c)))) it (db_buf (cc_db c)) (log_size pre)" by (auto simp: comp_inv_def)
    have st: "conc_step P cap io (\<lambda>_ _. False) c c'" "cc_pc c' t \<noteq> cc_pc c t" "cc_pc c t \<noteq> Idle"
      using body(3-5) by simp_all
    from conc_step_inv [OF P io cinv _ st(1)] obtain logs' where
      l: "conc_inv P cap A logs' c'" "conc_keeps P logs (cc_db c) logs' (cc_db c')" by blast
    have log: "logs fid = pre @ es" using p(2,3) by simp
    from comp_at_body [OF P io cinv av fid log p(4) st] obtain n' where
      n: "n' < n" "comp_at fid pre es (db_indices (cc_db c')) n' (cc_pc c' t)" by blast
    have ok': "db_ok P cap logs' (cc_db c')" using l(1) by (simp add: conc_inv_def)
    have "avoids fid (cc_pc c' u)" for u by (rule conc_step_avoids [OF P io cinv st(1) fid av])
    moreover have "cc_pc c' u \<noteq> CompCheck fid off e" if "u \<noteq> t" for u off e
      using conc_step_pc [OF st(1,2) that] noread [OF that] by simp
    ultimately have "comp_inv P cap A fid t all logs' n' (CompLoop it) c'"
      using l(1) n(2) file_on_keeps [OF p(1) l(2)] p(2,3) ri_at_keeps [OF P ok ok' p(1) l(2) p(5)]
      by (intro comp_inv_loop [where pre = pre and es = es]) simp_all
    then show ?thesis using body(2) n(1) conc_keepsD(2) [OF l(2)] conc_step_writes [OF cinv l(2) st(1,2) P io]
      unfolding comp_next_inv_def by (intro exI [of _ logs'] exI [of _ n']) simp
  next
    case (remove it it1 buf)
    then have [simp]: "k = CompLoop it" by simp
    from inv obtain pre es where p: "file_on P cap fid (ri_file it) (cc_db c)" "logs fid = all" "all = pre @ es"
      "comp_at fid pre es (db_indices (cc_db c)) n Idle" "cc_pc c t = Idle"
      "ri_at P (rf_ops (fm_fs (db_fm (cc_db c)))) it (db_buf (cc_db c)) (log_size pre)"
      using remove(3) by (auto simp: comp_inv_def)
    have log: "logs fid = pre @ es" "log_size (logs fid) < cap" using p(2,3) full by simp_all
    have v: "ri_Valid P (rf_ops (fm_fs (db_fm (cc_db c)))) it (db_buf (cc_db c)) = Some (False, it1, buf)"
      using remove(4) by simp
    from comp_next [OF P ok p(1) log p(6) v] have es: "es = []" by simp
    let ?s = "(cc_db c)\<lparr>db_buf := buf\<rparr>"
    let ?r = "comp_remove P io fid ?s"
    have gone: "\<forall>k d. db_indices ?s k = Some d \<longrightarrow> loc_id (dir_loc d) \<noteq> fid"
      using moved_before_end [OF k(2), of fid] p(4) log(1) es by (simp add: comp_at_def)
    have fid': "fid \<noteq> db_active ?s" using fid by auto
    have "cc_pc c u \<noteq> CompCheck fid off e" for u off e using noread [of u off e] p(5) by (cases "u = t") auto
    note ci = conc_inv_removed [OF P io cinv refl fid' gone av this]
    have "db_ok P cap logs ?s" using ok by simp
    note r = comp_remove_ok [OF P io this fid' gone]
    have "comp_inv P cap A fid t all logs 0 CompDone (c\<lparr>cc_db := ?r\<rparr>)"
      using ci av noread r(2,3) fid p(5) by (simp add: comp_inv_def)
    moreover have "db_abs P logs ?r = conc_effect P c t (db_abs P logs (cc_db c))"
      using conc_write_Idle [OF p(5)] db_abs_same [of ?s "cc_db c" P logs] r(5) by simp
    ultimately show ?thesis using remove(2) p(4) r(3,5)
      unfolding comp_next_inv_def by (intro exI [of _ logs] exI [of _ "0 :: nat"]) (simp add: comp_at_def)
  qed
qed

section \<open>Runs\<close>

lemma comp_run_inv:
  assumes P: "pedrolib_ok P" and io: "io_good io" and small: "client_small P A client" and full: "log_size all < cap"
    and run: "comp_run P cap io client fid t x n y" and inv: "comp_inv P cap A fid t all logs m (fst x) (snd x)"
  shows "\<exists>logs' m'. m' + n \<le> m \<and> comp_inv P cap A fid t all logs' m' (fst y) (snd y)"
  using run
proof (induction rule: comp_run.induct)
  case start
  show ?case using inv by (intro exI [of _ logs] exI [of _ m]) simp
next
  case (own n y z)
  then obtain logs1 m1 where i: "m1 + n \<le> m" "comp_inv P cap A fid t all logs1 m1 (fst y) (snd y)" by blast
  have "comp_own P cap io fid t (fst y, snd y) z" using own.hyps(2) by simp
  from comp_inv_own [OF P io full i(2) this] obtain logs2 m2 where
    "m2 < m1" "comp_inv P cap A fid t all logs2 m2 (fst z) (snd z)" unfolding comp_next_inv_def by blast
  then show ?case using i(1) by (intro exI [of _ logs2] exI [of _ m2]) simp
next
  case (other n y z)
  then obtain logs1 m1 where i: "m1 + n \<le> m" "comp_inv P cap A fid t all logs1 m1 (fst y) (snd y)" by blast
  have "comp_other P cap io client fid t (fst y, snd y) (fst z, snd z)" using other.hyps(2) by simp
  from comp_inv_other [OF P io small i(2) this] i(1) show ?case by auto
qed

text \<open>While file numbers are left, the compaction is never stuck.\<close>

lemma comp_progress:
  assumes P: "pedrolib_ok P" and io: "io_good io" and full: "log_size all < cap"
    and inv: "comp_inv P cap A fid t all logs n k c" and k: "k \<noteq> CompDone" and more: "db_active (cc_db c) \<noteq> -1"
  shows "\<exists>y. comp_own P cap io fid t (k, c) y"
proof -
  have cinv: "conc_inv P cap A logs c" and ok: "db_ok P cap logs (cc_db c)" and pcs: "pc_ok P cap A logs (cc_db c) (cc_pc c t)"
    using inv by (simp_all add: comp_inv_def conc_inv_def)
  note d = db_okD [OF ok]
  show ?thesis
  proof (cases k)
    case CompStart
    then have fid: "fid \<in> set (mm_files (fm_meta (db_fm (cc_db c))))" "\<not> db_readonly (cc_db c)"
      using inv by (simp_all add: comp_inv_def db_files_def)
    from fm_AcquireDataFile_ok [OF P d(1) io, of fid] fid(1) obtain f oc where
      "fm_AcquireDataFile P io fid (db_fm (cc_db c)) = (kOk, Some f, (db_fm (cc_db c))\<lparr>fm_open_files := oc\<rparr>)" by blast
    from open_file [OF fid(2) this] CompStart show ?thesis by blast
  next
    case (CompOpened f)
    then show ?thesis using mark by blast
  next
    case (CompLoop it)
    from inv CompLoop obtain pre es where p: "file_on P cap fid (ri_file it) (cc_db c)" "logs fid = all" "all = pre @ es"
      "comp_at fid pre es (db_indices (cc_db c)) n (cc_pc c t)"
      "ri_at P (rf_ops (fm_fs (db_fm (cc_db c)))) it (db_buf (cc_db c)) (log_size pre)" by (auto simp: comp_inv_def)
    have body: "\<exists>y. comp_own P cap io fid t (k, c) y"
      if "conc_step P cap io (\<lambda>_ _. False) c (cc_goto t pc s c)" "pc \<noteq> cc_pc c t" "cc_pc c t \<noteq> Idle" for pc s
      using body [OF that(3,1) _ append_fails_not [OF P io cinv that(1)], where it = it and fid = fid] that(2) CompLoop
      by auto
    show ?thesis
    proof (cases "cc_pc c t")
      case Idle
      obtain b it1 buf where v: "ri_Valid P (rf_ops (fm_fs (db_fm (cc_db c)))) it (db_buf (cc_db c)) = Some (b, it1, buf)"
      proof (cases es)
        case Nil
        then have "ri_at P (rf_ops (fm_fs (db_fm (cc_db c)))) it (db_buf (cc_db c)) (log_size (logs fid))" using p by simp
        from compact_end [OF P ok p(1) this] that show thesis by blast
      next
        case (Cons e es')
        then have "logs fid = pre @ e # es'" "log_size (logs fid) < cap" using p(2,3) full by simp_all
        from compact_next [OF P ok p(1) this p(5) refl] that show thesis by blast
      qed
      obtain e it2 where "ri_Next it1 = (e, it2)" by fastforce
      then show ?thesis
        using v next_record [OF Idle, of P it it1 buf e it2 cap io fid] remove [OF Idle, of P it it1 buf cap io fid] CompLoop
        by (cases b) auto
    next
      case (CompCheck fid' off e)
      show ?thesis by (rule body [OF comp_check [OF CompCheck]]) (simp_all add: CompCheck)
    next
      case (CompAppend e)
      then have e: "rec_wf e" "rec_size e \<le> cap" "rec_validate P e" using pcs by (simp_all add: pc_ok_def)
      obtain loc fm where a: "fm_Append P cap io e (db_fm (cc_db c)) = Some (kOk, loc, fm)"
        by (rule conc_append_ex [OF P io ok e more]) (rule that)
      show ?thesis by (rule body [OF comp_append [OF CompAppend more a]]) (simp_all add: CompAppend)
    next
      case (CompUpdate e loc)
      show ?thesis by (rule body [OF comp_update [OF CompUpdate]]) (simp_all add: CompUpdate)
    qed (use p(4) in \<open>simp_all add: comp_at_def\<close>)
  qed (use k in simp)
qed

section \<open>The sequential compaction is one of the runs\<close>

lemma comp_own_room:
  assumes P: "pedrolib_ok P" and io: "io_good io" and full: "log_size all < cap"
    and inv: "comp_inv P cap A fid t all logs n k c" and step: "comp_own P cap io fid t (k, c) (k', c')"
    and room: "unat (db_active (cc_db c)) + n < 2 ^ 32 - 1"
  obtains logs' n' where "n' < n" "comp_inv P cap A fid t all logs' n' k' c'" "unat (db_active (cc_db c')) + n' < 2 ^ 32 - 1"
proof -
  from comp_inv_own [OF P io full inv step] obtain logs' n' where "n' < n"
    "comp_inv P cap A fid t all logs' n' k' c'" "unat (db_active (cc_db c')) \<le> Suc (unat (db_active (cc_db c)))"
    unfolding comp_next_inv_def by auto
  then show thesis using that [of n' logs'] room by simp
qed

lemma conc_update_eq: "cc_pc c' = cc_pc c \<Longrightarrow> c'\<lparr>cc_db := s\<rparr> = c\<lparr>cc_db := s\<rparr>" for c c' :: "'a conc"
  by (cases c; cases c') simp

lemma comp_own_loop:
  assumes P: "pedrolib_ok P" and io: "io_good io" and full: "log_size all < cap"
  shows "comp_inv P cap A fid t all logs n (CompLoop it) c \<Longrightarrow> cc_pc c t = Idle \<Longrightarrow>
    unat (db_active (cc_db c)) + n < 2 ^ 32 - 1 \<Longrightarrow>
    \<exists>s'. db_compact_loop P cap io fid it (cc_db c) = Some (True, s')
      \<and> (comp_own P cap io fid t)\<^sup>*\<^sup>* (CompLoop it, c) (CompDone, c\<lparr>cc_db := comp_remove P io fid s'\<rparr>)"
proof (induction n arbitrary: logs it c rule: less_induct)
  case (less n)
  let ?s = "cc_db c" and ?own = "comp_own P cap io fid t"
  let ?goal = "\<lambda>it c. \<exists>s'. db_compact_loop P cap io fid it (cc_db c) = Some (True, s')
      \<and> ?own\<^sup>*\<^sup>* (CompLoop it, c) (CompDone, c\<lparr>cc_db := comp_remove P io fid s'\<rparr>)"
  have more: "db_active x \<noteq> -1" if "unat (db_active x) + m < 2 ^ 32 - 1" for x :: "'a db" and m
    using that by (auto simp: unsigned_minus_1_eq_mask mask_eq_exp_minus_1)
  from comp_progress [OF P io full less.prems(1) _ more [OF less.prems(3)]] obtain y where "?own (CompLoop it, c) y" by blast
  then show ?case
  proof (cases rule: comp_own.cases)
    case (remove it1 buf)
    then have "db_compact_loop P cap io fid it ?s = Some (True, ?s\<lparr>db_buf := buf\<rparr>)"
      by (subst db_compact_loop.simps) simp
    moreover have "?own (CompLoop it, c) (CompDone, c\<lparr>cc_db := comp_remove P io fid (?s\<lparr>db_buf := buf\<rparr>)\<rparr>)"
      by (rule comp_own.remove [OF remove(2,3)])
    ultimately show ?thesis by blast
  next
    case (body c')
    then show ?thesis using less.prems(2) by simp
  next
    case (give_up c')
    then show ?thesis using less.prems(2) by (simp add: append_fails_def)
  next
    case (next_record it1 buf e it2)
    let ?s1 = "?s\<lparr>db_buf := buf\<rparr>" and ?off = "ri_GetOffset it1"
    let ?c1 = "cc_goto t (if re_type e \<noteq> kSet then Idle else CompCheck fid ?off e) ?s1 c"
    have s1: "?own (CompLoop it, c) (CompLoop it2, ?c1)" by (rule comp_own.next_record [OF next_record(2-4)])
    obtain logs1 n1 where i1: "n1 < n" "comp_inv P cap A fid t all logs1 n1 (CompLoop it2) ?c1"
      "unat (db_active (cc_db ?c1)) + n1 < 2 ^ 32 - 1"
      by (rule comp_own_room [OF P io full less.prems(1) s1 less.prems(3)]) (rule that)
    have loop: "db_compact_loop P cap io fid it ?s =
       (if re_type e \<noteq> kSet \<or> \<not> db_compact_check fid ?off e ?s1 then db_compact_loop P cap io fid it2 ?s1
        else case fm_Append P cap io e (db_fm ?s1) of None \<Rightarrow> None
         | Some (status, loc, fm) \<Rightarrow> if status \<noteq> kOk then Some (False, ?s1\<lparr>db_fm := fm\<rparr>)
             else db_compact_loop P cap io fid it2 (db_compact_update e loc (?s1\<lparr>db_fm := fm\<rparr>)))"
      using next_record(3,4) by (subst db_compact_loop.simps) (auto simp: Let_def split: option.splits)
    have idle: "(cc_pc c)(t := Idle) = cc_pc c" using less.prems(2) by (simp add: fun_upd_idem)
    have finish: "?goal it c"
      if "?own\<^sup>*\<^sup>* (CompLoop it2, ?c1) (CompLoop it2, c')" "cc_pc c' = cc_pc c" "?goal it2 c'"
        "db_compact_loop P cap io fid it ?s = db_compact_loop P cap io fid it2 (cc_db c')" for c'
    proof -
      from that(3) obtain s' where s': "db_compact_loop P cap io fid it2 (cc_db c') = Some (True, s')"
        "?own\<^sup>*\<^sup>* (CompLoop it2, c') (CompDone, c'\<lparr>cc_db := comp_remove P io fid s'\<rparr>)" by blast
      have "?own\<^sup>*\<^sup>* (CompLoop it, c) (CompLoop it2, c')" by (rule converse_rtranclp_into_rtranclp [OF s1 that(1)])
      from rtranclp_trans [OF this s'(2)] show ?thesis
        unfolding conc_update_eq [OF that(2)] using s'(1) that(4) by (intro exI [of _ s']) simp
    qed
    show ?thesis
    proof (cases "re_type e = kSet")
      case False
      have g: "?goal it2 ?c1" by (rule less.IH [OF i1(1,2) _ i1(3)]) (use False in simp)
      show ?thesis by (rule finish [OF _ _ g]) (use False loop idle in simp_all)
    next
      case True
      let ?c2 = "cc_goto t (if db_compact_check fid ?off e ?s1 then CompAppend e else Idle) ?s1 ?c1"
      have pc1: "cc_pc ?c1 t = CompCheck fid ?off e" using True by simp
      from comp_check [OF pc1, of P cap io "\<lambda>_ _. False"] have "conc_step P cap io (\<lambda>_ _. False) ?c1 ?c2" by simp
      from comp_own.body [OF _ this, of t fid it2] have s2: "?own (CompLoop it2, ?c1) (CompLoop it2, ?c2)" using pc1 by (simp add: append_fails_def)
      obtain logs2 n2 where i2: "n2 < n1" "comp_inv P cap A fid t all logs2 n2 (CompLoop it2) ?c2"
        "unat (db_active (cc_db ?c2)) + n2 < 2 ^ 32 - 1"
        by (rule comp_own_room [OF P io full i1(2) s2 i1(3)]) (rule that)
      show ?thesis
      proof (cases "db_compact_check fid ?off e ?s1")
        case False
        have g: "?goal it2 ?c2" by (rule less.IH [OF _ i2(2) _ i2(3)]) (use False i1(1) i2(1) in simp_all)
        show ?thesis by (rule finish [OF r_into_rtranclp [of ?own, OF s2] _ g]) (use False loop idle in simp_all)
      next
        case check: True
        have pc2: "cc_pc ?c2 t = CompAppend e" using check by simp
        have "db_ok P cap logs2 (cc_db ?c2)" and pok: "pc_ok P cap A logs2 (cc_db ?c2) (cc_pc ?c2 t)"
          using comp_inv_file(2) [OF i2(2)] unfolding conc_inv_def by blast+
        then have ok2: "db_ok P cap logs2 ?s1" by simp
        have e: "rec_wf e" "rec_size e \<le> cap" "rec_validate P e" using pok unfolding pc2 by (simp_all add: pc_ok_def)
        have m2: "db_active ?s1 \<noteq> -1" using more [OF i2(3)] by simp
        obtain loc fm where a: "fm_Append P cap io e (db_fm ?s1) = Some (kOk, loc, fm)"
          by (rule conc_append_ex [OF P io ok2 e m2]) (rule that)
        let ?c3 = "cc_goto t (CompUpdate e loc) (?s1\<lparr>db_fm := fm\<rparr>) ?c2"
        let ?c4 = "cc_goto t Idle (db_compact_update e loc (?s1\<lparr>db_fm := fm\<rparr>)) ?c3"
        from comp_append [OF pc2, of P cap io loc fm "\<lambda>_ _. False"] a m2
        have "conc_step P cap io (\<lambda>_ _. False) ?c2 ?c3" by simp
        from comp_own.body [OF _ this, of t fid it2] have s3: "?own (CompLoop it2, ?c2) (CompLoop it2, ?c3)"
          using pc2 a by (simp add: append_fails_def)
        obtain logs3 n3 where i3: "n3 < n2" "comp_inv P cap A fid t all logs3 n3 (CompLoop it2) ?c3"
          "unat (db_active (cc_db ?c3)) + n3 < 2 ^ 32 - 1"
          by (rule comp_own_room [OF P io full i2(2) s3 i2(3)]) (rule that)
        have pc3: "cc_pc ?c3 t = CompUpdate e loc" by simp
        from comp_update [OF pc3, of P cap io "\<lambda>_ _. False"] have "conc_step P cap io (\<lambda>_ _. False) ?c3 ?c4" by simp
        from comp_own.body [OF _ this, of t fid it2] have s4: "?own (CompLoop it2, ?c3) (CompLoop it2, ?c4)"
          by (simp add: append_fails_def)
        obtain logs4 n4 where i4: "n4 < n3" "comp_inv P cap A fid t all logs4 n4 (CompLoop it2) ?c4"
          "unat (db_active (cc_db ?c4)) + n4 < 2 ^ 32 - 1"
          by (rule comp_own_room [OF P io full i3(2) s4 i3(3)]) (rule that)
        have g: "?goal it2 ?c4" by (rule less.IH [OF _ i4(2) _ i4(3)]) (use i1(1) i2(1) i3(1) i4(1) in simp_all)
        have "?own\<^sup>*\<^sup>* (CompLoop it2, ?c1) (CompLoop it2, ?c4)"
          using s2 s3 s4 by (meson rtranclp.rtrancl_into_rtrancl rtranclp.rtrancl_refl)
        then show ?thesis by (rule finish [OF _ _ g]) (use True check a loop idle in simp_all)
      qed
    qed
  qed
qed

lemma comp_own_file:
  assumes P: "pedrolib_ok P" and io: "io_good io" and full: "log_size all < cap"
    and inv: "comp_inv P cap A fid t all logs n CompStart c" and room: "unat (db_active (cc_db c)) + n < 2 ^ 32 - 1"
  shows "\<exists>s'. db_compact_file P cap io fid (cc_db c) = Some s'
     \<and> (comp_own P cap io fid t)\<^sup>*\<^sup>* (CompStart, c) (CompDone, c\<lparr>cc_db := s'\<rparr>)"
proof -
  let ?own = "comp_own P cap io fid t"
  have i: "fid \<in> set (mm_files (fm_meta (db_fm (cc_db c))))" "\<not> db_readonly (cc_db c)" "db_ok P cap logs (cc_db c)"
    using inv by (simp_all add: comp_inv_def conc_inv_def db_files_def)
  from fm_AcquireDataFile_ok [OF P db_okD(1) [OF i(3)] io, of fid] i(1) obtain f oc where
    f: "fm_AcquireDataFile P io fid (db_fm (cc_db c)) = (kOk, Some f, (db_fm (cc_db c))\<lparr>fm_open_files := oc\<rparr>)" by blast
  define s1 where "s1 = (cc_db c)\<lparr>db_fm := (db_fm (cc_db c))\<lparr>fm_open_files := oc\<rparr>\<rparr>"
  define s2 where "s2 = set_file_state fid (file_state_of s1 fid\<lparr>compact_state := kCompacting\<rparr>) s1"
  let ?c1 = "c\<lparr>cc_db := s1\<rparr>" and ?c2 = "c\<lparr>cc_db := s2\<rparr>" and ?it = "ri_new (rf_ops (fm_fs (db_fm s1))) f"
  have o1: "?own (CompStart, c) (CompOpened f, ?c1)" unfolding s1_def by (rule open_file [OF i(2) f])
  obtain logs1 n1 where i1: "n1 < n" "comp_inv P cap A fid t all logs1 n1 (CompOpened f) ?c1"
    "unat (db_active (cc_db ?c1)) + n1 < 2 ^ 32 - 1"
    by (rule comp_own_room [OF P io full inv o1 room]) (rule that)
  have o2: "?own (CompOpened f, ?c1) (CompLoop ?it, ?c2)"
    using mark [of P cap io fid t f ?c1] by (simp add: s2_def)
  obtain logs2 n2 where i2: "n2 < n1" "comp_inv P cap A fid t all logs2 n2 (CompLoop ?it) ?c2"
    "unat (db_active (cc_db ?c2)) + n2 < 2 ^ 32 - 1"
    by (rule comp_own_room [OF P io full i1(2) o2 i1(3)]) (rule that)
  have "cc_pc ?c2 t = Idle" using inv by (simp add: comp_inv_def)
  from comp_own_loop [OF P io full i2(2) this i2(3)] obtain s' where l:
    "db_compact_loop P cap io fid ?it s2 = Some (True, s')"
    "?own\<^sup>*\<^sup>* (CompLoop ?it, ?c2) (CompDone, c\<lparr>cc_db := comp_remove P io fid s'\<rparr>)" by auto
  have "db_compact_file P cap io fid (cc_db c) = Some (comp_remove P io fid s')"
    using i(2) f l(1) by (simp add: db_compact_file_def comp_remove_def s1_def s2_def Let_def)
  moreover have "?own\<^sup>*\<^sup>* (CompStart, c) (CompLoop ?it, ?c2)"
    using o1 o2 by (meson rtranclp.rtrancl_into_rtrancl rtranclp.rtrancl_refl)
  ultimately show ?thesis using rtranclp_trans [OF _ l(2)] by (intro exI [of _ "comp_remove P io fid s'"]) simp
qed

text \<open>
  Where a compaction may start: none of the other threads is between its append to the file and its
  update of the index, or holds a record that it has read from the file.
\<close>

definition comp_ready :: "file_id \<Rightarrow> nat \<Rightarrow> 'a conc \<Rightarrow> bool" where
  "comp_ready fid t c \<longleftrightarrow> fid \<in> set (db_files (cc_db c)) \<and> fid \<noteq> db_active (cc_db c) \<and> \<not> db_readonly (cc_db c)
     \<and> cc_pc c t = Idle \<and> (\<forall>u. avoids fid (cc_pc c u) \<and> (\<forall>off e. cc_pc c u \<noteq> CompCheck fid off e))"

lemma comp_inv_start:
  assumes inv: "conc_inv P cap A logs c" and c: "comp_ready fid t c"
  shows "comp_inv P cap A fid t (logs fid) logs (4 * length (logs fid) + 3) CompStart c"
proof -
  have "db_ok P cap logs (cc_db c)" using inv by (simp add: conc_inv_def)
  from active_files(3) [OF db_okD(1) [OF this], of fid] c have "fid < db_active (cc_db c)"
    by (simp add: comp_ready_def db_files_def db_active_def order.not_eq_order_implies_strict)
  then show ?thesis using inv c by (simp add: comp_inv_def comp_ready_def)
qed

lemma comp_own_run: "(comp_own P cap io fid t)\<^sup>*\<^sup>* x y \<Longrightarrow> \<exists>n. comp_run P cap io client fid t x n y"
  by (induction rule: rtranclp_induct) (blast intro: comp_run.intros)+

end
