(* ===== verification/ConcGet.thy ===== *)
theory ConcGet
  imports ConcCompact
begin

text \<open>
  Gets among other threads. \<^verbatim>\<open>HandleGet\<close> looks its key up under the lock of the database
  and reads the record after it has released it. As long as no file is removed, the value is the one
  that the key had at the lookup, whatever has been put or moved since; when a compaction
  removes the file in between, the get fails although the key has had its value all the time.
\<close>

section \<open>The two parts of a get\<close>

definition db_get_lookup :: "bytes \<Rightarrow> 'a db \<Rightarrow> (dir \<times> file_id) option" where
  "db_get_lookup key s = map_option (\<lambda>d. (d, db_max_file s)) (db_indices s key)"

definition db_get_rest ::
    "'a pedrolib \<Rightarrow> io \<Rightarrow> bool \<Rightarrow> dir \<times> file_id \<Rightarrow> 'a db \<Rightarrow> (status \<times> bytes option \<times> 'a db) option" where
  "db_get_rest P io use_read_cache x s =
     (let (d, max_file) = x;
          directly_read = (\<not> use_read_cache \<or> \<not> opt_cache_enable (db_options s) \<or> loc_id (dir_loc d) = max_file)
      in if directly_read then db_get_direct P io d s else db_get_cached P io d s)"

lemma db_HandleGet_parts:
  "db_HandleGet P io use_read_cache key s = (case db_get_lookup key s of
       None \<Rightarrow> Some (kNotFound, None, s) | Some x \<Rightarrow> db_get_rest P io use_read_cache x s)"
  by (simp add: db_HandleGet_def db_get_lookup_def db_get_rest_def split: option.split)

section \<open>Other threads in between\<close>

lemma conc_steps_keeps:
  assumes P: "pedrolib_ok P" and io: "io_good io" and small: "client_small P A client"
    and steps: "conc_steps P cap io client c c'" and inv: "conc_inv P cap A logs c"
  shows "\<exists>logs'. conc_inv P cap A logs' c' \<and> (\<forall>loc e. record_at logs (cc_db c) loc e \<longrightarrow> record_at logs' (cc_db c') loc e)
     \<and> db_active (cc_db c) \<le> db_active (cc_db c') \<and> db_options (cc_db c') = db_options (cc_db c)"
  using steps
proof (induction rule: rtranclp_induct)
  case base
  show ?case using inv by (intro exI [of _ logs]) simp
next
  case (step c1 c2)
  then obtain logs1 where l: "conc_inv P cap A logs1 c1"
    "\<forall>loc e. record_at logs (cc_db c) loc e \<longrightarrow> record_at logs1 (cc_db c1) loc e"
    "db_active (cc_db c) \<le> db_active (cc_db c1)" "db_options (cc_db c1) = db_options (cc_db c)" by blast
  from conc_step_inv [OF P io l(1) _ step(2)] small obtain logs2 where
    "conc_inv P cap A logs2 c2" "conc_keeps P logs1 (cc_db c1) logs2 (cc_db c2)" by blast
  then show ?case using l by (intro exI [of _ logs2]) (auto simp: conc_keeps_def)
qed

lemma db_get_rest_ok:
  assumes P: "pedrolib_ok P" and io: "io_good io" and small: "client_small P A client"
    and inv: "conc_inv P cap A logs c" and cur: "db_current (cc_db c)"
    and look: "db_get_lookup key (cc_db c) = Some x" and steps: "conc_steps P cap io client c c'"
  shows "\<exists>val s'. db_abs P logs (cc_db c) key = Some val
     \<and> db_get_rest P io use_read_cache x (cc_db c')
       = Some (if db_shadowed cap use_read_cache key (cc_db c) then (kCorruption, None, s') else (kOk, Some val, s'))
     \<and> db_reads (cc_db c') s'"
proof -
  let ?s = "cc_db c" and ?s' = "cc_db c'"
  have ok: "db_ok P cap logs ?s" using inv by (simp add: conc_inv_def)
  from look obtain d where d: "db_indices ?s key = Some d" "x = (d, db_max_file ?s)" by (auto simp: db_get_lookup_def)
  from index_okE [OF db_okD(2) [OF ok] d(1)] obtain e where e: "loc_id (dir_loc d) \<in> set (db_files ?s)"
    "log_at (logs (loc_id (dir_loc d))) (unat (loc_offset (dir_loc d))) = Some e" "dir_entry_size d = rec_sizeof e" .
  then have at: "record_at logs ?s (dir_loc d) e" by (simp add: record_at_def)
  note w = record_at_wf [OF ok at]
  from conc_steps_keeps [OF P io small steps inv] obtain logs' where l: "db_ok P cap logs' ?s'"
    "record_at logs' ?s' (dir_loc d) e" "db_active ?s \<le> db_active ?s'" "db_options ?s' = db_options ?s"
    using at unfolding conc_inv_def by blast
  have val: "db_value P ?s' e = db_value P ?s e" using db_value_cong [OF l(4), of P] by simp
  have sane: "db_sane P cap logs' ?s'" using l(1) by (simp add: db_ok_sane)
  have e': "loc_id (dir_loc d) \<in> set (db_files ?s')"
    "log_at (logs' (loc_id (dir_loc d))) (unat (loc_offset (dir_loc d))) = Some e"
    using l(2) by (simp_all add: record_at_def)
  have shadow: "db_shadowed cap use_read_cache key ?s \<longleftrightarrow> db_direct use_read_cache ?s d
      \<and> unat (loc_offset (dir_loc d)) + rec_size e = cap"
    using d(1) e(3) w(1) by (simp add: db_shadowed_def)
  have abs: "db_abs P logs ?s key = Some (db_value P ?s e)" using d(1) e(2) by (simp add: db_abs_def)
  show ?thesis
  proof (cases "db_direct use_read_cache ?s d")
    case True
    then have "db_get_rest P io use_read_cache x ?s' = db_get_direct P io d ?s'"
      using d(2) l(4) by (auto simp: db_get_rest_def db_direct_def)
    with db_get_direct_sane [OF P sane io e'] True shadow w(3) val abs show ?thesis by auto
  next
    case False
    then have r: "db_get_rest P io use_read_cache x ?s' = db_get_cached P io d ?s'"
      using d(2) l(4) by (auto simp: db_get_rest_def db_direct_def)
    have "loc_id (dir_loc d) \<noteq> db_active ?s" using False cur by (simp add: db_direct_def db_current_def)
    then have "loc_id (dir_loc d) < db_active ?s'"
      using active_files(3) [OF db_okD(1) [OF ok], of "loc_id (dir_loc d)"] e(1) l(3)
      by (simp add: db_files_def db_active_def)
    then have "loc_id (dir_loc d) \<noteq> db_active ?s'" by auto
    from db_get_cached_sane [OF P sane io e' e(3) this] r False shadow w(3) val abs show ?thesis by auto
  qed
qed

section \<open>The file is removed in between\<close>

text \<open>A read through the cache whose first block is not cached opens the file.\<close>

lemma seg_GetOrCompute_miss:
  assumes "seg_inv lru_ok segs" "seg_lookup lru_lookup h segs k = None" "supplier st = (status, v, st')" "status \<noteq> kOk"
  shows "\<exists>segs'. seg_GetOrCompute lru_ops h k supplier st segs = (status, v, st', segs')"
proof -
  obtain hit c where g: "lru_Get k (segs ! seg_locate h segs k) = (hit, c)" by fastforce
  have "hit = None"
  proof (cases hit)
    case (Some w)
    then show ?thesis
      using lru.get_hit [OF seg_inv_nth [OF assms(1), of h k], of k w] g assms(2) by (simp add: seg_lookup_def)
  qed
  then show ?thesis using assms(3,4) g by (simp add: seg_GetOrCompute_def Let_def)
qed

lemma rc_Get_missing:
  assumes bc: "seg_inv lru_ok bc" "seg_lookup lru_lookup (rc_hash P) bc (rc_GetBlockIdx fid off) = None"
    and op: "opener fid s = (st, None, s')" "st \<noteq> kOk" and n: "0 < unat n" "unat off + unat n < 2 ^ 32"
  shows "\<exists>ctx bc'. rc_Get P opener F (rc_Context (Location fid off) n) s bc = Some (st, ctx, s', bc')"
proof -
  let ?k = "unat off div 2 ^ 12" and ?i = "rc_GetBlockIdx fid off"
  let ?ctx = "rc_Context (Location fid off) n"
  have k: "?k < 2 ^ 20" using unat_u32_bound [of off] by simp
  have i: "?i = rc_idx fid ?k" by (rule rc_GetBlockIdx_idx)
  have "rc_load opener F ?i (Some (rc_file ?ctx, s)) = (st, replicate rc_block_size 0, Some (None, s'))"
    using op rc_GetFile_idx [OF k, of fid] by (simp add: rc_load_def i rc_Context_def)
  from seg_GetOrCompute_miss [where supplier = "rc_load opener F ?i", OF bc this op(2)] obtain bc' where
    g: "seg_GetOrCompute lru_ops (rc_hash P) ?i (rc_load opener F ?i) (Some (rc_file ?ctx, s)) bc
      = (st, replicate rc_block_size 0, Some (None, s'), bc')" by blast
  have "unat (off + n) = unat off + unat n" using n(2) by (simp add: unat_add_lem [THEN iffD1])
  moreover have "unat (rc_GetOffset ?i) \<le> unat off" using rc_GetOffset_idx [OF k, of fid] unfolding i by simp
  ultimately have "rc_GetOffset ?i < rc_end ?ctx" using n(1) by (simp add: word_less_nat_alt rc_Context_def)
  then show ?thesis
    using g op(2) by (simp add: rc_Get_def rc_Get_from.simps [of P opener F ?i] rc_Get_block_def rc_Context_def)
qed

lemma db_get_rest_removed:
  assumes P: "pedrolib_ok P" and ok: "db_ok P cap logs s" and fid: "fid \<notin> set (db_files s)" "fid < db_active s"
    and d: "dir_loc d = Location fid off" "dir_entry_size d = rec_sizeof e" "rec_wf e" "unat off + rec_size e \<le> cap"
    and how: "\<not> use_read_cache \<or> \<not> opt_cache_enable (db_options s)
       \<or> seg_lookup lru_lookup (rc_hash P) (db_read_cache s) (rc_GetBlockIdx fid off) = None"
  shows "\<exists>s'. db_get_rest P io use_read_cache (d, max_file) s = Some (kIOError, None, s')"
proof -
  note k = db_okD [OF ok]
  have "fid \<notin> set (mm_files (fm_meta (db_fm s)))" "fid \<noteq> fm_active_id (db_fm s)"
    using fid by (auto simp: db_files_def db_active_def)
  from fm_AcquireDataFile_missing [OF k(1) this, of io] obtain c where
    f: "fm_AcquireDataFile P io fid (db_fm s) = (kIOError, None, (db_fm s)\<lparr>fm_open_files := c\<rparr>)" by blast
  have direct: "\<exists>s'. db_get_direct P io d s = Some (kIOError, None, s')"
    using f d(1) by (simp add: db_get_direct_def)
  have cached: "\<exists>s'. db_get_cached P io d s = Some (kIOError, None, s')"
    if miss: "seg_lookup lru_lookup (rc_hash P) (db_read_cache s) (rc_GetBlockIdx fid off) = None"
  proof -
    have bc: "seg_inv lru_ok (db_read_cache s)" using k(4) by (simp add: rc_cache_ok_def)
    have cap: "cap < 2 ^ 32" using appended_log_bound(2) [OF k(1)] active_files(4) [OF k(1)] by blast
    have n: "unat (dir_entry_size d) = rec_size e" using d(2,3) by simp
    have "0 < unat (dir_entry_size d)" "unat off + unat (dir_entry_size d) < 2 ^ 32"
      using n d(4) cap rec_size_pos(1) [of e] by linarith+
    from rc_Get_missing [where opener = "fm_AcquireDataFile P io" and F = "\<lambda>fm. rf_ops (fm_fs fm)", OF bc miss f _ this]
    show ?thesis using d(1) by (auto simp: db_get_cached_def)
  qed
  show ?thesis using direct cached how by (auto simp: db_get_rest_def Let_def)
qed

end
