(* ===== verification/ConcRun.thy ===== *)
theory ConcRun
  imports ConcCompact
begin

text \<open>
  Runs of all threads together, with the compactions that remove their files. One compaction at a
  time is followed from its beginning to the removal; the other threads put and delete, and may move
  records of further files. Every step has a label: what it writes to the map.
\<close>

section \<open>The records of a file are determined by its bytes\<close>

lemma log_bytes_unique:
  assumes P: "codec_ok P" and wf: "\<forall>e \<in> set es. rec_wf e" "\<forall>e \<in> set es'. rec_wf e"
    and eq: "log_bytes P es @ replicate n 0 = log_bytes P es' @ replicate n' 0"
    and len: "length (log_bytes P es @ replicate n 0) < 2 ^ 64"
  shows "es = es'"
  using wf eq len
proof (induction es arbitrary: es')
  case Nil
  show ?case
  proof (cases es')
    case (Cons e fs)
    let ?m = "rec_bytes P e @ log_bytes P fs @ replicate n' 0"
    have m: "replicate n 0 = ?m" "length ?m < 2 ^ 64" using Nil.prems(3,4) Cons by simp_all
    note new = rdb_new [OF m(2)]
    from rdb.rec_unpack_bytes [OF P new] Nil.prems(2) Cons obtain b where
      "rec_unpack P rdb_ops (readable_buffer_new ?m (length ?m)) = Got (e, b)" by auto
    moreover have "rb_bytes rdb_ops (readable_buffer_new ?m (length ?m)) = replicate n 0" using new(2) m(1) by simp
    from rdb.rec_unpack_zeros [OF P new(1) this]
    have "rec_unpack P rdb_ops (readable_buffer_new ?m (length ?m)) = NoEntry" .
    ultimately show ?thesis by simp
  qed simp
next
  case (Cons e es)
  let ?m = "rec_bytes P e @ log_bytes P es @ replicate n 0"
  have len: "length ?m < 2 ^ 64" using Cons.prems(4) by simp
  note new = rdb_new [OF len]
  from rdb.rec_unpack_bytes [OF P new] Cons.prems(1) obtain b where
    b: "rec_unpack P rdb_ops (readable_buffer_new ?m (length ?m)) = Got (e, b)"
      "rb_bytes rdb_ops b = log_bytes P es @ replicate n 0" by auto
  show ?case
  proof (cases es')
    case Nil
    then have "?m = replicate n' 0" using Cons.prems(3) by simp
    with new(2) have "rb_bytes rdb_ops (readable_buffer_new ?m (length ?m)) = replicate n' 0" by (rule trans)
    from rdb.rec_unpack_zeros [OF P new(1) this] b(1) show ?thesis by simp
  next
    case (Cons e' fs)
    then have m: "?m = rec_bytes P e' @ log_bytes P fs @ replicate n' 0" using Cons.prems(3) by simp
    from rdb.rec_unpack_bytes [OF P new(1), of e' "log_bytes P fs @ replicate n' 0"] new(2) m Cons.prems(2) \<open>es' = e' # fs\<close>
    obtain b' where b': "rec_unpack P rdb_ops (readable_buffer_new ?m (length ?m)) = Got (e', b')"
      "rb_bytes rdb_ops b' = log_bytes P fs @ replicate n' 0" by auto
    have "e' = e" "log_bytes P es @ replicate n 0 = log_bytes P fs @ replicate n' 0" using b b' by simp_all
    moreover have "es = fs"
      by (rule Cons.IH [OF _ _ calculation(2)]) (use Cons.prems(1,2) len \<open>es' = e' # fs\<close> in simp_all)
    ultimately show ?thesis using \<open>es' = e' # fs\<close> by simp
  qed
qed

lemma log_file_unique:
  assumes "codec_ok P" "cap < 2 ^ 32" "log_file P cap es m" "log_file P cap es' m"
  shows "es = es'"
proof -
  have "length m = cap" using assms(1,3) by (simp add: log_file_def)
  then show ?thesis
    using assms log_bytes_unique [OF assms(1), of es es' "cap - log_size es" "cap - log_size es'"]
    by (simp add: log_file_def)
qed

section \<open>Runs\<close>

text \<open>
  A file that is not filled to its last byte. The iterator of the compaction does not read a record
  that ends there.
\<close>

definition not_filled :: "'a pedrolib \<Rightarrow> nat \<Rightarrow> file_id \<Rightarrow> 'a db \<Rightarrow> bool" where
  "not_filled P cap fid s \<longleftrightarrow> (\<forall>i es. fs_links (fm_fs (db_fm s)) (mm_GetDataFilePath P (fm_meta (db_fm s)) fid) = Some i
     \<longrightarrow> log_file P cap es (fs_data (fm_fs (db_fm s)) i) \<longrightarrow> log_size es < cap)"

lemma not_filled_iff:
  assumes P: "pedrolib_ok P" and ok: "db_ok P cap logs s" and fid: "fid \<in> set (db_files s)"
  shows "not_filled P cap fid s \<longleftrightarrow> log_size (logs fid) < cap"
proof -
  have d: "disk_ok P cap logs (fm_fs (db_fm s)) (fm_meta (db_fm s))" using db_okD(1) [OF ok] by (simp add: fm_ok_def)
  from disk_okD(6) [OF d] fid obtain i where
    i: "fs_links (fm_fs (db_fm s)) (mm_GetDataFilePath P (fm_meta (db_fm s)) fid) = Some i"
      "log_file P cap (logs fid) (fs_data (fm_fs (db_fm s)) i)" unfolding db_files_def by blast
  have A: "codec_ok P" using P by simp
  have unique: "log_file P cap es (fs_data (fm_fs (db_fm s)) i) \<longleftrightarrow> es = logs fid" for es
    using log_file_unique [OF A disk_okD(2) [OF d] _ i(2)] i(2) by blast
  show ?thesis unfolding not_filled_def i(1) by (simp add: unique)
qed

text \<open>
  The state of a run: the file that is being compacted, its thread and where this is, and
  the rest. A compaction begins on a file that is retired and not filled to its last byte, when no
  thread is between writing a record into the file and its update of the index.
\<close>

inductive conc_event ::
    "'a pedrolib \<Rightarrow> nat \<Rightarrow> io \<Rightarrow> (bytes \<Rightarrow> bytes \<Rightarrow> bool) \<Rightarrow> (file_id \<times> nat \<times> compactor) option \<times> 'a conc
       \<Rightarrow> (bytes \<times> bytes option) list \<Rightarrow> (file_id \<times> nat \<times> compactor) option \<times> 'a conc \<Rightarrow> bool"
  for P cap io client where
  any_thread: "conc_step P cap io client c c' \<Longrightarrow> cc_pc c' t \<noteq> cc_pc c t \<Longrightarrow>
     conc_event P cap io client (None, c) (conc_write P c t) (None, c')"
| begins: "comp_ready fid t c \<Longrightarrow> not_filled P cap fid (cc_db c) \<Longrightarrow>
     conc_event P cap io client (None, c) [] (Some (fid, t, CompStart), c)"
| compacts: "comp_own P cap io fid t (k, c) (k', c') \<Longrightarrow>
     conc_event P cap io client (Some (fid, t, k), c) (conc_write P c t) (Some (fid, t, k'), c')"
| other_thread: "comp_other P cap io client fid t (k, c) (k, c') \<Longrightarrow> cc_pc c' u \<noteq> cc_pc c u \<Longrightarrow>
     conc_event P cap io client (Some (fid, t, k), c) (conc_write P c u) (Some (fid, t, k), c')"
| ends: "conc_event P cap io client (Some (fid, t, CompDone), c) [] (None, c)"

text \<open>A run, with the writes of its steps in their order.\<close>

inductive conc_run ::
    "'a pedrolib \<Rightarrow> nat \<Rightarrow> io \<Rightarrow> (bytes \<Rightarrow> bytes \<Rightarrow> bool) \<Rightarrow> (file_id \<times> nat \<times> compactor) option \<times> 'a conc
       \<Rightarrow> (bytes \<times> bytes option) list \<Rightarrow> (file_id \<times> nat \<times> compactor) option \<times> 'a conc \<Rightarrow> bool"
  for P cap io client x where
  run_start: "conc_run P cap io client x [] x"
| run_event: "conc_run P cap io client x ws y \<Longrightarrow> conc_event P cap io client y ws' z \<Longrightarrow>
     conc_run P cap io client x (ws @ ws') z"

definition run_inv ::
    "'a pedrolib \<Rightarrow> nat \<Rightarrow> (bytes \<Rightarrow> bytes \<Rightarrow> bool) \<Rightarrow> (file_id \<Rightarrow> rec_entry list)
       \<Rightarrow> (file_id \<times> nat \<times> compactor) option \<times> 'a conc \<Rightarrow> bool" where
  "run_inv P cap A logs x \<longleftrightarrow> conc_inv P cap A logs (snd x) \<and> (case fst x of None \<Rightarrow> True
     | Some (fid, t, k) \<Rightarrow> \<exists>all n. log_size all < cap \<and> comp_inv P cap A fid t all logs n k (snd x))"

lemma conc_event_inv:
  assumes P: "pedrolib_ok P" and io: "io_good io" and small: "client_small P A client"
    and inv: "run_inv P cap A logs x" and event: "conc_event P cap io client x ws y"
  shows "\<exists>logs'. run_inv P cap A logs' y
     \<and> db_abs P logs' (cc_db (snd y)) = map_writes ws (db_abs P logs (cc_db (snd x)))"
  using event
proof (cases rule: conc_event.cases)
  case (any_thread c c' t)
  have i: "conc_inv P cap A logs c" using inv any_thread(1) by (simp add: run_inv_def)
  from conc_step_inv [OF P io i _ any_thread(4)] small obtain logs' where
    l: "conc_inv P cap A logs' c'" "conc_keeps P logs (cc_db c) logs' (cc_db c')" by blast
  from conc_step_writes [OF i l(2) any_thread(4,5) P io] l(1) any_thread(1-3) show ?thesis
    by (intro exI [of _ logs']) (simp add: run_inv_def)
next
  case (begins fid t c)
  have i: "conc_inv P cap A logs c" using inv begins(1) by (simp add: run_inv_def)
  then have "db_ok P cap logs (cc_db c)" by (simp add: conc_inv_def)
  from not_filled_iff [OF P this] begins(4,5) have "log_size (logs fid) < cap" by (simp add: comp_ready_def)
  with comp_inv_start [OF i begins(4)] i begins(1-3) show ?thesis
    by (intro exI [of _ logs]) (auto simp: run_inv_def)
next
  case (compacts fid t k c k' c')
  then obtain all n where i: "log_size all < cap" "comp_inv P cap A fid t all logs n k c" using inv by (auto simp: run_inv_def)
  from comp_inv_own [OF P io i compacts(4)] obtain logs' n' where
    l: "comp_inv P cap A fid t all logs' n' k' c'" "db_abs P logs' (cc_db c') = conc_effect P c t (db_abs P logs (cc_db c))"
    by (auto simp: comp_next_inv_def)
  with comp_inv_file(2) [OF l(1)] i(1) compacts(1-3) show ?thesis
    by (intro exI [of _ logs']) (auto simp: run_inv_def)
next
  case (other_thread fid t k c c' u)
  then obtain all n where i: "log_size all < cap" "comp_inv P cap A fid t all logs n k c" using inv by (auto simp: run_inv_def)
  from comp_inv_other [OF P io small i(2) other_thread(4)] obtain logs' where
    l: "comp_inv P cap A fid t all logs' n k c'" "conc_keeps P logs (cc_db c) logs' (cc_db c')" by blast
  have step: "conc_step P cap io client c c'" using other_thread(4) by (auto elim: comp_otherE)
  from conc_step_writes [OF comp_inv_file(2) [OF i(2)] l(2) step other_thread(5) P io]
    comp_inv_file(2) [OF l(1)] l(1) i(1) other_thread(1-3) show ?thesis
    by (intro exI [of _ logs']) (auto simp: run_inv_def)
next
  case (ends fid t c)
  then show ?thesis using inv by (intro exI [of _ logs]) (simp add: run_inv_def)
qed

lemma conc_run_writes:
  assumes P: "pedrolib_ok P" and io: "io_good io" and small: "client_small P A client"
    and inv: "run_inv P cap A logs x" and run: "conc_run P cap io client x ws y"
  shows "\<exists>logs'. run_inv P cap A logs' y
     \<and> db_abs P logs' (cc_db (snd y)) = map_writes ws (db_abs P logs (cc_db (snd x)))"
  using run
proof induction
  case run_start
  then show ?case using inv by auto
next
  case (run_event ws y ws' z)
  then obtain logs1 where l: "run_inv P cap A logs1 y"
    "db_abs P logs1 (cc_db (snd y)) = map_writes ws (db_abs P logs (cc_db (snd x)))" by blast
  from conc_event_inv [OF P io small l(1) run_event.hyps(2)] l(2) show ?case by (auto simp: map_writes_append)
qed

text \<open>The runs of \<open>Concurrency\<close> and of \<open>ConcCompact\<close> are such runs.\<close>

lemma conc_steps_run:
  assumes "conc_steps P cap io client c c'"
  shows "\<exists>ws. conc_run P cap io client (None, c) ws (None, c')"
  using assms
proof (induction rule: rtranclp_induct)
  case base
  show ?case using run_start by blast
next
  case (step c1 c2)
  obtain t where "cc_pc c2 t \<noteq> cc_pc c1 t" by (rule conc_step_moves [OF step(2)]) (rule that)
  from any_thread [OF step(2) this] step(3) run_event show ?case by blast
qed

lemma comp_run_run:
  assumes run: "comp_run P cap io client fid t x n y" and x: "x = (CompStart, c)"
    and c: "comp_ready fid t c" "not_filled P cap fid (cc_db c)"
  shows "\<exists>ws. conc_run P cap io client (None, c) ws (Some (fid, t, fst y), snd y)"
  using run
proof induction
  case start
  then show ?case using run_event [OF run_start begins [OF c]] x by (intro exI [of _ "[] @ []"]) simp
next
  case (own n y z)
  then obtain ws where "conc_run P cap io client (None, c) ws (Some (fid, t, fst y), snd y)" by blast
  from run_event [OF this compacts] own(2) show ?case by (metis prod.collapse)
next
  case (other n y z)
  then obtain ws where w: "conc_run P cap io client (None, c) ws (Some (fid, t, fst y), snd y)" by blast
  have o: "comp_other P cap io client fid t (fst y, snd y) (fst z, snd z)" using other(2) by simp
  have step: "conc_step P cap io client (snd y) (snd z)" by (rule comp_otherE [OF o]) (simp only: prod.inject)
  have k: "fst z = fst y" by (rule comp_otherE [OF o]) (simp only: prod.inject)
  obtain u where "cc_pc (snd z) u \<noteq> cc_pc (snd y) u" by (rule conc_step_moves [OF step]) (rule that)
  from run_event [OF w other_thread [OF o [unfolded k] this]] show ?case unfolding k by blast
qed

end
