(* ===== verification/Lifetimes.thy ===== *)
theory Lifetimes
  imports DBImpl
begin

text \<open>
  What happens when objects are destroyed: the destructors of the two mapped files of
  \<^verbatim>\<open>file/\<close> on the address space of the process, and the constructor, the timers and the
  destructor of \<^verbatim>\<open>DBImpl\<close> on the executor that several databases share.
\<close>

section \<open>The address space\<close>

text \<open>
  Pages by their numbers. A shared page shows a page of a file; a private one is ordinary memory.
  \<^verbatim>\<open>munmap\<close> and \<^verbatim>\<open>madvise(MADV_DONTNEED)\<close> as documented for Linux: both work on
  whole pages and refuse an address that is not one of a page; \<^verbatim>\<open>madvise\<close> applies to the
  pages of the range that are mapped, reports the others, and makes private pages read as zeros.
\<close>

datatype page = SharedPage nat nat | PrivatePage bytes

type_synonym aspace = "nat \<Rightarrow> page option"

text \<open>\<^verbatim>\<open>data_\<close>: null, the \<open>-1\<close> of a failed \<^verbatim>\<open>mmap\<close>, or a page.\<close>

datatype mapping_ptr = MNull | MFailed | MAt nat

definition page_range :: "nat \<Rightarrow> nat \<Rightarrow> nat set" where
  "page_range a n = {a ..< a + (n + kPageSize - 1) div kPageSize}"

definition as_mmap :: "nat \<Rightarrow> nat \<Rightarrow> nat \<Rightarrow> aspace \<Rightarrow> aspace" where
  "as_mmap a ino n as = (\<lambda>p. if p \<in> page_range a n then Some (SharedPage ino (p - a)) else as p)"

definition as_munmap :: "mapping_ptr \<Rightarrow> nat \<Rightarrow> aspace \<Rightarrow> bool \<times> aspace" where
  "as_munmap ptr n as = (case ptr of
       MAt a \<Rightarrow> if n = 0 then (False, as) else (True, \<lambda>p. if p \<in> page_range a n then None else as p)
     | _ \<Rightarrow> (False, as))"

definition as_dontneed :: "mapping_ptr \<Rightarrow> nat \<Rightarrow> aspace \<Rightarrow> bool \<times> aspace" where
  "as_dontneed ptr n as = (case ptr of
       MAt a \<Rightarrow>
         (list_all (\<lambda>p. as p \<noteq> None) [a ..< a + (n + kPageSize - 1) div kPageSize],
          \<lambda>p. if p \<in> page_range a n
              then map_option (\<lambda>x. case x of PrivatePage b \<Rightarrow> PrivatePage (replicate kPageSize 0) | _ \<Rightarrow> x) (as p)
              else as p)
     | _ \<Rightarrow> (False, as))"

section \<open>The destructors of the mapped files\<close>

text \<open>\<^verbatim>\<open>~MappingReadWriteFile\<close>: its two calls, of which the second comes too late.\<close>

definition mrw_destroy_unmap :: "mapping_ptr \<Rightarrow> nat \<Rightarrow> aspace \<Rightarrow> aspace" where
  "mrw_destroy_unmap data len as = (if data \<noteq> MNull then snd (as_munmap data len as) else as)"

definition mrw_destroy_advise :: "mapping_ptr \<Rightarrow> nat \<Rightarrow> aspace \<Rightarrow> aspace" where
  "mrw_destroy_advise data len as = (if data \<noteq> MNull then snd (as_dontneed data len as) else as)"

definition mrw_destroy :: "mapping_ptr \<Rightarrow> nat \<Rightarrow> aspace \<Rightarrow> aspace" where
  "mrw_destroy data len as = mrw_destroy_advise data len (mrw_destroy_unmap data len as)"

text \<open>\<^verbatim>\<open>~MappingReadonlyFile\<close>: it gives up when the advice is refused.\<close>

definition mro_destroy :: "mapping_ptr \<Rightarrow> nat \<Rightarrow> aspace \<Rightarrow> aspace" where
  "mro_destroy data capacity as =
     (if data \<noteq> MNull
      then case as_dontneed data capacity as of
        (ok, as) \<Rightarrow> if \<not> ok then as else snd (as_munmap data capacity as)
      else as)"

text \<open>
  When no other thread maps anything in between, both destructors undo the \<^verbatim>\<open>mmap\<close> of
  \<^verbatim>\<open>Open\<close>, and nothing else; a file that was never opened, or whose \<^verbatim>\<open>mmap\<close>
  failed, leaves the address space as it is.
\<close>

lemma as_munmap_mmap:
  assumes "\<forall>p \<in> page_range a n. as p = None" "n \<noteq> 0"
  shows "as_munmap (MAt a) n (as_mmap a ino n as) = (True, as)"
  using assms by (auto simp: as_munmap_def as_mmap_def fun_eq_iff)

lemma mrw_mapping_destroyed:
  assumes "\<forall>p \<in> page_range a n. as p = None" "n \<noteq> 0"
  shows "mrw_destroy (MAt a) n (as_mmap a ino n as) = as"
proof -
  have "snd (as_dontneed (MAt a) n as) = as" using assms(1) by (auto simp: as_dontneed_def fun_eq_iff)
  then show ?thesis
    using as_munmap_mmap [OF assms] by (simp add: mrw_destroy_def mrw_destroy_advise_def mrw_destroy_unmap_def)
qed

lemma mro_mapping_destroyed:
  assumes "\<forall>p \<in> page_range a n. as p = None" "n \<noteq> 0"
  shows "mro_destroy (MAt a) n (as_mmap a ino n as) = as"
proof -
  have "as_dontneed (MAt a) n (as_mmap a ino n as) = (True, as_mmap a ino n as)"
    by (auto simp: as_dontneed_def as_mmap_def page_range_def fun_eq_iff list_all_iff)
  then show ?thesis using as_munmap_mmap [OF assms] by (simp add: mro_destroy_def)
qed

lemma unmapped_destroyed:
  assumes "ptr \<in> {MNull, MFailed}"
  shows "mrw_destroy ptr n as = as" "mro_destroy ptr n as = as"
  using assms by (auto simp: mrw_destroy_def mrw_destroy_advise_def mrw_destroy_unmap_def mro_destroy_def
      as_dontneed_def as_munmap_def)

text \<open>A refused advice leaks the mapping of a read-only file.\<close>

lemma mro_destroy_leaks:
  assumes "q \<in> page_range a n" "as q = None" "as p = Some (SharedPage ino k)"
  shows "mro_destroy (MAt a) n as p = as p"
proof -
  have "\<not> fst (as_dontneed (MAt a) n as)" using assms(1,2) by (auto simp: as_dontneed_def page_range_def list_all_iff)
  then show ?thesis using assms(3) by (auto simp: mro_destroy_def as_dontneed_def split: prod.split)
qed

text \<open>
  The advice after the unmapping: a page that another thread has got at an address of the old
  mapping between the two calls reads as zeros afterwards, whatever the thread had stored there.
\<close>

lemma mapping_destroyed_race:
  assumes "p \<in> page_range a n" "as' p = Some (PrivatePage b)"
  shows "mrw_destroy_advise (MAt a) n as' p = Some (PrivatePage (replicate kPageSize 0))"
  using assms by (simp add: mrw_destroy_advise_def as_dontneed_def)

section \<open>The timers of a database\<close>

text \<open>
  The executor of the options, with its periodic tasks by their numbers; databases that are
  opened with the same options share it. \<open>alloc\<close> is the number that \<^verbatim>\<open>ScheduleEvery\<close>
  of \<^verbatim>\<open>deps/pedrolib\<close> returns.
\<close>

datatype timer = SyncTimer nat | CompactTimer nat

type_synonym timers = "u64 \<Rightarrow> timer option"

definition ex_ScheduleEvery :: "(timers \<Rightarrow> u64) \<Rightarrow> timer \<Rightarrow> timers \<Rightarrow> u64 \<times> timers" where
  "ex_ScheduleEvery alloc x ts = (let n = alloc ts in (n, ts(n \<mapsto> x)))"

definition ex_ScheduleCancel :: "u64 \<Rightarrow> timers \<Rightarrow> timers" where
  "ex_ScheduleCancel n ts = ts(n := None)"

record workers =
  sync_worker :: u64
  compact_worker :: u64

text \<open>
  The constructor leaves both numbers 0; \<^verbatim>\<open>Init\<close> sets them at its end, when nothing has
  failed before; the destructor cancels both.
\<close>

definition workers_new :: workers where
  "workers_new = \<lparr>sync_worker = 0, compact_worker = 0\<rparr>"

definition db_Init_timers :: "(timers \<Rightarrow> u64) \<Rightarrow> nat \<Rightarrow> status \<Rightarrow> workers \<times> timers \<Rightarrow> workers \<times> timers" where
  "db_Init_timers alloc db status x =
     (let (w, ts) = x in
      if status \<noteq> kOk then (w, ts)
      else let (n, ts) = ex_ScheduleEvery alloc (SyncTimer db) ts;
               (m, ts) = ex_ScheduleEvery alloc (CompactTimer db) ts
           in (w\<lparr>sync_worker := n, compact_worker := m\<rparr>, ts))"

definition db_destroy :: "workers \<Rightarrow> timers \<Rightarrow> 'a db \<Rightarrow> timers \<times> status" where
  "db_destroy w ts s =
     (ex_ScheduleCancel (compact_worker w) (ex_ScheduleCancel (sync_worker w) ts), fm_Flush True (db_fm s))"

text \<open>What the code relies on: while numbers are left, a new one is returned, and never 0.\<close>

definition alloc_ok :: "(timers \<Rightarrow> u64) \<Rightarrow> bool" where
  "alloc_ok alloc \<longleftrightarrow> (\<forall>ts. (\<exists>n. n \<noteq> 0 \<and> ts n = None) \<longrightarrow> alloc ts \<noteq> 0 \<and> ts (alloc ts) = None)"

text \<open>
  Then a database that is opened and destroyed leaves the timers of all others as they are, whether its
  \<^verbatim>\<open>Init\<close> has succeeded or not.
\<close>

lemma destroy_own_timers:
  assumes "alloc_ok alloc" "ts n = None" "ts m = None" "n \<noteq> 0" "m \<noteq> 0" "n \<noteq> m" "ts 0 = None"
    and "db_Init_timers alloc db status (workers_new, ts) = (w, ts')"
  shows "fst (db_destroy w ts' s) = ts" and "ts' 0 = None"
    and "status = kOk \<Longrightarrow> ts' (sync_worker w) = Some (SyncTimer db) \<and> ts' (compact_worker w) = Some (CompactTimer db)"
proof -
  let ?n = "alloc ts" and ?ts = "ts(alloc ts \<mapsto> SyncTimer db)"
  have n: "?n \<noteq> 0" "ts ?n = None" using assms(1,2,4) unfolding alloc_ok_def by blast+
  have "\<exists>x. x \<noteq> 0 \<and> ?ts x = None"
    by (intro exI [of _ "if ?n = n then m else n"]) (use assms(2-6) in auto)
  then have m: "alloc ?ts \<noteq> 0" "?ts (alloc ?ts) = None" using assms(1) unfolding alloc_ok_def by blast+
  then have ne: "alloc ?ts \<noteq> ?n" by (auto split: if_splits)
  have ts': "ts' = (if status \<noteq> kOk then ts else ?ts(alloc ?ts \<mapsto> CompactTimer db))"
    "w = (if status \<noteq> kOk then workers_new else \<lparr>sync_worker = ?n, compact_worker = alloc ?ts\<rparr>)"
    using assms(8) by (auto simp: db_Init_timers_def ex_ScheduleEvery_def workers_new_def Let_def split: if_splits)
  show "ts' 0 = None" using ts'(1) assms(7) n m by auto
  show "fst (db_destroy w ts' s) = ts"
    using ts' assms(7) n m ne
    by (auto simp: db_destroy_def ex_ScheduleCancel_def workers_new_def fun_eq_iff split: if_splits)
  show "ts' (sync_worker w) = Some (SyncTimer db) \<and> ts' (compact_worker w) = Some (CompactTimer db)" if "status = kOk"
    using ts' that ne by simp
qed

text \<open>
  With an executor that numbers its timers from 0, a database that could not be opened cancels the
  timer 0 of another one when it is destroyed.
\<close>

lemma destroy_foreign_timer:
  assumes "status \<noteq> kOk" "db_Init_timers alloc db status (workers_new, ts) = (w, ts')"
  shows "fst (db_destroy w ts' s) 0 = None"
  using assms by (auto simp: db_Init_timers_def db_destroy_def ex_ScheduleCancel_def workers_new_def)

section \<open>The options that are used when none are given\<close>

text \<open>
  \<open>hw\<close> is \<^verbatim>\<open>hardware_concurrency()\<close>, which may be 0. \<^verbatim>\<open>ReadOptions\<close> and
  \<^verbatim>\<open>WriteOptions\<close> have one flag each.
\<close>

definition options_default :: "nat \<Rightarrow> options" where
  "options_default hw = \<lparr>opt_max_open_files = 16, opt_threshold_bytes = of_nat (kMaxFileBytes * 3 div 4),
     opt_compress_value = True, opt_sync_max_io_error = 32, opt_cache_enable = True,
     opt_cache_bytes = 32 * 2 ^ 20, opt_cache_segments = hw\<rparr>"

definition use_read_cache_default :: bool where
  "use_read_cache_default = True"

definition write_sync_default :: bool where
  "write_sync_default = False"

text \<open>
  A database can be constructed from them exactly when the number of processors is known, and then, up to 8192
  of them, every segment of its cache has room for a block.
\<close>

lemma options_default_new:
  "db_new P (options_default hw) name buf fs = None \<longleftrightarrow> hw = 0"
  "0 < hw \<Longrightarrow> hw \<le> 8192 \<Longrightarrow> db_new P (options_default hw) name buf fs = Some s \<Longrightarrow> rc_capacities (db_read_cache s)"
proof -
  show "db_new P (options_default hw) name buf fs = None \<longleftrightarrow> hw = 0"
    by (simp add: db_new_def options_default_def rc_new_def)
  assume hw: "0 < hw" "hw \<le> 8192" and s: "db_new P (options_default hw) name buf fs = Some s"
  have "2 ^ 25 \<le> (2 ^ 25 + hw - 1) div hw * hw"
    using hw(1) div_mult_mod_eq [of "2 ^ 25 + hw - 1" hw] mod_less_divisor [OF hw(1), of "2 ^ 25 + hw - 1"] by linarith
  also have "\<dots> \<le> (2 ^ 25 + hw - 1) div hw * 8192" using hw(2) by (rule mult_le_mono2)
  finally have "2 ^ 12 \<le> (2 ^ 25 + hw - 1) div hw" by simp
  then have "0 < drop_bit 12 ((2 ^ 25 + hw - 1) div hw)" by (simp add: drop_bit_eq_div div_greater_zero_iff)
  moreover have "size_sub (32 * 2 ^ 20 + hw) 1 = 2 ^ 25 + hw - 1" using hw by (subst size_sub_exact) simp_all
  ultimately show "rc_capacities (db_read_cache s)"
    using s hw(1) by (auto simp: db_new_def options_default_def rc_new_def rc_capacities_def lru_init_def kBit_def)
qed

end
