(* ===== verification/LateAppend.thy ===== *)
theory LateAppend
  imports DBRecovery
begin

text \<open>
  A thread that has read the active file and its index log in \<^verbatim>\<open>FileManager::Append\<close>, and is
  overtaken by another one that finds the file full and opens the next: it goes on to append to
  the retired file, after the executor has written the index file of it.
\<close>

lemma late_append_ok:
  assumes P: "pedrolib_ok P" and io: "io_good io" and ok: "fm_ok P cap logs s"
    and f: "fm_data_file s = Some f" "fm_index_log s = Some log" and more: "fm_active_id s \<noteq> -1"
    and e: "rec_wf e" "log_size (logs (fm_active_id s)) + rec_size e \<le> cap"
    and big: "rec_wf big" "rec_size big \<le> cap" "cap < log_size (logs (fm_active_id s)) + rec_size big"
    and tasks: "\<forall>t \<in> set (fm_pending s). \<not> task_empty P t"
  shows "\<exists>s1 s2 f' log' fs i. fm_Append P cap io big s = Some (kOk, Location (fm_active_id s + 1) 0, s1)
     \<and> fm_run_tasks P io (length (fm_pending s1)) s1 = Some s2 \<and> fm_pending s2 = []
     \<and> fm_append_file P e (fm_active_id s) f (Some log) (fm_fs s2)
         = Some (Inr (Location (fm_active_id s) (of_nat (log_size (logs (fm_active_id s)))), f', log', fs))
     \<and> fs_links fs (mm_GetDataFilePath P (fm_meta s2) (fm_active_id s)) = Some (mrw_ino f)
     \<and> log_file P cap (logs (fm_active_id s) @ [e]) (fs_data fs (mrw_ino f))
     \<and> fs_links fs (mm_GetIndexFilePath P (fm_meta s2) (fm_active_id s)) = Some i
     \<and> fs_data fs i = idx_log_bytes P (log_index 0 (logs (fm_active_id s)))"
proof -
  let ?a = "fm_active_id s"
  have dok: "disk_ok P cap logs (fm_fs s) (fm_meta s)" and aok: "active_ok P cap logs s"
    using ok by (simp_all add: fm_ok_def)
  have link: "fs_links (fm_fs s) (mm_GetDataFilePath P (fm_meta s) ?a) = Some (mrw_ino f)"
    and len: "mrw_length f = cap" "mrw_write_index f = log_size (logs ?a)"
    and log: "ab_bytes P log = idx_log_bytes P (log_index 0 (logs ?a))" and a: "?a \<in> set (mm_files (fm_meta s))"
    using aok f by (auto simp: active_ok_def)
  from fm_Append_rolls [OF P ok big(1) io big(3,2) more] obtain s1 where s1:
    "fm_Append P cap io big s = Some (kOk, Location (?a + 1) 0, s1)" "fm_ok P cap (logs(?a + 1 := [big])) s1"
    "mm_files (fm_meta s1) = mm_files (fm_meta s) @ [?a + 1]" "links_kept P s s1" by blast
  have pend: "fm_pending s1 = fm_pending s @ [TSyncFile ?a f, TCreateIndexFile ?a log]"
    using fm_Append_rolls_pending [OF P ok big(1) io big(3,2) more s1(1)] fm_retire_pending [OF f] by simp
  obtain x xs where "logs ?a = x # xs" using big(2,3) by (cases "logs ?a") auto
  then have "length (ab_bytes P log) \<noteq> 0" using log P by simp
  then have "ab_bytes P log \<noteq> []" by blast
  then have "\<forall>t \<in> set (fm_pending s1). \<not> task_empty P t" using tasks pend by (auto simp: task_empty_def)
  from fm_run_tasks_done [OF P io s1(2) refl this] obtain s2 where s2:
    "fm_run_tasks P io (length (fm_pending s1)) s1 = Some s2" "fm_ok P cap (logs(?a + 1 := [big])) s2"
    "fm_meta s2 = fm_meta s1" "fm_pending s2 = []" "\<forall>t \<in> set (fm_pending s1). task_done P (fm_fs s2) (fm_meta s1) t"
    "links_kept P s1 s2" by blast
  have dok2: "disk_ok P cap (logs(?a + 1 := [big])) (fm_fs s2) (fm_meta s2)" using s2(2) by (simp add: fm_ok_def)
  have a2: "?a \<in> set (mm_files (fm_meta s1))" using a s1(3) by simp
  have name: "mm_name (fm_meta s1) = mm_name (fm_meta s)" "mm_name (fm_meta s2) = mm_name (fm_meta s1)"
    using s1(4) s2(3) by (simp_all add: links_kept_def)
  have paths: "mm_GetDataFilePath P (fm_meta s2) = mm_GetDataFilePath P (fm_meta s)"
    "mm_GetDataFilePath P (fm_meta s1) = mm_GetDataFilePath P (fm_meta s)"
    using path_name name by simp_all
  have link2: "fs_links (fm_fs s2) (mm_GetDataFilePath P (fm_meta s2) ?a) = Some (mrw_ino f)"
    using s1(4) s2(6) link a a2 by (simp add: links_kept_def paths)
  have a1: "?a \<noteq> ?a + 1" using u32_succ(1) [OF more] by auto
  then have log2: "log_file P cap (logs ?a) (fs_data (fm_fs s2) (mrw_ino f))"
    using disk_ok_log [OF dok2 _ link2] a2 s2(3) by simp
  have "TCreateIndexFile ?a log \<in> set (fm_pending s1)" using pend by simp
  then obtain i where i: "fs_links (fm_fs s2) (mm_GetIndexFilePath P (fm_meta s2) ?a) = Some i"
    using s2(3,5) by (force simp: task_done_def)
  have "i \<noteq> mrw_ino f" using fs_ok_inj [OF disk_okD(3) [OF dok2] i] link2 data_index_path [of P "fm_meta s2" ?a ?a] by metis
  moreover have "fs_data (fm_fs s2) i = idx_log_bytes P (log_index 0 (logs ?a))"
    using disk_okD(8) [OF dok2 i] a1 by simp
  moreover note app = fm_append_file_fits [OF P e(1) log2 len disk_okD(2) [OF dok] e(2)]
  ultimately show ?thesis
    using s1(1) s2(1,4) link2 i by (simp add: fs_store_def)
qed

end
