(* ===== verification/CrashPut.thy ===== *)
theory CrashPut
  imports DBStore
begin

text \<open>
  A process that is killed in the middle of a put. \<^verbatim>\<open>Pack\<close> fills the mapping with seven
  stores, the byte of the type first and the value last, and the kernel keeps those that were
  executed. The checksum is there to find such records, but recovery does not look at it
  (\<^verbatim>\<open>DBImpl::Recovery\<close>): it indexes what was written of the record, and what was not
  written reads as zeros.
\<close>

section \<open>The stores of Pack\<close>

definition rec_stores :: "'a pedrolib \<Rightarrow> rec_entry \<Rightarrow> bytes list" where
  "rec_stores P e = (let h = rec_header_of e in
     [enc8 P (type_u8 (rh_type h)), enc32 P (rh_checksum h), enc8 P (rh_key_size h),
      enc32 P (rh_value_size h), enc32 P (rh_timestamp h), re_key e, re_value e])"

fun wb_appends :: "'b wops \<Rightarrow> bytes list \<Rightarrow> 'b \<Rightarrow> 'b option" where
  "wb_appends W [] b = Some b"
| "wb_appends W (xs # xss) b = do { b \<leftarrow> wb_append W xs b; wb_appends W xss b }"

text \<open>They are what \<^verbatim>\<open>Pack\<close> does when the buffer has room.\<close>

lemma rec_pack_stores:
  assumes "header_sizeof \<le> wb_writable W b" "unat (rec_sizeof e) \<le> wb_writable W b"
  shows "rec_pack P W e b = map_option (Pair True) (wb_appends W (rec_stores P e) b)"
  using assms by (auto simp: rec_pack_def header_pack_def rec_stores_def Let_def map_conv_bind_option comp_def
      simp del: header_sizeof_14)

text \<open>
  The process dies after \<open>i\<close> stores and, when the next one copies the key or the value, after
  \<open>j\<close> bytes of that. \<open>torn_entry\<close> is the record that the file then seems to hold.
\<close>

definition torn_stores :: "'a pedrolib \<Rightarrow> nat \<Rightarrow> nat \<Rightarrow> rec_entry \<Rightarrow> bytes list" where
  "torn_stores P i j e = take i (rec_stores P e)
     @ (if i = 5 \<or> i = 6 then [take j (rec_stores P e ! i)] else [])"

definition zero_fill :: "nat \<Rightarrow> bytes \<Rightarrow> bytes" where
  "zero_fill n xs = take n xs @ replicate (length xs - n) 0"

definition torn_entry :: "nat \<Rightarrow> nat \<Rightarrow> rec_entry \<Rightarrow> rec_entry" where
  "torn_entry i j e = \<lparr>re_checksum = (if i < 2 then 0 else re_checksum e), re_type = re_type e,
     re_key = (if i < 3 then [] else zero_fill (if i < 5 then 0 else if i = 5 then j else length (re_key e)) (re_key e)),
     re_value = (if i < 4 then [] else zero_fill (if i < 6 then 0 else if i = 6 then j else length (re_value e)) (re_value e)),
     re_timestamp = (if i < 5 then 0 else re_timestamp e)\<rparr>"

text \<open>Zero is written as zeros.\<close>

definition codec_zeros :: "'a pedrolib \<Rightarrow> bool" where
  "codec_zeros P \<longleftrightarrow> enc8 P 0 = [0] \<and> enc32 P 0 = [0, 0, 0, 0]"

lemma codec_zeros_list: "codec_zeros list_pedrolib"
  by (simp add: codec_zeros_def list_pedrolib_def be_enc_def upt_rec)

lemma length_zero_fill [simp]: "length (zero_fill n xs) = length xs"
  by (simp add: zero_fill_def)

lemma zero_fill_simps [simp]:
  "zero_fill 0 xs = replicate (length xs) 0" "zero_fill (length xs) xs = xs"
  by (simp_all add: zero_fill_def)

lemma torn_entry_size: "rec_size (torn_entry i j e) \<le> rec_size e"
  by (simp add: torn_entry_def rec_size_def)

lemma torn_entry_wf: "rec_wf e \<Longrightarrow> rec_wf (torn_entry i j e)"
  using torn_entry_size [of i j e] by (auto simp: rec_wf_def torn_entry_def)

lemma torn_entry_complete: "7 \<le> i \<Longrightarrow> torn_entry i j e = e"
  by (simp add: torn_entry_def)

lemma torn_entry_type [simp]: "re_type (torn_entry i j e) = re_type e"
  by (simp add: torn_entry_def)

text \<open>The bytes of that record are the stores that were executed, and zeros.\<close>

lemma torn_bytes:
  assumes P: "codec_ok P" and z: "codec_zeros P" and i: "1 \<le> i"
  shows "\<exists>n. rec_bytes P (torn_entry i j e) = concat (torn_stores P i j e) @ replicate n 0"
proof -
  have Z: "enc8 P 0 = replicate 1 0" "enc32 P 0 = replicate 4 0"
    using z by (simp_all add: codec_zeros_def numeral_eq_Suc)
  have R: "replicate m (0 :: u8) @ replicate n 0 = replicate (m + n) 0" for m n by (simp add: replicate_add)
  consider "i = 1" | "i = 2" | "i = 3" | "i = 4" | "i = 5" | "i = 6" | "7 \<le> i" using i by linarith
  then show ?thesis
  proof cases
    assume "7 \<le> i"
    then have "concat (torn_stores P i j e) = rec_bytes P e"
      by (simp add: torn_stores_def rec_stores_def rec_bytes_def header_bytes_def Let_def)
    then show ?thesis using torn_entry_complete [OF \<open>7 \<le> i\<close>, of j e] by (intro exI [of _ 0]) simp
  qed (simp_all add: torn_stores_def torn_entry_def rec_stores_def rec_bytes_def header_bytes_def rec_header_of_def
      Let_def Z R del: replicate_Suc, auto simp: zero_fill_def R simp del: replicate_Suc)
qed

section \<open>The crash\<close>

text \<open>
  \<open>fm_append_file\<close>, \<open>fm_Append\<close> and \<open>db_HandlePut\<close> up to the end of the process; the
  result is the file system that is left.
\<close>

definition fm_append_torn ::
    "'a pedrolib \<Rightarrow> nat \<Rightarrow> nat \<Rightarrow> rec_entry \<Rightarrow> mrw_file \<Rightarrow> fsys \<Rightarrow> (unit + fsys) option" where
  "fm_append_torn P i j e data_file fs =
     (let (buf, f) = mrw_Allocate (unat (rec_sizeof e)) fs data_file in
      if wbf_GetOffset buf \<noteq> size_max then
        (case wb_appends wbf_ops (torn_stores P i j e) buf of
           None \<Rightarrow> None
         | Some buf \<Rightarrow> Some (Inr (fs_store (mrw_ino f) (wbf_mem buf) fs)))
      else Some (Inl ()))"

partial_function (option) fm_Append_torn ::
    "'a pedrolib \<Rightarrow> nat \<Rightarrow> io \<Rightarrow> nat \<Rightarrow> nat \<Rightarrow> rec_entry \<Rightarrow> 'a fm \<Rightarrow> fsys option" where
  "fm_Append_torn P cap io i j e s =
     (case fm_data_file s of
        None \<Rightarrow> None
      | Some f \<Rightarrow>
          (case fm_append_torn P i j e f (fm_fs s) of
             None \<Rightarrow> None
           | Some (Inr fs) \<Rightarrow> Some fs
           | Some (Inl _) \<Rightarrow>
               (case fm_CreateFile P cap io (fm_active_id s + 1) s of
                  None \<Rightarrow> None
                | Some r \<Rightarrow>
                    if fst r \<noteq> kOk then Some (fm_fs (snd r))
                    else fm_Append_torn P cap io i j e (snd r))))"

definition db_Put_torn ::
    "'a pedrolib \<Rightarrow> nat \<Rightarrow> io \<Rightarrow> nat \<Rightarrow> nat \<Rightarrow> bytes \<Rightarrow> bytes \<Rightarrow> 'a db \<Rightarrow> fsys option" where
  "db_Put_torn P cap io i j key val s =
     (if db_readonly s then Some (fm_fs (db_fm s))
      else
        let e = db_entry P s key val in
        if unat (rec_sizeof e) > cap then Some (fm_fs (db_fm s))
        else fm_Append_torn P cap io i j e (db_fm s))"

context writable_buffer begin

lemma appends_fit:
  "inv b \<Longrightarrow> length (concat xss) \<le> wb_writable W b \<Longrightarrow>
     \<exists>b'. wb_appends W xss b = Some b' \<and> inv b' \<and> written b' = written b @ concat xss"
proof (induction xss arbitrary: b)
  case (Cons xs xss)
  then have fits: "length xs \<le> wb_writable W b" by simp
  from append_fits [OF Cons.prems(1) fits] obtain b1 where b1: "wb_append W xs b = Some b1" "inv b1"
    "written b1 = written b @ xs" "wb_writable W b1 = wb_writable W b - length xs" by blast
  have room: "length (concat xss) \<le> wb_writable W b1" using Cons.prems(2) b1(4) by simp
  from Cons.IH [OF b1(2) room] b1 show ?case by auto
qed simp

end

text \<open>What is left in the active file is the log with the torn record behind it.\<close>

lemma overwrite_zero_tail:
  assumes "length ys + k \<le> n"
  shows "overwrite (xs @ replicate n 0) (length xs) (ys @ replicate k 0) = overwrite (xs @ replicate n 0) (length xs) ys"
  using assms by (simp add: overwrite_zeros flip: replicate_add)

lemma fm_append_torn_fits:
  assumes P: "pedrolib_ok P" and z: "codec_zeros P" and i: "1 \<le> i" and e: "rec_wf e"
    and log: "log_file P cap es (fs_data fs (mrw_ino f))"
    and f: "mrw_length f = cap" "mrw_write_index f = log_size es" "cap < 2 ^ 32"
    and room: "log_size es + rec_size e \<le> cap"
  shows "\<exists>mem. fm_append_torn P i j e f fs = Some (Inr (fs_store (mrw_ino f) mem fs))
     \<and> log_file P cap (es @ [torn_entry i j e]) mem"
proof -
  let ?mem = "fs_data fs (mrw_ino f)" and ?t = "torn_entry i j e"
  have A: "codec_ok P" using P by simp
  have len: "length ?mem = cap" by (rule log_file_length [OF A log])
  have inv: "mrw_inv fs f" using f len room by (simp add: mrw_inv_def)
  have sz: "unat (rec_sizeof e) = rec_size e" using e by simp
  let ?b = "writable_buffer_new ?mem (Some (mrw_write_index f)) (rec_size e) (mrw_write_index f)"
  have alloc: "mrw_Allocate (unat (rec_sizeof e)) fs f = (?b, f\<lparr>mrw_write_index := mrw_write_index f + rec_size e\<rparr>)"
    unfolding sz by (rule mrw_Allocate_fits [OF inv]) (use f room in simp)
  from torn_bytes [OF A z i, where e = e and j = j] obtain n where n: "rec_bytes P ?t = concat (torn_stores P i j e) @ replicate n 0"
    by blast
  have small: "length (concat (torn_stores P i j e)) + n = rec_size ?t"
    using arg_cong [OF n, of length] A by simp
  have le: "length (concat (torn_stores P i j e)) \<le> rec_size e" using small torn_entry_size [of i j e] by linarith
  have new: "mrw_write_index f + rec_size e \<le> length ?mem" "rec_size e < 2 ^ 64" using f room len by simp_all
  note b = wbf_new [OF new, of "mrw_write_index f"]
  from wbf.appends_fit [OF b(1), of "torn_stores P i j e"] le b(2,3) obtain b' where b':
    "wb_appends wbf_ops (torn_stores P i j e) ?b = Some b'" "wbf_inv ?mem (mrw_write_index f) (mrw_write_index f) b'"
    "wbf_written b' = concat (torn_stores P i j e)" by (auto simp: wbf_ops_def)
  have mem: "wbf_mem b' = overwrite ?mem (log_size es) (concat (torn_stores P i j e))"
    using b'(2,3) f(2) by (simp add: wbf_inv_def)
  have notmax: "mrw_write_index f \<noteq> size_max" using f room by (simp add: size_max_def)
  have img: "?mem = log_bytes P es @ replicate (cap - log_size es) 0" using log by (simp add: log_file_def)
  have lb: "log_size es = length (log_bytes P es)" using A by simp
  have "overwrite ?mem (log_size es) (rec_bytes P ?t) = wbf_mem b'"
    unfolding mem n unfolding img lb
    by (rule overwrite_zero_tail) (use small torn_entry_size [of i j e] room A in simp)
  moreover have "log_file P cap (es @ [?t]) (overwrite ?mem (log_size es) (rec_bytes P ?t))"
    by (rule log_file_append [OF A log torn_entry_wf [OF e]]) (use torn_entry_size [of i j e] room in linarith)
  moreover have "fm_append_torn P i j e f fs = Some (Inr (fs_store (mrw_ino f) (wbf_mem b') fs))"
    using alloc b'(1) notmax by (simp add: fm_append_torn_def wbf_GetOffset_def writable_buffer_new_def Let_def)
  ultimately show ?thesis by (intro exI [of _ "wbf_mem b'"]) simp
qed

lemma fm_append_torn_full:
  assumes "fm_append_active P e s = Some (Inl ())" "fm_data_file s = Some f"
  shows "fm_append_torn P i j e f (fm_fs s) = Some (Inl ())"
  using assms by (auto simp: fm_append_active_def fm_append_file_def fm_append_torn_def Let_def
      split: option.splits sum.splits prod.splits if_splits)

lemma fm_Append_torn_fits:
  assumes P: "pedrolib_ok P" and z: "codec_zeros P" and i: "1 \<le> i" and ok: "fm_ok P cap logs s" and e: "rec_wf e"
    and room: "log_size (logs (fm_active_id s)) + rec_size e \<le> cap"
  shows "\<exists>fs. fm_Append_torn P cap io i j e s = Some fs \<and> fs_links fs = fs_links (fm_fs s)
     \<and> disk_ok P cap (logs(fm_active_id s := logs (fm_active_id s) @ [torn_entry i j e])) fs (fm_meta s)"
proof -
  let ?a = "fm_active_id s"
  have dok: "disk_ok P cap logs (fm_fs s) (fm_meta s)" and aok: "active_ok P cap logs s"
    using ok by (simp_all add: fm_ok_def)
  from active_okE [OF aok] obtain f log where f: "fm_data_file s = Some f" "fm_index_log s = Some log"
    "fs_links (fm_fs s) (mm_GetDataFilePath P (fm_meta s) ?a) = Some (mrw_ino f)" "mrw_length f = cap"
    "mrw_write_index f = log_size (logs ?a)" .
  have a: "?a \<in> set (mm_files (fm_meta s))" "fs_links (fm_fs s) (mm_GetIndexFilePath P (fm_meta s) ?a) = None"
    using aok by (auto simp: active_ok_def)
  have log: "log_file P cap (logs ?a) (fs_data (fm_fs s) (mrw_ino f))" by (rule disk_ok_log [OF dok a(1) f(3)])
  from fm_append_torn_fits [OF P z i e log f(4,5) disk_okD(2) [OF dok] room, of j] obtain mem where
    mem: "fm_append_torn P i j e f (fm_fs s) = Some (Inr (fs_store (mrw_ino f) mem (fm_fs s)))"
      "log_file P cap (logs ?a @ [torn_entry i j e]) mem" by blast
  show ?thesis
    using mem(1) f(1) disk_ok_store [OF P dok a(1) f(3) a(2) mem(2)] by (simp add: fm_Append_torn.simps)
qed

lemma fm_Append_torn_rolls:
  assumes P: "pedrolib_ok P" and z: "codec_zeros P" and i: "1 \<le> i" and ok: "fm_ok P cap logs s" and e: "rec_wf e"
    and io: "io_good io" and fits: "rec_size e \<le> cap" and more: "fm_active_id s \<noteq> -1"
    and full: "cap < log_size (logs (fm_active_id s)) + rec_size e"
  shows "\<exists>s1 fs. fm_Append_torn P cap io i j e s = Some fs \<and> fs_links fs = fs_links (fm_fs s1)
     \<and> fm_ok P cap (logs(fm_active_id s + 1 := [])) s1 \<and> fm_active_id s1 = fm_active_id s + 1
     \<and> mm_files (fm_meta s1) = mm_files (fm_meta s) @ [fm_active_id s + 1] \<and> mm_path (fm_meta s1) = mm_path (fm_meta s)
     \<and> disk_ok P cap (logs(fm_active_id s + 1 := [torn_entry i j e])) fs (fm_meta s1)"
proof -
  let ?n = "fm_active_id s + 1"
  from fm_CreateFile_next [OF P ok io more] obtain s1 where s1: "fm_CreateFile P cap io ?n s = Some (kOk, s1)"
    "fm_ok P cap (logs(?n := [])) s1" "fm_active_id s1 = ?n" "mm_files (fm_meta s1) = mm_files (fm_meta s) @ [?n]"
    "mm_path (fm_meta s1) = mm_path (fm_meta s)" by blast
  from fm_Append_torn_fits [OF P z i s1(2) e, of io j] s1(3) fits obtain fs where fs:
    "fm_Append_torn P cap io i j e s1 = Some fs" "fs_links fs = fs_links (fm_fs s1)"
    "disk_ok P cap (logs(?n := [torn_entry i j e])) fs (fm_meta s1)" by auto
  obtain f where f: "fm_data_file s = Some f" using ok by (auto simp: fm_ok_def active_ok_def)
  have "fm_Append_torn P cap io i j e s = Some fs"
    using fm_append_torn_full [OF fm_append_active_full [OF P ok e full] f] s1(1) f fs(1)
    by (subst fm_Append_torn.simps) simp
  then show ?thesis using s1 fs by auto
qed

section \<open>Opening the files after the crash\<close>

text \<open>
  The torn record is appended to a state of the file manager that stores the same records, whether
  the put opened a new file or not.
\<close>

lemma fm_Append_torn_ok:
  assumes P: "pedrolib_ok P" and z: "codec_zeros P" and i: "1 \<le> i" and ok: "fm_ok P cap logs s" and e: "rec_wf e"
    and io: "io_good io" and fits: "rec_size e < cap" and more: "fm_active_id s \<noteq> -1"
    and full: "\<And>fid. fid \<in> set (mm_files (fm_meta s)) \<Longrightarrow> log_size (logs fid) < cap"
    and tight: "log_size (logs (fm_active_id s)) + rec_size e \<noteq> cap"
  shows "\<exists>fs s1 logs1 logs2 loc. fm_Append_torn P cap io i j e s = Some fs \<and> fs_links fs = fs_links (fm_fs s1)
     \<and> fm_ok P cap logs1 s1 \<and> mm_path (fm_meta s1) = mm_path (fm_meta s)
     \<and> (\<forall>m. replay logs1 (mm_files (fm_meta s1)) m = replay logs (mm_files (fm_meta s)) m)
     \<and> (\<forall>fid \<in> set (mm_files (fm_meta s)). fid \<in> set (mm_files (fm_meta s1)) \<and> logs1 fid = logs fid)
     \<and> appended cap logs1 s1 (torn_entry i j e) loc logs2 s1 \<and> disk_ok P cap logs2 fs (fm_meta s1)
     \<and> (\<forall>fid \<in> set (mm_files (fm_meta s1)). log_size (logs2 fid) < cap)"
proof (cases "log_size (logs (fm_active_id s)) + rec_size e \<le> cap")
  case True
  let ?t = "torn_entry i j e"
  have small: "log_size (logs (fm_active_id s)) + rec_size ?t < cap"
    using True tight torn_entry_size [of i j e] by linarith
  from fm_Append_torn_fits [OF P z i ok e True, of io j] obtain fs where fs:
    "fm_Append_torn P cap io i j e s = Some fs" "fs_links fs = fs_links (fm_fs s)"
    "disk_ok P cap (logs(fm_active_id s := logs (fm_active_id s) @ [?t])) fs (fm_meta s)" by blast
  have "appended cap logs s ?t (Location (fm_active_id s) (of_nat (log_size (logs (fm_active_id s)))))
      (logs(fm_active_id s := logs (fm_active_id s) @ [?t])) s"
    using small by (simp add: appended_def Let_def)
  moreover have "log_size ((logs(fm_active_id s := logs (fm_active_id s) @ [?t])) fid) < cap"
    if "fid \<in> set (mm_files (fm_meta s))" for fid
    using full [OF that] small by simp
  ultimately show ?thesis using fs ok by blast
next
  case False
  let ?t = "torn_entry i j e" and ?n = "fm_active_id s + 1"
  note act = active_files [OF ok]
  have new: "?n \<notin> set (mm_files (fm_meta s))" using act(3) [of ?n] u32_succ(1) [OF more] by auto
  have small: "rec_size ?t < cap" using fits torn_entry_size [of i j e] by linarith
  from fm_Append_torn_rolls [OF P z i ok e io _ more, of j] fits False obtain s1 fs where s1:
    "fm_Append_torn P cap io i j e s = Some fs" "fs_links fs = fs_links (fm_fs s1)" "fm_ok P cap (logs(?n := [])) s1"
    "fm_active_id s1 = ?n" "mm_files (fm_meta s1) = mm_files (fm_meta s) @ [?n]" "mm_path (fm_meta s1) = mm_path (fm_meta s)"
    "disk_ok P cap (logs(?n := [?t])) fs (fm_meta s1)" by auto
  have "appended cap (logs(?n := [])) s1 ?t (Location ?n 0) (logs(?n := [?t])) s1"
    using small s1(4) by (simp add: appended_def Let_def)
  moreover have "replay (logs(?n := [])) (mm_files (fm_meta s1)) m = replay logs (mm_files (fm_meta s)) m" for m
  proof -
    have "replay (logs(?n := [])) (mm_files (fm_meta s)) m = replay logs (mm_files (fm_meta s)) m"
      by (rule replay_cong) (use new in auto)
    then show ?thesis using s1(5) by simp
  qed
  moreover have "log_size ((logs(?n := [?t])) fid) < cap" if "fid \<in> set (mm_files (fm_meta s1))" for fid
    using that s1(5) full small by auto
  ultimately show ?thesis using s1 new by (intro exI conjI) auto
qed

text \<open>
  Opening a directory in which one record \<open>t\<close> has been appended to what a database stored, by whatever
  means. \<open>fm\<close> is a state of the file manager from before the append, \<open>fs\<close> the file system after it.
\<close>

lemma db_open_appended:
  assumes P: "pedrolib_ok P" and io: "io_good io" and ok: "db_ok P cap logs s" and rec: "db_recoverable logs s"
    and p: "path_valid (mm_path (fm_meta (db_fm s)))" and seg: "opt_cache_segments opts \<noteq> 0"
    and fm: "fs_links fs = fs_links (fm_fs fm)" "fm_ok P cap logs1 fm" "mm_path (fm_meta fm) = mm_path (fm_meta (db_fm s))"
      "\<And>m. replay logs1 (mm_files (fm_meta fm)) m = replay logs (db_files s) m"
      "\<And>fid. fid \<in> set (db_files s) \<Longrightarrow> fid \<in> set (mm_files (fm_meta fm)) \<and> logs1 fid = logs fid"
      "appended cap logs1 fm t loc logs2 fm" "disk_ok P cap logs2 fs (fm_meta fm)"
      "\<And>fid. fid \<in> set (mm_files (fm_meta fm)) \<Longrightarrow> log_size (logs2 fid) < cap"
    and t: "re_type t = (if val = [] then kDelete else kSet)"
  shows "\<exists>s1. db_Open P cap io opts (mm_path (fm_meta (db_fm s))) buf fs = Some (kOk, Some s1, fs)
     \<and> db_sane P cap logs2 s1 \<and> db_current s1 \<and> db_options s1 = opts
     \<and> db_record logs2 s1 = (db_record logs s)(re_key t := if val = [] then None else Some t)
     \<and> (\<forall>fid \<in> set (db_files s1). log_size (logs2 fid) < cap)"
proof -
  note k = db_okD [OF ok]
  note act = active_files [OF fm(2)] and facts = appended_facts [OF fm(2,6)]
  have last: "last (mm_files (fm_meta fm)) = fm_active_id fm" using act(1) by (metis last_snoc)
  have "dir_sound P cap logs2 fs (fm_meta fm)"
    unfolding dir_sound_def last
    using fm(1-3,7,8) p k(6) act(4) by (auto simp: not_full_def fm_ok_def active_ok_def)
  from db_Open_sound [OF P this io seg, of buf] obtain s1 where s1:
    "db_Open P cap io opts (mm_path (fm_meta (db_fm s))) buf fs = Some (kOk, Some s1, fs)" "db_sane P cap logs2 s1"
    "db_recoverable logs2 s1" "db_current s1" "db_options s1 = opts" "fm_meta (db_fm s1) = fm_meta fm"
    unfolding fm(3) by blast
  have files: "db_files s1 = mm_files (fm_meta fm)" using s1(6) by (simp add: db_files_def)
  have idx: "db_indices s1 = replay_entry loc t (db_indices s)"
    using s1(3) rec facts(10) fm(4) unfolding db_recoverable_def files by simp
  have old: "log_at (logs2 (loc_id (dir_loc d))) (unat (loc_offset (dir_loc d)))
      = log_at (logs (loc_id (dir_loc d))) (unat (loc_offset (dir_loc d)))" if "db_indices s x = Some d" for x d
  proof -
    from index_okE [OF k(2) that] obtain y where y: "loc_id (dir_loc d) \<in> set (db_files s)"
      "log_at (logs (loc_id (dir_loc d))) (unat (loc_offset (dir_loc d))) = Some y" .
    then show ?thesis using facts(5) fm(5) by metis
  qed
  have "db_record logs2 s1 x = ((db_record logs s)(re_key t := if val = [] then None else Some t)) x" for x
    using t facts(1) old by (auto simp: db_record_def idx replay_entry_def split: option.splits)
  then have "db_record logs2 s1 = (db_record logs s)(re_key t := if val = [] then None else Some t)" by blast
  with s1 fm(8) files show ?thesis by (intro exI conjI) auto
qed

text \<open>What the gets of the new database answer.\<close>

lemma db_get_appended:
  assumes P: "pedrolib_ok P" and io: "io_good io" and ok: "db_ok P cap logs s"
    and s1: "db_sane P cap logs1 s1" "db_current s1" "opt_compress_value (db_options s) = opt_compress_value (db_options s1)"
      "db_record logs1 s1 = (db_record logs s)(re_key t := if val = [] then None else Some t)"
      "\<forall>fid \<in> set (db_files s1). log_size (logs1 fid) < cap"
  shows "\<exists>s2. db_Get P io use_read_cache k s1 = Some (
         if k = re_key t then
           if val = [] then (kNotFound, None, s2)
           else if rec_validate P t then (kOk, Some (db_value P s t), s2) else (kCorruption, None, s2)
         else case db_abs P logs s k of None \<Rightarrow> (kNotFound, None, s2) | Some v \<Rightarrow> (kOk, Some v, s2))"
proof -
  have same: "db_value P s1 = db_value P s" using s1(3) by (simp add: db_value_def fun_eq_iff)
  have shadow: "\<not> db_shadowed cap use_read_cache k s1"
    by (rule not_shadowed_sane [OF s1(1)]) (use s1(5) in blast)
  show ?thesis
    using db_HandleGet_sane [OF P s1(1) io s1(2), of use_read_cache k] db_record_valid [OF ok, of k] shadow
    unfolding db_Get_def db_abs_record s1(4) same
    by (cases "db_record logs s k") (auto split: if_splits)
qed

lemma db_torn_open:
  assumes P: "pedrolib_ok P" and z: "codec_zeros P" and i: "1 \<le> i" and io: "io_good io"
    and ok: "db_ok P cap logs s" and rec: "db_recoverable logs s" and rw: "\<not> db_readonly s"
    and p: "path_valid (mm_path (fm_meta (db_fm s)))" and seg: "opt_cache_segments opts \<noteq> 0"
    and e: "e = db_entry P s key val" "length key < 256" "rec_size e < cap" and more: "db_active s \<noteq> -1"
    and full: "\<And>fid. fid \<in> set (db_files s) \<Longrightarrow> log_size (logs fid) < cap"
    and tight: "log_size (logs (db_active s)) + rec_size e \<noteq> cap"
  shows "\<exists>fs s1 logs1. db_Put_torn P cap io i j key val s = Some fs
     \<and> db_Open P cap io opts (mm_path (fm_meta (db_fm s))) buf fs = Some (kOk, Some s1, fs)
     \<and> db_sane P cap logs1 s1 \<and> db_current s1 \<and> db_options s1 = opts
     \<and> db_record logs1 s1 = (db_record logs s)(re_key (torn_entry i j e) := if val = [] then None else Some (torn_entry i j e))
     \<and> (\<forall>fid \<in> set (db_files s1). log_size (logs1 fid) < cap)"
proof -
  let ?t = "torn_entry i j e"
  note k = db_okD [OF ok]
  have cap: "cap < 2 ^ 32" using disk_okD(2) k(1) by (auto simp: fm_ok_def)
  have wf: "rec_wf e" using e cap by (simp add: rec_wf_def db_entry_def Let_def)
  from fm_Append_torn_ok [OF P z i k(1) wf io e(3) more [unfolded db_active_def] full [unfolded db_files_def]
      tight [unfolded db_active_def], of j]
  obtain fs fm logs1 logs2 loc where fm: "fm_Append_torn P cap io i j e (db_fm s) = Some fs"
    "fs_links fs = fs_links (fm_fs fm)" "fm_ok P cap logs1 fm" "mm_path (fm_meta fm) = mm_path (fm_meta (db_fm s))"
    "\<And>m. replay logs1 (mm_files (fm_meta fm)) m = replay logs (db_files s) m"
    "\<And>fid. fid \<in> set (db_files s) \<Longrightarrow> fid \<in> set (mm_files (fm_meta fm)) \<and> logs1 fid = logs fid"
    "appended cap logs1 fm ?t loc logs2 fm" "disk_ok P cap logs2 fs (fm_meta fm)"
    "\<And>fid. fid \<in> set (mm_files (fm_meta fm)) \<Longrightarrow> log_size (logs2 fid) < cap"
    unfolding db_files_def by blast
  have put: "db_Put_torn P cap io i j key val s = Some fs"
    using rw e fm(1) wf cap by (simp add: db_Put_torn_def Let_def)
  have ty: "re_type ?t = (if val = [] then kDelete else kSet)" using e(1) by (simp add: db_entry_def Let_def)
  from put db_open_appended [OF P io ok rec p seg fm(2-9) ty, of buf] show ?thesis by blast
qed

lemma db_torn_get:
  assumes P: "pedrolib_ok P" and z: "codec_zeros P" and i: "1 \<le> i" and io: "io_good io"
    and h: "db_holds P cap (opt_compress_value opts) logs s m"
    and p: "path_valid (mm_path (fm_meta (db_fm s)))" and seg: "opt_cache_segments opts \<noteq> 0"
    and e: "e = db_entry P s key val" "length key < 256" "rec_size e < cap" and more: "db_active s \<noteq> -1"
    and full: "\<forall>fid \<in> set (db_files s). log_size (logs fid) < cap"
    and tight: "log_size (logs (db_active s)) + rec_size e \<noteq> cap"
  shows "\<exists>fs s1. db_Put_torn P cap io i j key val s = Some fs
     \<and> db_Open P cap io opts (mm_path (fm_meta (db_fm s))) buf fs = Some (kOk, Some s1, fs)
     \<and> (\<forall>k. \<exists>s2. db_Get P io use_read_cache k s1 = Some (
         if k = re_key (torn_entry i j e) then
           if val = [] then (kNotFound, None, s2)
           else if rec_validate P (torn_entry i j e) then (kOk, Some (db_value P s (torn_entry i j e)), s2)
           else (kCorruption, None, s2)
         else case m k of None \<Rightarrow> (kNotFound, None, s2) | Some v \<Rightarrow> (kOk, Some v, s2)))"
proof -
  let ?t = "torn_entry i j e"
  from h have ok: "db_ok P cap logs s" and rec: "db_recoverable logs s" and rw: "\<not> db_readonly s"
    and c: "opt_compress_value (db_options s) = opt_compress_value opts" and m: "m = db_abs P logs s"
    by (auto simp: db_holds_def)
  from db_torn_open [OF P z i io ok rec rw p seg e more _ tight, of j buf] full obtain fs s1 logs1 where s1:
    "db_Put_torn P cap io i j key val s = Some fs"
    "db_Open P cap io opts (mm_path (fm_meta (db_fm s))) buf fs = Some (kOk, Some s1, fs)"
    "db_sane P cap logs1 s1" "db_current s1" "db_options s1 = opts"
    "db_record logs1 s1 = (db_record logs s)(re_key ?t := if val = [] then None else Some ?t)"
    "\<forall>fid \<in> set (db_files s1). log_size (logs1 fid) < cap" by auto
  note db_get_appended [OF P io ok s1(3,4) _ s1(6,7), of use_read_cache, unfolded s1(5) m [symmetric], OF c]
  with s1(1,2) show ?thesis by blast
qed

end
