(* ===== verification/StaleBlock.thy ===== *)
theory StaleBlock
  imports DBStore
begin

text \<open>
  Reading the active file through the cache. A get reads a record directly when it is in the file
  \<^verbatim>\<open>max_file_\<close>, and through the cache of blocks otherwise
  (\<^verbatim>\<open>DBImpl::HandleGet\<close>). A put keeps \<^verbatim>\<open>max_file_\<close> up to date, but a compaction
  that opens a new file does not (\<^verbatim>\<open>DBImpl::Compact\<close>): until the next put, the records of
  the active file are read through the cache, and its blocks stay there as they were.
\<close>

section \<open>Operations that do not look at the read cache\<close>

abbreviation with_cache :: "rc_cache \<Rightarrow> 'a db \<Rightarrow> 'a db" where
  "with_cache bc s \<equiv> s\<lparr>db_read_cache := bc\<rparr>"

text \<open>All other updates of the state commute with it.\<close>

lemma with_cache_push:
  "s\<lparr>db_read_cache := bc, db_max_file := a\<rparr> = with_cache bc (s\<lparr>db_max_file := a\<rparr>)"
  "s\<lparr>db_read_cache := bc, db_indices := b\<rparr> = with_cache bc (s\<lparr>db_indices := b\<rparr>)"
  "s\<lparr>db_read_cache := bc, db_fm := c\<rparr> = with_cache bc (s\<lparr>db_fm := c\<rparr>)"
  "s\<lparr>db_read_cache := bc, db_compact_tasks := d\<rparr> = with_cache bc (s\<lparr>db_compact_tasks := d\<rparr>)"
  "s\<lparr>db_read_cache := bc, db_file_states := e\<rparr> = with_cache bc (s\<lparr>db_file_states := e\<rparr>)"
  "s\<lparr>db_read_cache := bc, db_buf := f\<rparr> = with_cache bc (s\<lparr>db_buf := f\<rparr>)"
  by simp_all

lemma with_cache_same:
  "db_entry P (with_cache bc s) key val = db_entry P s key val" "db_value P (with_cache bc s) e = db_value P s e"
  by (simp_all add: db_entry_def db_value_def)

lemma db_UpdateUnused_cache:
  "db_UpdateUnused loc n (with_cache bc s) = with_cache bc (db_UpdateUnused loc n s)"
  by (simp add: db_UpdateUnused_def set_file_state_def file_state_of_def Let_def)

lemma db_put_index_cache:
  "db_put_index key val e loc (with_cache bc s) = map_prod id (with_cache bc) (db_put_index key val e loc s)"
  by (cases "db_indices s key")
    (simp_all only: db_put_index_def Let_def db.select_convs db.simps with_cache_push db_UpdateUnused_cache
      option.case split: if_split, simp_all)

lemma db_HandlePut_cache:
  "db_HandlePut P cap io sync key val (with_cache bc s)
     = map_option (map_prod id (with_cache bc)) (db_HandlePut P cap io sync key val s)"
proof -
  have fm: "db_fm (with_cache bc s) = db_fm s" "db_readonly (with_cache bc s) = db_readonly s" by simp_all
  show ?thesis
    unfolding db_HandlePut_def Let_def with_cache_same fm with_cache_push db_put_index_cache
    by (simp split: option.split prod.split)
qed

lemma db_get_direct_cache:
  "db_get_direct P io d (with_cache bc s)
     = map_option (map_prod id (map_prod id (with_cache bc))) (db_get_direct P io d s)"
proof -
  have fm: "db_fm (with_cache bc s) = db_fm s" "db_buf (with_cache bc s) = db_buf s" by simp_all
  show ?thesis
    unfolding db_get_direct_def Let_def fm with_cache_push
    by (simp add: with_cache_push with_cache_same del: db.update_convs split: option.split prod.split)
qed

section \<open>The stale block\<close>

text \<open>The zeros behind the log, seen through a block.\<close>

lemma log_image_block:
  assumes P: "codec_ok P" and k: "k = log_size es div 4096" "(k + 1) * 4096 \<le> cap"
    and n: "log_size es + n \<le> (k + 1) * 4096"
  shows "length (slice (log_image P cap es) (k * 4096) 4096) = 4096"
    and "slice (slice (log_image P cap es) (k * 4096) 4096) (log_size es - k * 4096) n = replicate n 0"
proof -
  have le: "k * 4096 \<le> log_size es" unfolding k(1) by simp
  have len: "length (log_image P cap es) = cap" using P n k(2) by (simp add: log_image_def)
  then show "length (slice (log_image P cap es) (k * 4096) 4096) = 4096" using k(2) by simp
  have "(log_size es - k * 4096) + n \<le> 4096" using n le by simp
  from slice_slice [OF this, of "log_image P cap es" "k * 4096"] le
  have "slice (slice (log_image P cap es) (k * 4096) 4096) (log_size es - k * 4096) n = slice (log_image P cap es) (log_size es) n"
    by simp
  also have "\<dots> = take n (replicate (cap - log_size es) 0)"
    unfolding log_image_def using slice_append_right [of "log_bytes P es"] P by simp
  finally show "slice (slice (log_image P cap es) (k * 4096) 4096) (log_size es - k * 4096) n = replicate n 0"
    using n k(2) by (simp add: min_def)
qed

lemma stale_block_run:
  assumes P: "pedrolib_ok P" and io: "io_good io" and ok: "db_ok P cap logs s" and rw: "\<not> db_readonly s"
    and max: "db_max_file s \<noteq> db_active s" and opt: "opt_cache_enable (db_options s)" "rc_capacities (db_read_cache s)"
    and d0: "db_indices s key0 = Some d0" "loc_id (dir_loc d0) = db_active s" "db_record logs s key0 = Some e0"
    and L: "L = log_size (logs (db_active s))" "k = L div 4096" and off0: "unat (loc_offset (dir_loc d0)) div 4096 = k"
    and e: "e = db_entry P s key val" "db_fits P cap s key val" "val \<noteq> []" "L + rec_size e \<le> (k + 1) * 4096" "L + rec_size e < cap"
    and e': "e' = db_entry P s key' val'" "db_fits P cap s key' val'" "val' \<noteq> []" "cap < L + rec_size e + rec_size e'" "key' \<noteq> key"
    and more: "db_active s \<noteq> -1"
  shows "\<exists>s1 s2 s3 s4 s5. db_Get P io True key0 s = Some (kOk, Some (db_value P s e0), s1)
     \<and> db_Put P cap io sync key val s1 = Some (kOk, s2) \<and> db_Put P cap io sync key' val' s2 = Some (kOk, s3)
     \<and> db_Get P io True key s3 = Some (kCorruption, None, s4) \<and> db_Get P io False key s3 = Some (kOk, Some val, s5)"
proof -
  let ?a = "db_active s"
  note h = db_okD [OF ok]
  have A: "codec_ok P" using P by simp
  have cap: "cap < 2 ^ 32" using appended_log_bound(2) [OF h(1)] active_files(4) [OF h(1)] by blast
  have sane: "db_sane P cap logs s" using ok by (simp add: db_ok_sane)
  from index_okE [OF h(2) d0(1)] obtain x where x: "loc_id (dir_loc d0) \<in> set (db_files s)"
    "log_at (logs (loc_id (dir_loc d0))) (unat (loc_offset (dir_loc d0))) = Some x" "dir_entry_size d0 = rec_sizeof x" by blast
  have x0: "x = e0" using x(2) d0 by (simp add: db_record_def)
  have room0: "unat (loc_offset (dir_loc d0)) + rec_size e0 \<le> (k + 1) * 4096"
    using log_at_bound [OF x(2)] e(4) unfolding d0(2) x0 L(1) by linarith
  from db_get_cached_any [OF P sane io x off0 [symmetric]] opt(2) room0 db_record_valid [OF ok d0(3)] obtain c bc where
    g0: "db_get_cached P io d0 s = Some (kOk, Some (db_value P s e0), s\<lparr>db_fm := (db_fm s)\<lparr>fm_open_files := c\<rparr>, db_read_cache := bc\<rparr>)"
      "fm_ok P cap logs ((db_fm s)\<lparr>fm_open_files := c\<rparr>)" "rc_capacities bc"
      "rc_cache_ok P (fm_holds P (db_fm s)) (\<lambda>x. x < ?a \<or> x = ?a) bc"
      "rc_lookup P bc (rc_idx ?a k) = Some (slice (log_image P cap (logs ?a)) (k * 4096) 4096)"
    unfolding x0 d0(2) by auto
  let ?t = "s\<lparr>db_fm := (db_fm s)\<lparr>fm_open_files := c\<rparr>\<rparr>"
  have get0: "db_Get P io True key0 s = Some (kOk, Some (db_value P s e0), with_cache bc ?t)"
    using g0(1) d0(1,2) max opt(1) by (auto simp: db_Get_def db_HandleGet_def)
  have t: "db_ok P cap logs ?t" using db_ok_reads [OF ok g0(2) h(4), of "db_buf s"] by simp
  have act: "db_active ?t = ?a" "db_files ?t = db_files s" by (simp_all add: db_active_def db_files_def)
  have ent: "db_entry P ?t = db_entry P s" "db_fits P cap ?t = db_fits P cap s"
    by (simp_all add: db_entry_def db_fits_def fun_eq_iff)
  from db_HandlePut_ok [OF P t io, of key val sync] rw e(2,3) more obtain t1 logs1 loc1 where p1:
    "db_HandlePut P cap io sync key val ?t = Some (kOk, t1)" "db_ok P cap logs1 t1" "db_options t1 = db_options s"
    "\<not> db_readonly t1" "appended cap logs (db_fm s) e loc1 logs1 (db_fm t1)"
    "db_indices t1 = replay_entry loc1 e (db_indices s)" "db_abs P logs1 t1 key = Some val"
    unfolding act ent e(1) [symmetric] by (auto simp: appended_def Let_def)
  have in1: "loc1 = Location ?a (of_nat L)" "logs1 = logs(?a := logs ?a @ [e])" "db_active t1 = ?a"
    using p1(5) e(5) by (simp_all add: appended_def Let_def L(1) db_active_def)
  have ent1: "db_entry P t1 = db_entry P s" "db_fits P cap t1 = db_fits P cap s"
    using p1(3) by (simp_all add: db_entry_def db_fits_def fun_eq_iff)
  from db_HandlePut_ok [OF P p1(2) io p1(4), of key' val' sync] e'(2,3) more obtain t2 logs2 loc2 where p2:
    "db_HandlePut P cap io sync key' val' t1 = Some (kOk, t2)" "db_ok P cap logs2 t2" "db_current t2"
    "db_options t2 = db_options s" "appended cap logs1 (db_fm t1) e' loc2 logs2 (db_fm t2)"
    "db_indices t2 = replay_entry loc2 e' (db_indices t1)" "db_abs P logs2 t2 key = Some val"
    unfolding in1(3) ent1 e'(1) [symmetric] using p1(3,7) e'(5) by auto
  have "\<not> log_size (logs1 (fm_active_id (db_fm t1))) + rec_size e' \<le> cap"
    using in1 e'(4) by (simp add: L(1) db_active_def)
  then have "db_active t2 \<noteq> ?a" using p2(5) in1(3) by (auto simp: appended_def Let_def db_active_def)
  then have max2: "?a \<noteq> db_max_file t2" using p2(3) by (simp add: db_current_def)
  have ekey: "re_key e = key" "re_type e = kSet" "re_key e' = key'" "re_type e' = kSet"
    using e(1,3) e'(1,3) by simp_all
  let ?d = "\<lparr>dir_entry_size = rec_sizeof e, dir_loc = Location ?a (of_nat L)\<rparr>"
  have idx: "db_indices t2 key = Some ?d" using p1(6) p2(6) in1(1) ekey e'(5) by (simp add: replay_entry_cases)
  have wf: "unat (rec_sizeof e) = rec_size e" using db_fits_wf [OF e(2) cap] e(1) by simp
  have uL: "unat (of_nat L :: u32) = L" using e(5) cap by (intro unat_of_nat32) simp
  have block: "(k + 1) * 4096 \<le> cap"
  proof -
    obtain n where n: "cap = 4096 * n" using h(6) by blast
    have "L < 4096 * n" using e(5) n by simp
    then have "k < n" unfolding L(2) by (simp add: less_mult_imp_div_less mult.commute)
    then show ?thesis unfolding n by simp
  qed
  have kL: "k * 4096 \<le> L" unfolding L(2) by simp
  have sk: "Suc k < 2 ^ 20" using block cap by simp
  note blk = log_image_block [OF A, of k "logs ?a" cap "rec_size e", folded L(1), OF L(2) block e(4)]
  have inv: "seg_inv lru_ok bc" using g0(4) by (simp add: rc_cache_ok_def)
  have "\<exists>ctx bc'. rc_Get P (fm_AcquireDataFile P io) (\<lambda>fm. rf_ops (fm_fs fm))
      (rc_Context (Location ?a (of_nat L)) (rec_sizeof e)) (db_fm t2) bc = Some (kCorruption, ctx, db_fm t2, bc')"
    by (rule rc_Get_stale [OF A inv g0(3,5) blk(1) _ sk]) (use blk(2) kL e(4) uL wf in simp_all)
  then obtain ctx bc' where stale: "rc_Get P (fm_AcquireDataFile P io) (\<lambda>fm. rf_ops (fm_fs fm))
      (rc_Context (Location ?a (of_nat L)) (rec_sizeof e)) (db_fm t2) bc = Some (kCorruption, ctx, db_fm t2, bc')" by blast
  have "db_get_cached P io ?d (with_cache bc t2) = Some (kCorruption, None, (with_cache bc t2)\<lparr>db_fm := db_fm t2, db_read_cache := bc'\<rparr>)"
    using stale by (simp add: db_get_cached_def)
  then have get1: "\<exists>s4. db_Get P io True key (with_cache bc t2) = Some (kCorruption, None, s4)"
    using idx max2 opt(1) p2(4) by (simp add: db_Get_def db_HandleGet_def)
  have "\<not> db_shadowed cap False key t2" using idx e(5) uL wf by (simp add: db_shadowed_def)
  then obtain u where "db_HandleGet P io False key t2 = Some (kOk, Some val, u)"
    using db_HandleGet_ok [OF P p2(2) io p2(3), of False key] p2(7) by auto
  then have "db_Get P io False key (with_cache bc t2) = Some (kOk, Some val, with_cache bc u)"
    using idx by (simp add: db_Get_def db_HandleGet_def db_get_direct_cache)
  moreover have "db_Put P cap io sync key val (with_cache bc ?t) = Some (kOk, with_cache bc t1)"
    using p1(1) by (simp only: db_Put_def db_HandlePut_cache) simp
  moreover have "db_Put P cap io sync key' val' (with_cache bc t1) = Some (kOk, with_cache bc t2)"
    using p2(1) by (simp only: db_Put_def db_HandlePut_cache) simp
  ultimately show ?thesis using get0 get1 by blast
qed

end
