(* ===== verification/LongKey.thy ===== *)
theory LongKey
  imports CrashPut
begin

text \<open>
  A put of a key of 256 bytes or more, which neither \<^verbatim>\<open>HandlePut\<close> nor \<^verbatim>\<open>Pack\<close>
  rejects. The header keeps the low byte of the size of the key, so the file holds another record
  (\<open>cut_entry\<close>): the key is a prefix, the value begins inside the key, and a rest is left over
  behind it (\<open>cut_rest\<close>). When the rest is zeros, nothing but this record is ever seen again.
\<close>

definition cut_entry :: "rec_entry \<Rightarrow> rec_entry" where
  "cut_entry e = (let n = length (re_key e) mod 256 in
     e\<lparr>re_key := take n (re_key e), re_value := take (length (re_value e)) (drop n (re_key e @ re_value e))\<rparr>)"

definition cut_rest :: "rec_entry \<Rightarrow> bytes" where
  "cut_rest e = drop (length (re_key e) mod 256 + length (re_value e)) (re_key e @ re_value e)"

section \<open>The record in the file\<close>

lemma cut_entry_simps [simp]:
  "re_type (cut_entry e) = re_type e" "re_checksum (cut_entry e) = re_checksum e"
  "re_timestamp (cut_entry e) = re_timestamp e"
  "length (re_key (cut_entry e)) = length (re_key e) mod 256" "length (re_value (cut_entry e)) = length (re_value e)"
  by (simp_all add: cut_entry_def Let_def)

lemma rec_bytes_cut: "rec_bytes P e = rec_bytes P (cut_entry e) @ cut_rest e"
proof -
  let ?n = "length (re_key e) mod 256" and ?kv = "re_key e @ re_value e"
  have "rec_header_of (cut_entry e) = rec_header_of e"
    by (simp add: rec_header_of_def word_of_nat_eq_iff take_bit_eq_mod)
  moreover have "re_key (cut_entry e) = take ?n ?kv" by (simp add: cut_entry_def Let_def)
  moreover have "re_value (cut_entry e) = take (length (re_value e)) (drop ?n ?kv)"
    by (cases e) (simp add: cut_entry_def Let_def del: drop_append take_append)
  moreover have "cut_rest e = drop (length (re_value e)) (drop ?n ?kv)" by (simp only: cut_rest_def drop_drop add.commute)
  ultimately show ?thesis unfolding rec_bytes_def by (simp only: append_take_drop_id append.assoc)
qed

lemma cut_entry_size: "rec_size (cut_entry e) + length (cut_rest e) = rec_size e"
proof -
  have "length (re_key e) mod 256 \<le> length (re_key e)" by simp
  then show ?thesis by (simp add: rec_size_def cut_rest_def)
qed

lemma cut_entry_wf: "re_type e \<in> {kSet, kDelete} \<Longrightarrow> rec_size e < 2 ^ 32 \<Longrightarrow> rec_wf (cut_entry e)"
  using cut_entry_size [of e] by (simp add: rec_wf_def)

text \<open>What the append leaves in the file, whatever the rest is, and when it is zeros.\<close>

lemma long_append_slice:
  assumes P: "codec_ok P" and room: "off + rec_size e \<le> length mem"
  shows "slice (overwrite mem off (rec_bytes P e)) off (rec_size (cut_entry e)) = rec_bytes P (cut_entry e)"
proof -
  let ?m = "overwrite mem off (rec_bytes P e)" and ?n = "rec_size (cut_entry e)"
  have whole: "slice ?m off (rec_size e) = rec_bytes P (cut_entry e) @ cut_rest e"
    using slice_overwrite_same [of off mem "rec_bytes P e"] room P unfolding rec_bytes_cut [of P e, symmetric] by simp
  have "slice ?m off ?n = take ?n (slice ?m off (rec_size e))"
    using cut_entry_size [of e] unfolding take_slice by (simp add: min_def)
  then show ?thesis using P unfolding whole by simp
qed

lemma long_append_log:
  assumes P: "codec_ok P" and log: "log_file P cap es mem" and room: "log_size es + rec_size e \<le> cap"
    and e: "re_type e \<in> {kSet, kDelete}" "rec_size e < 2 ^ 32" and rest: "\<forall>b \<in> set (cut_rest e). b = 0"
  shows "log_file P cap (es @ [cut_entry e]) (overwrite mem (log_size es) (rec_bytes P e))"
proof -
  have zeros: "cut_rest e = replicate (length (cut_rest e)) 0" using rest by (simp add: replicate_eqI)
  have img: "mem = log_bytes P es @ replicate (cap - log_size es) 0" using log by (simp add: log_file_def)
  have lb: "log_size es = length (log_bytes P es)" using P by simp
  have "overwrite mem (log_size es) (rec_bytes P e) = overwrite mem (log_size es) (rec_bytes P (cut_entry e))"
    unfolding rec_bytes_cut [of P e] unfolding img lb
    by (subst zeros, rule overwrite_zero_tail) (use cut_entry_size [of e] room P in simp)
  moreover have "log_file P cap (es @ [cut_entry e]) (overwrite mem (log_size es) (rec_bytes P (cut_entry e)))"
    by (rule log_file_append [OF P log cut_entry_wf [OF e]]) (use cut_entry_size [of e] room in linarith)
  ultimately show ?thesis by simp
qed

section \<open>The put, and a get from the same process\<close>

lemma db_put_index_max:
  "db_max_file (snd (db_put_index key val e loc s)) = max (db_max_file s) (loc_id loc)"
  "db_options (snd (db_put_index key val e loc s)) = db_options s"
  "db_buf (snd (db_put_index key val e loc s)) = db_buf s"
  by (cases "db_indices s key"; simp add: db_put_index_def Let_def)+

lemma long_put:
  assumes P: "pedrolib_ok P" and ok: "db_ok P cap logs s" and rw: "\<not> db_readonly s" and val: "val \<noteq> []"
    and e: "e = db_entry P s key val" and room: "log_size (logs (db_active s)) + rec_size e < cap"
  shows "\<exists>s1 f l mem. db_Put P cap io sync key val s = Some (kOk, s1)
     \<and> db_indices s1 key = Some \<lparr>dir_entry_size = rec_sizeof e, dir_loc = Location (db_active s) (of_nat (log_size (logs (db_active s))))\<rparr>
     \<and> db_max_file s1 = db_active s \<and> db_options s1 = db_options s
     \<and> db_fm s1 = (db_fm s)\<lparr>fm_fs := fs_store (mrw_ino f) mem (fm_fs (db_fm s)), fm_data_file := Some f, fm_index_log := Some l\<rparr>
     \<and> mrw_length f = cap \<and> mrw_write_index f \<le> cap \<and> length mem = cap
     \<and> slice mem (log_size (logs (db_active s))) (rec_size (cut_entry e)) = rec_bytes P (cut_entry e)
     \<and> ((\<forall>b \<in> set (cut_rest e). b = 0) \<longrightarrow>
          disk_ok P cap (logs(db_active s := logs (db_active s) @ [cut_entry e])) (fm_fs (db_fm s1)) (fm_meta (db_fm s)))"
proof -
  let ?s = "db_fm s" and ?a = "db_active s"
  let ?off = "log_size (logs ?a)"
  note k = db_okD [OF ok]
  have A: "codec_ok P" using P by simp
  have dok: "disk_ok P cap logs (fm_fs ?s) (fm_meta ?s)" and aok: "active_ok P cap logs ?s"
    using k(1) by (simp_all add: fm_ok_def)
  have cap: "cap < 2 ^ 32" using disk_okD(2) [OF dok] .
  from active_okE [OF aok] obtain f log where f: "fm_data_file ?s = Some f" "fm_index_log ?s = Some log"
    "fs_links (fm_fs ?s) (mm_GetDataFilePath P (fm_meta ?s) ?a) = Some (mrw_ino f)" "mrw_length f = cap"
    "mrw_write_index f = ?off" unfolding db_active_def .
  have a: "?a \<in> set (mm_files (fm_meta ?s))" "fs_links (fm_fs ?s) (mm_GetIndexFilePath P (fm_meta ?s) ?a) = None"
    using aok by (auto simp: active_ok_def db_active_def)
  have log: "log_file P cap (logs ?a) (fs_data (fm_fs ?s) (mrw_ino f))" by (rule disk_ok_log [OF dok a(1) f(3)])
  note len = log_file_length [OF A log]
  have size: "rec_size e < 2 ^ 32" and fits: "?off + rec_size e \<le> cap" using room cap by simp_all
  have ty: "re_type e \<in> {kSet, kDelete}" using e by (simp add: db_entry_def Let_def)
  let ?mem = "overwrite (fs_data (fm_fs ?s) (mrw_ino f)) ?off (rec_bytes P e)" and ?loc = "Location ?a (of_nat ?off)"
  let ?f = "f\<lparr>mrw_write_index := ?off + rec_size e\<rparr>"
  let ?l = "idx_pack P \<lparr>ix_key = re_key e, ix_type = re_type e, ix_offset = of_nat ?off, ix_len = rec_sizeof e\<rparr> log"
  let ?fm = "?s\<lparr>fm_fs := fs_store (mrw_ino ?f) ?mem (fm_fs ?s), fm_data_file := Some ?f, fm_index_log := Some ?l\<rparr>"
  have "fm_append_active P e ?s = Some (Inr (?loc, ?fm))"
    using fm_append_file_bytes [OF P size f(4,5) len cap fits, of ?a log] f(1,2) unfolding db_active_def
    by (simp add: fm_append_active_def)
  then have app: "fm_Append P cap io e ?s = Some (kOk, ?loc, ?fm)" by (simp add: fm_Append.simps)
  obtain s1 where s1: "db_put_index key val e ?loc (s\<lparr>db_fm := ?fm\<rparr>) = (kOk, s1)" "db_fm s1 = ?fm"
    "db_indices s1 key = Some \<lparr>dir_entry_size = rec_sizeof e, dir_loc = ?loc\<rparr>"
    using db_put_index_set [OF val, of key e ?loc "s\<lparr>db_fm := ?fm\<rparr>"] by auto
  note same = db_put_index_max(1,2) [of key val e ?loc "s\<lparr>db_fm := ?fm\<rparr>", unfolded s1(1)]
  have put: "db_Put P cap io sync key val s = Some (kOk, s1)"
    using rw app s1(1) size fits by (simp add: db_Put_def db_HandlePut_def Let_def rec_sizeof_mod flip: e)
  have max: "db_max_file s1 = ?a" using same(1) ok by (simp add: db_ok_def max_def)
  have disk: "disk_ok P cap (logs(?a := logs ?a @ [cut_entry e])) (fm_fs (db_fm s1)) (fm_meta ?s)"
    if "\<forall>b \<in> set (cut_rest e). b = 0"
    using disk_ok_store [OF P dok a(1) f(3) a(2) long_append_log [OF A log fits ty size that]] s1(2) by simp
  have mem: "length ?mem = cap" "slice ?mem ?off (rec_size (cut_entry e)) = rec_bytes P (cut_entry e)"
    using long_append_slice [OF A, of ?off e] len fits A by simp_all
  show ?thesis
    by (intro exI [of _ s1] exI [of _ ?f] exI [of _ ?l] exI [of _ ?mem])
      (use put s1(2,3) max same(2) mem f(4) fits disk in simp)
qed

lemma long_get:
  assumes P: "pedrolib_ok P" and c: "rec_wf c" and cap: "cap < 2 ^ 32" "off + rec_size c < cap"
    and s: "db_indices s key = Some \<lparr>dir_entry_size = n, dir_loc = Location (db_active s) (of_nat off)\<rparr>"
      "db_max_file s = db_active s" "fm_data_file (db_fm s) = Some f"
    and f: "mrw_length f = cap" "mrw_write_index f \<le> cap" "fs_data (fm_fs (db_fm s)) (mrw_ino f) = mem" "length mem = cap"
      "slice mem off (rec_size c) = rec_bytes P c"
  shows "\<exists>s'. db_Get P io use_read_cache key s
      = Some (if rec_validate P c then (kOk, Some (db_value P s c), s') else (kCorruption, None, s'))"
proof -
  let ?fs = "fm_fs (db_fm s)" and ?r = "RMapping f" and ?off = "of_nat off :: u32"
  let ?F = "rf_ops ?fs"
  have A: "array_buffer_ok P" using P by simp
  have acq: "fm_AcquireDataFile P io (db_active s) (db_fm s) = (kOk, Some ?r, db_fm s)"
    using s(3) by (simp add: fm_AcquireDataFile_def db_active_def)
  obtain it buf where it: "ri_Seek P ?off (ri_new ?F ?r) (db_buf s) = (it, buf)" by fastforce
  have off: "unat ?off = off" using cap by simp
  have at: "ri_at P ?F it buf off" and itf: "ri_file it = ?r"
    using ri_at_seek [OF A, of ?F ?off ?r "db_buf s"] it off by (auto simp: ri_Seek_def ri_new_def)
  have rf: "rf_inv ?fs (ri_file it)" using f cap(1) unfolding itf by (simp add: rf_inv_def rf_length_def rf_ino_def)
  have sl: "slice (fs_data ?fs (rf_ino (ri_file it))) off (rec_size c) = rec_bytes P c"
    unfolding itf using f(3,5) by (simp add: rf_ino_def)
  have before: "off + rec_size c < f_Size ?F (ri_file it)" unfolding itf using f(1) cap(2) by (simp add: rf_ops_def mrw_Size_def)
  from rf.ri_Valid_record [OF P rf at c sl before] obtain it' buf' where
    v: "ri_Valid P ?F it buf = Some (True, it', buf')" "ri_entry it' = c" by blast
  have "db_value P (s\<lparr>db_buf := buf'\<rparr>) = db_value P s" by (rule db_value_cong) simp
  with acq it v s(1,2) show ?thesis
    by (simp add: db_Get_def db_HandleGet_def db_get_direct_def ri_Next_def Let_def)
qed

section \<open>After the files have been opened again\<close>

text \<open>No key that is indexed is longer than its record can say.\<close>

lemma index_key_short:
  assumes P: "pedrolib_ok P" and ok: "db_ok P cap logs s" and d: "db_indices s k = Some d"
  shows "length k < 256"
proof -
  note ks = db_okD [OF ok]
  from index_okE [OF ks(2) d] obtain x where x: "loc_id (dir_loc d) \<in> set (db_files s)"
    "log_at (logs (loc_id (dir_loc d))) (unat (loc_offset (dir_loc d))) = Some x" "re_key x = k" .
  have "disk_ok P cap logs (fm_fs (db_fm s)) (fm_meta (db_fm s))" using ks(1) by (simp add: fm_ok_def)
  from disk_okD(6) [OF this] x(1) obtain i where
    "log_file P cap (logs (loc_id (dir_loc d))) (fs_data (fm_fs (db_fm s)) i)" unfolding db_files_def by blast
  from log_file_wf [OF this log_at_in [OF x(2)]] x(3) show ?thesis by (simp add: rec_wf_def)
qed

lemma long_put_run:
  assumes P: "pedrolib_ok P" and io: "io_good io" and ok: "db_ok P cap logs s" and rw: "\<not> db_readonly s"
    and e: "256 \<le> length key" "val \<noteq> []" "e = db_entry P s key val" "log_size (logs (db_active s)) + rec_size e < cap"
  shows "\<exists>s1 s2. db_Put P cap io sync key val s = Some (kOk, s1)
     \<and> db_Get P io use_read_cache key s1 = Some (
          if rec_validate P (cut_entry e) then (kOk, Some (db_value P s (cut_entry e)), s2) else (kCorruption, None, s2))
     \<and> ((\<forall>b \<in> set (cut_rest e). b = 0) \<longrightarrow> (\<forall>fid \<in> set (db_files s). log_size (logs fid) < cap) \<longrightarrow>
         db_recoverable logs s \<longrightarrow> opt_compress_value opts = opt_compress_value (db_options s) \<longrightarrow>
         path_valid (mm_path (fm_meta (db_fm s))) \<longrightarrow> opt_cache_segments opts \<noteq> 0 \<longrightarrow> (\<exists>s3 s4 s5.
          db_Open P cap io opts (mm_path (fm_meta (db_fm s))) buf (fm_fs (db_fm s1)) = Some (kOk, Some s3, fm_fs (db_fm s1))
        \<and> db_Get P io use_read_cache key s3 = Some (kNotFound, None, s4)
        \<and> db_Get P io use_read_cache (take (length key mod 256) key) s3 = Some (
             if rec_validate P (cut_entry e) then (kOk, Some (db_value P s (cut_entry e)), s5) else (kCorruption, None, s5))))"
proof -
  let ?c = "cut_entry e" and ?a = "db_active s"
  let ?off = "log_size (logs ?a)" and ?logs = "logs(?a := logs ?a @ [?c])"
  note k = db_okD [OF ok]
  have cap: "cap < 2 ^ 32" using disk_okD(2) k(1) by (auto simp: fm_ok_def)
  have ent: "re_type e = kSet" "re_key e = key" using e(2,3) by (simp_all add: db_entry_def Let_def)
  have cut: "re_key ?c = take (length key mod 256) key" "re_type ?c = (if val = [] then kDelete else kSet)"
    using ent e(2) by (simp_all add: cut_entry_def Let_def)
  have size: "rec_size ?c \<le> rec_size e" using cut_entry_size [of e] by linarith
  have wf: "rec_wf ?c" by (rule cut_entry_wf) (use ent(1) e(4) cap in simp_all)
  from long_put [OF P ok rw e(2,3,4), of io sync] obtain s1 f l mem where s1: "db_Put P cap io sync key val s = Some (kOk, s1)"
    "db_indices s1 key = Some \<lparr>dir_entry_size = rec_sizeof e, dir_loc = Location ?a (of_nat ?off)\<rparr>"
    "db_max_file s1 = ?a" "db_options s1 = db_options s"
    "db_fm s1 = (db_fm s)\<lparr>fm_fs := fs_store (mrw_ino f) mem (fm_fs (db_fm s)), fm_data_file := Some f, fm_index_log := Some l\<rparr>"
    "mrw_length f = cap" "mrw_write_index f \<le> cap" "length mem = cap" "slice mem ?off (rec_size ?c) = rec_bytes P ?c"
    "(\<forall>b \<in> set (cut_rest e). b = 0) \<longrightarrow> disk_ok P cap ?logs (fm_fs (db_fm s1)) (fm_meta (db_fm s))" by blast
  have small: "?off + rec_size ?c < cap" using size e(4) by linarith
  have act: "db_active s1 = ?a" "fm_data_file (db_fm s1) = Some f" "fs_data (fm_fs (db_fm s1)) (mrw_ino f) = mem"
    using s1(5) by (simp_all add: db_active_def)
  have same: "db_value P s1 = db_value P s" using s1(4) by (simp add: db_value_def fun_eq_iff)
  obtain s2 where s2: "db_Get P io use_read_cache key s1 = Some (
      if rec_validate P ?c then (kOk, Some (db_value P s ?c), s2) else (kCorruption, None, s2))"
    using long_get [OF P wf cap small, of s1 key "rec_sizeof e" f mem io use_read_cache] s1(2,3,6-9) act unfolding same by auto
  have app: "appended cap logs (db_fm s) ?c (Location ?a (of_nat ?off)) ?logs (db_fm s)"
    using small by (simp add: appended_def Let_def db_active_def)
  have links: "fs_links (fm_fs (db_fm s1)) = fs_links (fm_fs (db_fm s))" using s1(5) by simp
  have files: "mm_files (fm_meta (db_fm s)) = db_files s" by (simp add: db_files_def)
  have "\<exists>s3 s4 s5. db_Open P cap io opts (mm_path (fm_meta (db_fm s))) buf (fm_fs (db_fm s1)) = Some (kOk, Some s3, fm_fs (db_fm s1))
      \<and> db_Get P io use_read_cache key s3 = Some (kNotFound, None, s4)
      \<and> db_Get P io use_read_cache (re_key ?c) s3 = Some (
          if rec_validate P ?c then (kOk, Some (db_value P s ?c), s5) else (kCorruption, None, s5))"
    if rest: "\<forall>b \<in> set (cut_rest e). b = 0" and full: "\<forall>fid \<in> set (db_files s). log_size (logs fid) < cap"
      and rec: "db_recoverable logs s" and co: "opt_compress_value opts = opt_compress_value (db_options s)"
      and p: "path_valid (mm_path (fm_meta (db_fm s)))" and seg: "opt_cache_segments opts \<noteq> 0"
  proof -
    have disk: "disk_ok P cap ?logs (fm_fs (db_fm s1)) (fm_meta (db_fm s))" using s1(10) rest by blast
    have room: "log_size (?logs fid) < cap" if "fid \<in> set (mm_files (fm_meta (db_fm s)))" for fid
      using that full small unfolding files by auto
    have "\<exists>s3. db_Open P cap io opts (mm_path (fm_meta (db_fm s))) buf (fm_fs (db_fm s1)) = Some (kOk, Some s3, fm_fs (db_fm s1))
       \<and> db_sane P cap ?logs s3 \<and> db_current s3 \<and> db_options s3 = opts
       \<and> db_record ?logs s3 = (db_record logs s)(re_key ?c := if val = [] then None else Some ?c)
       \<and> (\<forall>fid \<in> set (db_files s3). log_size (?logs fid) < cap)"
      by (rule db_open_appended [OF P io ok rec p seg links k(1) refl _ _ app disk room cut(2)]) (simp_all add: files)
    then obtain s3 where s3: "db_Open P cap io opts (mm_path (fm_meta (db_fm s))) buf (fm_fs (db_fm s1)) = Some (kOk, Some s3, fm_fs (db_fm s1))"
      "db_sane P cap ?logs s3" "db_current s3" "db_options s3 = opts"
      "db_record ?logs s3 = (db_record logs s)(re_key ?c := if val = [] then None else Some ?c)"
      "\<forall>fid \<in> set (db_files s3). log_size (?logs fid) < cap" by blast
    note get = db_get_appended [OF P io ok s3(2,3) co [symmetric, folded s3(4)] s3(5,6), of use_read_cache]
    have "length (re_key ?c) < 256" using wf by (simp add: rec_wf_def)
    then have other: "key \<noteq> re_key ?c" using e(1) by (metis leD)
    have none: "db_abs P logs s key = None"
      using db_abs_None [OF ok, of key] index_key_short [OF P ok, of key] e(1) by (cases "db_indices s key") auto
    obtain s4 where s4: "db_Get P io use_read_cache key s3 = Some (kNotFound, None, s4)" using get [of key] other none by auto
    obtain s5 where "db_Get P io use_read_cache (re_key ?c) s3 = Some (
        if rec_validate P ?c then (kOk, Some (db_value P s ?c), s5) else (kCorruption, None, s5))"
      using get [of "re_key ?c"] e(2) by auto
    with s3(1) s4 show ?thesis by blast
  qed
  with s1(1) s2 show ?thesis unfolding cut(1) by blast
qed

end
