(* ===== verification/TornIndex.thy ===== *)
theory TornIndex
  imports CrashPut
begin

text \<open>
  A process that is killed while the executor writes an index file.
  \<^verbatim>\<open>CreateIndexFile\<close> first opens the file at its full size, which fills it with zeros, and
  then copies the index log into the mapping. Recovery takes an index file that exists for
  complete, and does not look at the data file any more.
\<close>

section \<open>The crash\<close>

text \<open>The process dies when \<open>j\<close> bytes of the log have been copied.\<close>

definition fm_CreateIndexFile_torn ::
    "'a pedrolib \<Rightarrow> io \<Rightarrow> nat \<Rightarrow> file_id \<Rightarrow> 'a \<Rightarrow> 'a fm \<Rightarrow> fsys option" where
  "fm_CreateIndexFile_torn P io j fid log s =
     (let n = length (ab_bytes P log) in
      case mrw_Open io (mm_GetIndexFilePath P (fm_meta s) fid) n (fm_fs s) of
        (Inl _, fs) \<Rightarrow> Some fs
      | (Inr file, fs) \<Rightarrow>
          let (buf, file) = mrw_Allocate n fs file in
          (case wbf_Append (take j (ab_bytes P log)) buf of
             None \<Rightarrow> None
           | Some buf \<Rightarrow> Some (fs_store (mrw_ino file) (wbf_mem buf) fs)))"

lemma fm_CreateIndexFile_torn_new:
  assumes io: "io_good io" and none: "fs_links (fm_fs s) (mm_GetIndexFilePath P (fm_meta s) fid) = None"
    and n: "n = length (ab_bytes P log)" "0 < n" "n < 2 ^ 32" and j: "j \<le> n"
  shows "fm_CreateIndexFile_torn P io j fid log s = Some (fs_create (mm_GetIndexFilePath P (fm_meta s) fid)
       (take j (ab_bytes P log) @ replicate (n - j) 0) (fm_fs s))"
proof -
  let ?p = "mm_GetIndexFilePath P (fm_meta s) fid" and ?fs = "fm_fs s"
  let ?f = "\<lparr>mrw_ino = fs_next ?fs, mrw_write_index = 0, mrw_length = n\<rparr>" and ?fs1 = "fs_create ?p (replicate n 0) ?fs"
  have op: "mrw_Open io ?p n ?fs = (Inr ?f, ?fs1)"
    using mrw_Open_new [of ?fs ?p io n] none io n(2,3) by (simp add: fs_create_def size_max_def)
  let ?b = "writable_buffer_new (replicate n 0) (Some 0) n 0" and ?xs = "take j (ab_bytes P log)"
  have inv: "mrw_inv ?fs1 ?f" using n(3) by (simp add: mrw_inv_def)
  have alloc: "mrw_Allocate n ?fs1 ?f = (?b, ?f\<lparr>mrw_write_index := n\<rparr>)"
    using mrw_Allocate_fits [OF inv, of n] by simp
  have len: "length ?xs = j" using n(1) j by simp
  have "overwrite (replicate n 0) 0 ?xs = ?xs @ replicate (n - j) 0"
    using overwrite_zeros [of ?xs n "[]" 0] len j by simp
  then have app: "\<exists>b. wbf_Append ?xs ?b = Some b \<and> wbf_mem b = ?xs @ replicate (n - j) 0"
    using len j by (simp add: wbf_Append_def writable_buffer_new_def)
  have again: "fs_store (fs_next ?fs) m ?fs1 = fs_create ?p m ?fs" for m by (simp add: fs_create_def fs_store_def)
  show ?thesis using op alloc app again n(1) by (auto simp: fm_CreateIndexFile_torn_def Let_def)
qed

section \<open>A file system with one more file\<close>

text \<open>The new file is not seen through any other name.\<close>

lemma pro_Open_created:
  assumes "fs_ok fs" "q \<noteq> p"
  shows "pro_Open io q (fs_create p z fs) = pro_Open io q fs"
  using assms fs_create_old [OF assms(1), of q] by (auto simp: pro_Open_def fs_open_def split: option.splits)

lemma fm_AcquireDataFile_created:
  assumes "fs_ok (fm_fs s)" "mm_GetDataFilePath P (fm_meta s) x \<noteq> p" "fm_AcquireDataFile P io x s = (st, f, s\<lparr>fm_open_files := c\<rparr>)"
  shows "fm_AcquireDataFile P io x (s\<lparr>fm_fs := fs_create p z (fm_fs s)\<rparr>)
       = (st, f, s\<lparr>fm_fs := fs_create p z (fm_fs s), fm_open_files := c\<rparr>)"
proof -
  have "fm_AcquireDataFile P io x (s\<lparr>fm_fs := fs_create p z (fm_fs s)\<rparr>)
      = (case fm_AcquireDataFile P io x s of (st, f, s1) \<Rightarrow> (st, f, s1\<lparr>fm_fs := fs_create p z (fm_fs s)\<rparr>))"
    using pro_Open_created [OF assms(1,2)]
    by (simp add: fm_AcquireDataFile_def Let_def split: option.split sum.split prod.split)
  then show ?thesis unfolding assms(3) by simp
qed

lemma fm_AcquireDataFile_link:
  assumes P: "pedrolib_ok P" and ok: "fm_ok P cap logs s" and io: "io_good io" and x: "x \<in> set (mm_files (fm_meta s))"
  shows "\<exists>f c. fm_AcquireDataFile P io x s = (kOk, Some f, s\<lparr>fm_open_files := c\<rparr>) \<and> fm_ok P cap logs (s\<lparr>fm_open_files := c\<rparr>)
     \<and> fs_links (fm_fs s) (mm_GetDataFilePath P (fm_meta s) x) = Some (rf_ino f) \<and> rf_length f = cap"
proof (cases "x = fm_active_id s")
  case True
  have "s = s\<lparr>fm_open_files := fm_open_files s\<rparr>" by simp
  with fm_AcquireDataFile_active [OF _ True, of P cap logs io] ok show ?thesis unfolding fm_ok_def by metis
next
  case False
  have "disk_ok P cap logs (fm_fs s) (fm_meta s)" "cache_ok P cap s" using ok by (simp_all add: fm_ok_def)
  from fm_AcquireDataFile_disk [OF this P io x False] fm_ok_open_files [OF ok] show ?thesis by blast
qed

lemma fm_ok_log:
  assumes "fm_ok P cap logs s" "fm_index_log s = Some l" "ab_bytes P l' = ab_bytes P l"
  shows "fm_ok P cap logs (s\<lparr>fm_index_log := Some l'\<rparr>)"
  using assms by (auto simp: fm_ok_def active_ok_def cache_ok_def)

section \<open>Opening the files after the crash\<close>

text \<open>
  The state during recovery: without the torn index file of \<open>fid\<close> it would be a state that stores
  the records \<open>logs\<close>.
\<close>

definition torn_state ::
    "'a pedrolib \<Rightarrow> nat \<Rightarrow> (file_id \<Rightarrow> rec_entry list) \<Rightarrow> fsys \<Rightarrow> mm \<Rightarrow> path \<Rightarrow> bytes \<Rightarrow> 'a db \<Rightarrow> bool" where
  "torn_state P cap logs fs m p z s \<longleftrightarrow> fm_ok P cap logs ((db_fm s)\<lparr>fm_fs := fs\<rparr>)
     \<and> fm_fs (db_fm s) = fs_create p z fs \<and> fm_meta (db_fm s) = m"

lemma torn_recover_file:
  assumes P: "pedrolib_ok P" and io: "io_good io" and I: "torn_state P cap logs fs m (mm_GetIndexFilePath P m fid) z s"
    and z: "z = idx_log_bytes P (log_index 0 es) @ replicate n 0" "\<forall>e \<in> set es. rec_wf e" "log_size es < 2 ^ 32"
    and x: "x \<in> set (mm_files m)" "log_size (logs x) < cap" and before: "index_before (Location x 0) (db_indices s)"
  shows "\<exists>s'. db_recover_file P io x s = Some (kOk, s') \<and> torn_state P cap logs fs m (mm_GetIndexFilePath P m fid) z s'
     \<and> db_recovered s s' \<and> db_indices s' = replay_log x 0 ((logs(fid := es)) x) (db_indices s) \<and> db_max_file s' = db_max_file s"
proof -
  let ?p = "mm_GetIndexFilePath P m fid" and ?fm = "db_fm s"
  let ?fs = "fs_create ?p z fs" and ?g = "?fm\<lparr>fm_fs := fs\<rparr>"
  have ok: "fm_ok P cap logs ?g" and fs: "fm_fs ?fm = ?fs" and m: "fm_meta ?fm = m" using I by (simp_all add: torn_state_def)
  have dok: "disk_ok P cap logs fs m" using ok m by (simp add: fm_ok_def)
  note d = disk_okD [OF dok]
  have idx: "\<exists>s'. db_recover_file P io x s = Some (kOk, s') \<and> torn_state P cap logs fs m ?p z s'
     \<and> db_recovered s s' \<and> db_indices s' = replay_log x 0 ys (db_indices s) \<and> db_max_file s' = db_max_file s"
    if i: "fs_links ?fs (mm_GetIndexFilePath P m x) = Some i" "fs_data ?fs i = idx_log_bytes P (log_index 0 ys) @ replicate k 0"
      and ys: "\<forall>e \<in> set ys. rec_wf e" "log_size ys < 2 ^ 32" for i ys k
  proof -
    from db_recover_file_index [OF P io i [folded fs m] ys before] obtain s' where s':
      "db_recover_file P io x s = Some (kOk, s')" "db_indices s' = replay_log x 0 ys (db_indices s)" "db_recovers s s'" by blast
    then have "db_fm s' = ?fm" by (simp add: db_recovers_def)
    moreover have "\<exists>c. ?fm = ?fm\<lparr>fm_open_files := c\<rparr>" by (rule exI [of _ "fm_open_files ?fm"]) simp
    ultimately show ?thesis using s' I by (intro exI [of _ s']) (simp add: torn_state_def db_recovers_def db_recovered_def)
  qed
  show ?thesis
  proof (cases "x = fid")
    case True
    then show ?thesis using idx [of "fs_next fs" es n] z by simp
  next
    case False
    have other: "mm_GetIndexFilePath P m x \<noteq> ?p" using index_path_inj [OF P] False by blast
    have "log_size (logs x) < 2 ^ 32" using x(2) d(2) by simp
    moreover have "\<forall>e \<in> set (logs x). rec_wf e" using d(6) [OF x(1)] by (auto simp: log_file_def)
    ultimately have wf: "\<forall>e \<in> set (logs x). rec_wf e" "log_size (logs x) < 2 ^ 32" by blast+
    show ?thesis
    proof (cases "fs_links fs (mm_GetIndexFilePath P m x)")
      case (Some i)
      have "fs_data ?fs i = idx_log_bytes P (log_index 0 (logs x)) @ replicate 0 0"
        using fs_create_old [OF d(3) Some] d(8) [OF Some] by simp
      from idx [OF _ this wf] Some other False show ?thesis by simp
    next
      case None
      have gx: "x \<in> set (mm_files (fm_meta ?g))" using x(1) m by simp
      from fm_AcquireDataFile_link [OF P ok io gx] m obtain f c where f:
        "fm_AcquireDataFile P io x ?g = (kOk, Some f, ?g\<lparr>fm_open_files := c\<rparr>)" "fm_ok P cap logs (?g\<lparr>fm_open_files := c\<rparr>)"
        "fs_links fs (mm_GetDataFilePath P m x) = Some (rf_ino f)" "rf_length f = cap" by auto
      have gok: "fs_ok (fm_fs ?g)" "mm_GetDataFilePath P (fm_meta ?g) x \<noteq> ?p" using d(3) data_index_path m by simp_all
      have same: "?g\<lparr>fm_fs := fs_create ?p z (fm_fs ?g)\<rparr> = ?fm" using fs by (cases ?fm) simp
      have acq: "fm_AcquireDataFile P io x ?fm = (kOk, Some f, ?fm\<lparr>fm_open_files := c\<rparr>)"
        using fm_AcquireDataFile_created [OF gok f(1), of z] unfolding same by (simp add: fs)
      have data: "fs_data ?fs (rf_ino f) = fs_data fs (rf_ino f)" by (rule fs_create_old [OF d(3) f(3)])
      note h = handle_log [OF P dok x(1) f(3,4)]
      have rf: "rf_inv (fm_fs ?fm) f" "log_file P cap (logs x) (fs_data (fm_fs ?fm) (rf_ino f))" "f_Size (rf_ops (fm_fs ?fm)) f = cap"
        using h data unfolding fs by (simp_all add: rf_inv_def rf_ops_def)
      have noidx: "fs_links (fm_fs ?fm) (mm_GetIndexFilePath P (fm_meta ?fm) x) = None" using None other unfolding fs m by simp
      from db_recover_file_data [OF P d(1,2) noidx acq rf x(2) before] obtain s' where s':
        "db_recover_file P io x s = Some (kOk, s')" "db_indices s' = replay_log x 0 (logs x) (db_indices s)" "db_recovered s s'"
        "db_max_file s' = db_max_file s" "db_fm s' = fm_ReleaseDataFile x (?fm\<lparr>fm_open_files := c\<rparr>)" by blast
      have "fm_ReleaseDataFile x (?g\<lparr>fm_open_files := c\<rparr>) = (db_fm s')\<lparr>fm_fs := fs\<rparr>"
        unfolding s'(5) by (simp add: fm_ReleaseDataFile_def)
      then have "fm_ok P cap logs ((db_fm s')\<lparr>fm_fs := fs\<rparr>)" using fm_ReleaseDataFile_ok [OF f(2), of x] by simp
      then have "torn_state P cap logs fs m ?p z s'"
        using I s'(5) by (simp add: torn_state_def fm_ReleaseDataFile_def)
      with s' False show ?thesis by auto
    qed
  qed
qed

text \<open>
  When the copy has been cut between two entries of the index log, exactly the records before the
  cut are found.
\<close>

lemma torn_index_open:
  assumes P: "pedrolib_ok P" and io: "io_good io" and ok: "db_ok P cap logs s"
    and p: "path_valid (mm_path (fm_meta (db_fm s)))" and seg: "opt_cache_segments opts \<noteq> 0"
    and task: "TCreateIndexFile fid log \<in> set (fm_pending (db_fm s))" and some: "ab_bytes P log \<noteq> []"
    and none: "fs_links (fm_fs (db_fm s)) (mm_GetIndexFilePath P (fm_meta (db_fm s)) fid) = None"
    and j: "j = length (idx_log_bytes P (log_index 0 es))" "logs fid = es @ es'"
    and full: "\<forall>x \<in> set (db_files s). log_size (logs x) < cap" and fid: "fid \<in> set (db_files s)"
  shows "\<exists>fs s1. fm_CreateIndexFile_torn P io j fid log (db_fm s) = Some fs
     \<and> db_Open P cap io opts (mm_path (fm_meta (db_fm s))) buf fs = Some (kOk, Some s1, fs)
     \<and> db_indices s1 = replay (logs(fid := es)) (db_files s) (\<lambda>_. None)"
proof -
  let ?fm = "db_fm s" and ?m = "fm_meta (db_fm s)" and ?fs = "fm_fs (db_fm s)" and ?n = "length (ab_bytes P log)"
  let ?p = "mm_GetIndexFilePath P ?m fid" and ?L = "logs(fid := es)"
  note k = db_okD [OF ok]
  have dok: "disk_ok P cap logs ?fs ?m" and aok: "active_ok P cap logs ?fm" using k(1) by (simp_all add: fm_ok_def)
  note d = disk_okD [OF dok] and act = active_files [OF k(1)]
  have files: "mm_files ?m = db_files s" by (simp add: db_files_def)
  have "task_ok P cap logs (fm_active_id ?fm) (TCreateIndexFile fid log)"
    using aok task unfolding active_ok_def pending_ok_def by blast
  then have log: "ab_bytes P log = idx_log_bytes P (log_index 0 (logs fid))" "?n \<le> cap"
    unfolding task_ok_def task.case by blast+
  have split: "ab_bytes P log = idx_log_bytes P (log_index 0 es) @ idx_log_bytes P (log_index (0 + log_size es) es')"
    unfolding log(1) j(2) by (simp only: log_index_append idx_log_bytes_simps)
  let ?z = "idx_log_bytes P (log_index 0 es) @ replicate (?n - j) 0" and ?i = "last (mm_files ?m)"
  have n: "0 < ?n" "?n < 2 ^ 32" "j \<le> ?n" using some log(2) d(2) split j(1) by simp_all
  have "fm_CreateIndexFile_torn P io j fid log ?fm = Some (fs_create ?p (take j (ab_bytes P log) @ replicate (?n - j) 0) ?fs)"
    by (rule fm_CreateIndexFile_torn_new [OF io none refl n])
  then have torn: "fm_CreateIndexFile_torn P io j fid log ?fm = Some (fs_create ?p ?z ?fs)"
    using split j(1) by simp
  let ?fs' = "fs_create ?p ?z ?fs"
  have mp: "mm_path ?m \<noteq> ?p" using d(5) by (simp add: paths_ok_def)
  have mm: "mm_ok P ?fs' ?m" by (rule mm_ok_frame [OF d(4)]) (use mp fs_create_old [OF d(3)] in simp_all)
  have mmi: "mm_Init P io (mm_new (mm_path ?m)) ?fs' = Some (kOk, ?m, ?fs')" by (rule mm_Init_existing [OF P mm p io])
  have ne: "mm_files ?m \<noteq> []" and last: "?i = fm_active_id ?fm" using act(1,4) by (auto, metis last_snoc)
  have idx: "x < ?i" if "fs_links ?fs (mm_GetIndexFilePath P ?m x) \<noteq> None" for x
    using aok that unfolding last active_ok_def by blast
  from d(6) [OF last_in_set [OF ne]] obtain i where i: "fs_links ?fs (mm_GetDataFilePath P ?m ?i) = Some i"
    "log_file P cap (logs ?i) (fs_data ?fs i)" by blast
  have i': "fs_links ?fs' (mm_GetDataFilePath P ?m ?i) = Some i" "log_file P cap (logs ?i) (fs_data ?fs' i)"
    using i data_index_path [of P ?m ?i fid] fs_create_old [OF d(3) i(1)] by simp_all
  let ?k = "opt_max_open_files opts"
  let ?new = "\<lambda>fs log. (fm_new fs ?m ?k)\<lparr>fm_index_log := Some log,
       fm_data_file := Some \<lparr>mrw_ino = i, mrw_write_index = log_size (logs ?i), mrw_length = cap\<rparr>, fm_active_id := ?i\<rparr>"
  from fm_Init_active [OF P io ne d(1,2) i, of ?k] obtain l0 where l0: "fm_Init P cap io (fm_new ?fs ?m ?k) = Some (kOk, ?new ?fs l0)"
    "ab_bytes P l0 = idx_log_bytes P (log_index 0 (logs ?i))" by blast
  from fm_Init_active [OF P io ne d(1,2) i', of ?k] obtain l1 where l1: "fm_Init P cap io (fm_new ?fs' ?m ?k) = Some (kOk, ?new ?fs' l1)"
    "ab_bytes P l1 = idx_log_bytes P (log_index 0 (logs ?i))" by blast
  have ok0: "fm_ok P cap logs (?new ?fs l0)" using fm_Init_existing [OF P dok io ne idx, of ?k] l0(1) by auto
  have ok1: "fm_ok P cap logs ((?new ?fs' l1)\<lparr>fm_fs := ?fs\<rparr>)"
    using fm_ok_log [OF ok0, of l0 l1] l0(2) l1(2) by (simp add: fm_new_def)
  have meta: "fm_meta (?new ?fs' l1) = ?m" by (simp add: fm_new_def)
  from db_Open_steps [OF seg mmi l1(1), of buf, unfolded meta] obtain s0 where s0: "db_fm s0 = ?new ?fs' l1"
    "db_indices s0 = (\<lambda>_. None)" "db_max_file s0 = 0"
    and run: "\<And>st s'. db_recover_files P io (mm_files ?m) s0 = Some (st, s') \<Longrightarrow>
      db_Open P cap io opts (mm_path ?m) buf ?fs' = Some (st, if st \<noteq> kOk then None else Some s', fm_fs (db_fm s'))" by blast
  have I: "torn_state P cap logs ?fs ?m ?p ?z s0" using s0(1) ok1 by (simp add: torn_state_def fm_new_def)
  have srt: "sorted (mm_files ?m)" "distinct (mm_files ?m)" using mm_ok_files [OF d(4)] by simp_all
  have wf: "\<forall>e \<in> set es. rec_wf e" "log_size es < 2 ^ 32"
    using d(6) [of fid] fid j(2) d(2) files by (auto simp: log_file_def)
  have step: "\<exists>t'. db_recover_file P io x t = Some (kOk, t') \<and> torn_state P cap logs ?fs ?m ?p ?z t' \<and> db_recovered t t'
      \<and> db_indices t' = replay_log x 0 (?L x) (db_indices t) \<and> db_max_file t' = db_max_file t"
    if "torn_state P cap logs ?fs ?m ?p ?z t" "x \<in> set (mm_files ?m)" "index_before (Location x 0) (db_indices t)" for t x
    by (rule torn_recover_file [OF P io that(1) refl wf that(2) _ that(3)]) (use full that(2) files in simp)
  have size: "log_size (?L x) < 2 ^ 32" if "x \<in> set (mm_files ?m)" for x
  proof -
    have "log_size (logs x) < cap" using full that files by simp
    then show ?thesis using wf(2) d(2) by simp
  qed
  have "\<exists>s'. db_recover_files P io (mm_files ?m) s0 = Some (kOk, s') \<and> torn_state P cap logs ?fs ?m ?p ?z s'
     \<and> db_indices s' = replay ?L (mm_files ?m) (db_indices s0) \<and> db_recovered s0 s'
     \<and> db_max_file s' = foldl max (db_max_file s0) (mm_files ?m)"
    by (rule db_recover_files_run [where F = "set (mm_files ?m)" and I = "torn_state P cap logs ?fs ?m ?p ?z", OF step _ size])
      (use I srt s0(2) in \<open>simp_all add: torn_state_def index_before_def\<close>)
  then obtain s1 where s1: "db_recover_files P io (mm_files ?m) s0 = Some (kOk, s1)" "fm_fs (db_fm s1) = ?fs'"
    "db_indices s1 = replay ?L (db_files s) (\<lambda>_. None)" unfolding s0(2) files torn_state_def by blast
  show ?thesis using torn run [OF s1(1)] s1(2,3) by auto
qed

text \<open>
  An index file can be missing: a database without it, and with other tasks that wait, is as good.
\<close>

lemma db_ok_unindex:
  assumes P: "pedrolib_ok P" and ok: "db_ok P cap logs s" and ts: "pending_ok P cap logs (db_active s) ts"
  shows "db_ok P cap logs (s\<lparr>db_fm := (db_fm s)\<lparr>fm_fs := fs_remove (mm_GetIndexFilePath P (fm_meta (db_fm s)) fid) (fm_fs (db_fm s)),
       fm_pending := ts\<rparr>\<rparr>)"
proof -
  let ?fm = "db_fm s" and ?m = "fm_meta (db_fm s)" and ?fs = "fm_fs (db_fm s)"
  let ?p = "mm_GetIndexFilePath P ?m fid" and ?fs' = "fs_remove (mm_GetIndexFilePath P ?m fid) ?fs"
  let ?g = "?fm\<lparr>fm_fs := ?fs', fm_pending := ts\<rparr>"
  note k = db_okD [OF ok]
  have dok: "disk_ok P cap logs ?fs ?m" and cok: "cache_ok P cap ?fm" and aok: "active_ok P cap logs ?fm"
    using k(1) by (simp_all add: fm_ok_def)
  note d = disk_okD [OF dok]
  have data: "fs_links ?fs' (mm_GetDataFilePath P ?m x) = fs_links ?fs (mm_GetDataFilePath P ?m x)" for x
    using data_index_path [of P ?m x fid] by (simp add: fs_remove_def)
  have sub: "fs_links ?fs q = Some i" if "fs_links ?fs' q = Some i" for q i
    using that by (auto simp: fs_remove_def split: if_splits)
  have nx: "fs_next ?fs' = fs_next ?fs" by (simp add: fs_remove_def)
  have fsok: "fs_ok ?fs'" using d(3) sub unfolding fs_ok_def nx by blast
  have mm: "mm_ok P ?fs' ?m" by (rule mm_ok_frame [OF d(4)]) (use d(5) in \<open>auto simp: fs_remove_def paths_ok_def\<close>)
  have mem: "fs_data ?fs' = fs_data ?fs" by (simp add: fs_remove_def)
  have "disk_ok P cap logs ?fs' ?m"
    unfolding disk_ok_def data mem using d fsok mm sub by blast
  moreover have "cache_ok P cap ?g" using cok by (simp add: cache_ok_def handle_ok_def [abs_def] data)
  moreover have "active_ok P cap logs ?g"
  proof -
    have idx: "x < fm_active_id ?fm" if "fs_links ?fs' (mm_GetIndexFilePath P ?m x) \<noteq> None" for x
      using aok that sub unfolding active_ok_def by blast
    from active_okE [OF aok] show ?thesis
      using aok idx ts data unfolding active_ok_def db_active_def by simp
  qed
  ultimately have "fm_ok P cap logs ?g" by (simp add: fm_ok_def)
  moreover have "fm_holds P ?g = fm_holds P ?fm" by (simp add: fm_holds_def [abs_def] data mem)
  ultimately show ?thesis using ok by (simp add: db_ok_def db_files_def db_active_def)
qed

end
