(* ===== verification/Faults.thy ===== *)
theory Faults
  imports DBStore
begin

text \<open>
  Writes to the metadata file that fail, with a full disk for example. The metadata manager does not
  look at the result of the write (\<open>mm_write\<close>), and the file manager not at that of
  \<^verbatim>\<open>CreateFile\<close>: the lists of files in memory and in the metadata file differ from then
  on, and nothing is reported.
\<close>

definition no_write :: "io \<Rightarrow> io" where
  "no_write io = io\<lparr>io_write := False\<rparr>"

lemma no_write_simps [simp]:
  "io_open (no_write io) = io_open io" "io_size (no_write io) = io_size io" "io_reserve (no_write io) = io_reserve io"
  "io_mmap (no_write io) = io_mmap io" "io_sync (no_write io) = io_sync io" "\<not> io_write (no_write io)"
  by (simp_all add: no_write_def)

lemma mm_log_no_write: "mm_log P (no_write io) e m fs = (if io_sync io then kOk else kIOError, m, fs)"
  by (simp add: mm_log_def mm_write_def Let_def split: option.split)

section \<open>A new data file that is not recorded\<close>

lemma fm_Append_no_write:
  assumes P: "pedrolib_ok P" and ok: "fm_ok P cap logs s" and e: "rec_wf e" and io: "io_good io"
    and full: "cap < log_size (logs (fm_active_id s)) + rec_size e" and fits: "rec_size e \<le> cap"
    and more: "fm_active_id s \<noteq> -1"
  shows "\<exists>s' i. fm_Append P cap (no_write io) e s = Some (kOk, Location (fm_active_id s + 1) 0, s')
     \<and> mm_files (fm_meta s') = set_emplace (fm_active_id s + 1) (mm_files (fm_meta s))
     \<and> fs_links (fm_fs s') (mm_GetDataFilePath P (fm_meta s) (fm_active_id s + 1)) = Some i
     \<and> log_file P cap [e] (fs_data (fm_fs s') i) \<and> mm_ok P (fm_fs s') (fm_meta s)"
proof -
  let ?n = "fm_active_id s + 1" and ?fs = "fm_fs s" and ?m = "fm_meta s"
  let ?p = "mm_GetDataFilePath P ?m ?n"
  have dok: "disk_ok P cap logs ?fs ?m" using ok by (simp add: fm_ok_def)
  note d = disk_okD [OF dok]
  have new: "?n \<notin> set (mm_files ?m)" using active_files(3) [OF ok, of ?n] u32_succ(1) [OF more] by auto
  let ?f = "\<lparr>mrw_ino = fs_next ?fs, mrw_write_index = 0, mrw_length = cap\<rparr>" and ?fs1 = "fs_create ?p (replicate cap 0) ?fs"
  have open_new: "mrw_Open (no_write io) ?p cap ?fs = (Inr ?f, ?fs1)"
    using mrw_Open_new [of ?fs ?p "no_write io" cap] d(1,2,7) new io by (simp add: fs_create_def size_max_def)
  obtain log where rb: "fm_rebuild P (readable_buffer_new (replicate cap 0) cap) 0 (ab_new P) = Some (0, log)"
    using fm_rebuild_file [OF P log_file_empty d(2)] by auto
  let ?s1 = "(fm_retire s)\<lparr>fm_fs := ?fs1, fm_meta := ?m\<lparr>mm_files := set_emplace ?n (mm_files ?m)\<rparr>, fm_index_log := Some log,
    fm_data_file := Some ?f, fm_active_id := ?n\<rparr>"
  have mm: "mm_CreateFile P (no_write io) ?n ?m ?fs1 = (kOk, ?m\<lparr>mm_files := set_emplace ?n (mm_files ?m)\<rparr>, ?fs1)"
    using new io by (simp add: mm_CreateFile_def mm_log_no_write)
  have create: "fm_CreateFile P cap (no_write io) ?n s = Some (kOk, ?s1)"
    using open_new rb mm by (simp add: fm_CreateFile_def mrw_GetReadableBuffer_def Let_def)
  have log0: "log_file P cap [] (fs_data ?fs1 (mrw_ino ?f))" by (simp add: log_file_empty)
  note app = fm_append_file_fits(1) [OF P e log0, where fid = ?n and l = log] fm_append_file_fits(2) [OF P e log0]
  let ?mem = "overwrite (fs_data ?fs1 (mrw_ino ?f)) 0 (rec_bytes P e)"
  have act: "\<exists>s2. fm_append_active P e ?s1 = Some (Inr (Location ?n 0, s2)) \<and> fm_fs s2 = fs_store (fs_next ?fs) ?mem ?fs1
      \<and> fm_meta s2 = fm_meta ?s1"
    using app(1) fits d(2) by (simp add: fm_append_active_def)
  then obtain s2 where s2: "fm_append_active P e ?s1 = Some (Inr (Location ?n 0, s2))"
    "fm_fs s2 = fs_store (fs_next ?fs) ?mem ?fs1" "fm_meta s2 = fm_meta ?s1" by blast
  have "fm_Append P cap (no_write io) e s = Some (kOk, Location ?n 0, s2)"
    using fm_append_active_full [OF P ok e full] create s2(1) by (simp add: fm_Append.simps [of P cap "no_write io" e s] fm_Append.simps [of P cap "no_write io" e ?s1])
  moreover have "log_file P cap [e] (fs_data (fm_fs s2) (fs_next ?fs))"
    using app(2) fits d(2) s2(2) by simp
  moreover have "mm_ok P (fm_fs s2) ?m"
  proof (rule mm_ok_frame [OF d(4)])
    have mp: "mm_path ?m \<noteq> ?p" using d(5) by (simp add: paths_ok_def)
    then show "fs_links (fm_fs s2) (mm_path ?m) = fs_links ?fs (mm_path ?m)" using s2(2) by simp
    show "fs_data (fm_fs s2) i = fs_data ?fs i" if "fs_links ?fs (mm_path ?m) = Some i" for i
      using fs_ok_less [OF d(3) that] s2(2) by simp
  qed
  ultimately show ?thesis using s2(2,3) by (intro exI [of _ s2] exI [of _ "fs_next ?fs"]) simp
qed

lemma db_put_no_write:
  assumes P: "pedrolib_ok P" and ok: "db_ok P cap logs s" and io: "io_good io" and rw: "\<not> db_readonly s"
    and fits: "db_fits P cap s key val" and val: "val \<noteq> []" and more: "db_active s \<noteq> -1"
    and full: "cap < log_size (logs (db_active s)) + rec_size (db_entry P s key val)"
    and p: "path_valid (mm_path (fm_meta (db_fm s)))"
  shows "\<exists>s1. db_Put P cap (no_write io) sync key val s = Some (kOk, s1)
     \<and> db_indices s1 key = Some \<lparr>dir_entry_size = rec_sizeof (db_entry P s key val), dir_loc = Location (db_active s + 1) 0\<rparr>
     \<and> db_active s + 1 \<in> set (db_files s1) \<and> db_active s + 1 \<notin> set (db_files s)
     \<and> mm_Init P io (mm_new (mm_path (fm_meta (db_fm s)))) (fm_fs (db_fm s1))
         = Some (kOk, fm_meta (db_fm s), fm_fs (db_fm s1))"
proof -
  let ?e = "db_entry P s key val" and ?loc = "Location (db_active s + 1) 0"
  note d = db_okD [OF ok]
  have cap: "cap < 2 ^ 32" using appended_log_bound(2) [OF d(1)] active_files(4) [OF d(1)] by blast
  have e: "rec_wf ?e" and sz: "rec_size ?e \<le> cap" using db_fits_wf [OF fits cap] fits by (simp_all add: db_fits_def)
  from fm_Append_no_write [OF P d(1) e io full [unfolded db_active_def] sz more [unfolded db_active_def]] obtain fm where
    a: "fm_Append P cap (no_write io) ?e (db_fm s) = Some (kOk, ?loc, fm)"
    "mm_files (fm_meta fm) = set_emplace (db_active s + 1) (mm_files (fm_meta (db_fm s)))" "mm_ok P (fm_fs fm) (fm_meta (db_fm s))"
    unfolding db_active_def by blast
  from db_put_index_set [OF val, of key ?e ?loc "s\<lparr>db_fm := fm\<rparr>"] obtain s1 where
    i: "db_put_index key val ?e ?loc (s\<lparr>db_fm := fm\<rparr>) = (kOk, s1)"
    "db_indices s1 = (db_indices s)(key \<mapsto> \<lparr>dir_entry_size = rec_sizeof ?e, dir_loc = ?loc\<rparr>)" "db_fm s1 = fm"
    by auto
  have "db_Put P cap (no_write io) sync key val s = Some (kOk, s1)"
    using rw e sz a(1) i(1) by (simp add: db_Put_def db_HandlePut_def Let_def)
  moreover have "mm_Init P io (mm_new (mm_path (fm_meta (db_fm s)))) (fm_fs fm) = Some (kOk, fm_meta (db_fm s), fm_fs fm)"
    by (rule mm_Init_existing [OF P a(3) p io])
  moreover have "db_active s + 1 \<notin> set (db_files s)"
    using active_files(3) [OF d(1), of "db_active s + 1"] u32_succ(1) [OF more] by (auto simp: db_files_def db_active_def)
  ultimately show ?thesis using i(2,3) a(2) by (simp add: db_files_def)
qed

section \<open>A removal that is not recorded\<close>

lemma fm_RemoveFile_no_write:
  assumes P: "pedrolib_ok P" and ok: "fm_ok P cap logs s" and io: "io_good io" and fid: "fid \<in> set (mm_files (fm_meta s))"
  shows "\<exists>s'. fm_RemoveFile P (no_write io) fid s = (kOk, s')
     \<and> fm_fs s' = fs_remove (mm_GetIndexFilePath P (fm_meta s) fid) (fs_remove (mm_GetDataFilePath P (fm_meta s) fid) (fm_fs s))
     \<and> mm_ok P (fm_fs s') (fm_meta s)"
proof -
  let ?m = "fm_meta s" and ?fs = "fm_fs s"
  let ?fs' = "fs_remove (mm_GetIndexFilePath P ?m fid) (fs_remove (mm_GetDataFilePath P ?m fid) ?fs)"
  have dok: "disk_ok P cap logs ?fs ?m" using ok by (simp add: fm_ok_def)
  note d = disk_okD [OF dok]
  have mp: "mm_path ?m \<noteq> mm_GetDataFilePath P ?m fid" "mm_path ?m \<noteq> mm_GetIndexFilePath P ?m fid"
    using d(5) by (simp_all add: paths_ok_def)
  have "mm_ok P ?fs' ?m" by (rule mm_ok_frame [OF d(4)]) (use mp in simp_all)
  moreover have "mm_DeleteFile P (no_write io) fid ?m ?fs = (kOk, ?m\<lparr>mm_files := set_erase fid (mm_files ?m)\<rparr>, ?fs)"
    using fid io by (simp add: mm_DeleteFile_def mm_log_no_write)
  ultimately show ?thesis
    by (simp add: fm_RemoveFile_def fm_ReleaseDataFile_def Let_def)
qed

text \<open>Recovery ends at the first file of the list that is not there.\<close>

lemma db_Open_missing_file:
  assumes P: "pedrolib_ok P" and io: "io_good io" and m: "mm_ok P fs m" and p: "path_valid (mm_path m)"
    and seg: "opt_cache_segments opts \<noteq> 0" and cap: "14 < cap" "cap < 2 ^ 32"
    and files: "mm_files m = fid # fids" "fid \<noteq> last (mm_files m)"
    and i: "fs_links fs (mm_GetDataFilePath P m (last (mm_files m))) = Some i" "log_file P cap es (fs_data fs i)"
    and gone: "fs_links fs (mm_GetDataFilePath P m fid) = None" "fs_links fs (mm_GetIndexFilePath P m fid) = None"
  shows "db_Open P cap io opts (mm_path m) buf fs = Some (kIOError, None, fs)"
proof -
  have mmi: "mm_Init P io (mm_new (mm_path m)) fs = Some (kOk, m, fs)" by (rule mm_Init_existing [OF P m p io])
  have ne: "mm_files m \<noteq> []" using files(1) by simp
  from fm_Init_active [OF P io ne cap i, of "opt_max_open_files opts"] obtain log where
    fm: "fm_Init P cap io (fm_new fs m (opt_max_open_files opts)) = Some (kOk, (fm_new fs m (opt_max_open_files opts))\<lparr>fm_index_log := Some log,
       fm_data_file := Some \<lparr>mrw_ino = i, mrw_write_index = log_size es, mrw_length = cap\<rparr>,
       fm_active_id := last (mm_files m)\<rparr>)" by blast
  let ?fm = "(fm_new fs m (opt_max_open_files opts))\<lparr>fm_index_log := Some log,
       fm_data_file := Some \<lparr>mrw_ino = i, mrw_write_index = log_size es, mrw_length = cap\<rparr>,
       fm_active_id := last (mm_files m)\<rparr>"
  have meta: "fm_meta ?fm = m" by (simp add: fm_new_def)
  from db_Open_steps [OF seg mmi fm, of buf, unfolded meta] obtain s1 where s1: "db_fm s1 = ?fm" "db_max_file s1 = 0"
    and run: "\<And>st s'. db_recover_files P io (mm_files m) s1 = Some (st, s') \<Longrightarrow>
      db_Open P cap io opts (mm_path m) buf fs = Some (st, if st \<noteq> kOk then None else Some s', fm_fs (db_fm s'))" by blast
  let ?s = "s1\<lparr>db_max_file := fid\<rparr>"
  have idx: "fm_AcquireIndexFile P io fid ?fm = Inl kIOError"
    using pro_Open_missing [OF gone(2), of io] by (simp add: fm_AcquireIndexFile_def fm_new_def)
  have miss: "lru_Get fid (lru_init n :: (file_id, rfile) lru) = (None, lru_init n)" for n by (simp add: lru_Get_def lru_init_def)
  have data: "fm_AcquireDataFile P io fid ?fm = (kIOError, None, ?fm)"
    using pro_Open_missing [OF gone(1), of io] files(2) miss by (simp add: fm_AcquireDataFile_def fm_new_def)
  have fms: "?s\<lparr>db_fm := ?fm\<rparr> = ?s" using s1(1) by (metis db.surjective db.update_convs(1-4))
  have "db_recover_file P io fid ?s = Some (kIOError, ?s)"
    using idx data s1(1) fms by (simp add: db_recover_file_def)
  then have "db_recover_files P io (mm_files m) s1 = Some (kIOError, ?s)"
    unfolding files(1) using s1(2) by (simp add: Let_def max_def)
  from run [OF this] s1(1) show ?thesis by (simp add: fm_new_def)
qed

lemma fm_removal_no_write:
  assumes P: "pedrolib_ok P" and ok: "fm_ok P cap logs s" and io: "io_good io"
    and files: "mm_files (fm_meta s) = fid # fids" "fid \<noteq> fm_active_id s"
    and p: "path_valid (mm_path (fm_meta s))" and seg: "opt_cache_segments opts \<noteq> 0"
  shows "\<exists>s'. fm_RemoveFile P (no_write io) fid s = (kOk, s')
     \<and> db_Open P cap io opts (mm_path (fm_meta s)) buf (fm_fs s') = Some (kIOError, None, fm_fs s')"
proof -
  let ?m = "fm_meta s" and ?fs = "fm_fs s"
  have dok: "disk_ok P cap logs ?fs ?m" using ok by (simp add: fm_ok_def)
  note d = disk_okD [OF dok] and act = active_files [OF ok]
  have last: "last (mm_files ?m) = fm_active_id s" using act(1) by (metis last_snoc)
  from fm_RemoveFile_no_write [OF P ok io, of fid] files(1) obtain s' where s': "fm_RemoveFile P (no_write io) fid s = (kOk, s')"
    "fm_fs s' = fs_remove (mm_GetIndexFilePath P ?m fid) (fs_remove (mm_GetDataFilePath P ?m fid) ?fs)" "mm_ok P (fm_fs s') ?m" by auto
  from d(6) [OF act(4)] obtain i where i: "fs_links ?fs (mm_GetDataFilePath P ?m (fm_active_id s)) = Some i"
    "log_file P cap (logs (fm_active_id s)) (fs_data ?fs i)" by blast
  have other: "mm_GetDataFilePath P ?m (fm_active_id s) \<noteq> mm_GetDataFilePath P ?m fid"
    "mm_GetDataFilePath P ?m (fm_active_id s) \<noteq> mm_GetIndexFilePath P ?m fid" "mm_GetDataFilePath P ?m fid \<noteq> mm_GetIndexFilePath P ?m fid"
    using data_path_inj [OF P] files(2) data_index_path by metis+
  have "db_Open P cap io opts (mm_path ?m) buf (fm_fs s') = Some (kIOError, None, fm_fs s')"
    by (rule db_Open_missing_file [OF P io s'(3) p seg d(1,2) files(1)]) (use s'(2) files(2) i other in \<open>simp_all add: last\<close>)
  then show ?thesis using s'(1) by blast
qed

end
