(* ===== verification/Results.thy ===== *)
theory Results
  imports DBStore
begin

text \<open>
  What a put and a get may answer, and what they leave alone, with no assumption on the state, the
  content of the files or the system calls: any of them may fail at any moment. These lemmas are the
  contract of the status codes of \<^verbatim>\<open>status.h\<close> that \<^verbatim>\<open>DBImpl\<close> hands out.
\<close>

section \<open>Statuses of the file manager\<close>

lemma mrw_Open_status: "mrw_Open io p n fs = (Inl err, fs') \<Longrightarrow> err \<in> {kIOError, kCorruption}"
  by (auto simp: mrw_Open_def Let_def split: if_splits option.splits prod.splits)

lemma pro_Open_status: "pro_Open io p fs = Inl err \<Longrightarrow> err = kIOError"
  by (auto simp: pro_Open_def Let_def split: if_splits option.splits)

lemma fm_CreateFile_status:
  "fm_CreateFile P cap io fid s = Some (st, s') \<Longrightarrow> st \<in> {kOk, kIOError, kCorruption}"
  by (auto simp: fm_CreateFile_def Let_def split: prod.splits sum.splits option.splits dest: mrw_Open_status)

lemma fm_Append_status:
  assumes "fm_Append P cap io e s = Some r"
  shows "fst r \<in> {kOk, kIOError, kCorruption}"
proof (rule fm_Append.raw_induct [where Pa = "\<lambda>_ r. fst r \<in> {kOk, kIOError, kCorruption}", OF _ assms])
  fix app :: "'a pedrolib \<Rightarrow> nat \<Rightarrow> io \<Rightarrow> rec_entry \<Rightarrow> 'a fm \<Rightarrow> (status \<times> location \<times> 'a fm) option" and P cap io e s r
  assume IH: "\<And>P cap io e s r. app P cap io e s = Some r \<Longrightarrow> fst r \<in> {kOk, kIOError, kCorruption}"
    and app: "(case fm_append_active P e s of
        None \<Rightarrow> None
      | Some (Inr r) \<Rightarrow> Some (kOk, fst r, snd r)
      | Some (Inl _) \<Rightarrow>
          (case fm_CreateFile P cap io (fm_active_id s + 1) s of
             None \<Rightarrow> None
           | Some r \<Rightarrow> if fst r \<noteq> kOk then Some (fst r, Location 0 0, snd r) else app P cap io e (snd r))) = Some r"
  from app show "fst r \<in> {kOk, kIOError, kCorruption}"
    by (auto split: option.splits sum.splits if_splits dest!: fm_CreateFile_status IH)
qed

lemma fm_AcquireDataFile_status: "fm_AcquireDataFile P io fid s = (st, f, s') \<Longrightarrow> st \<in> {kOk, kIOError}"
  by (auto simp: fm_AcquireDataFile_def Let_def split: if_splits prod.splits option.splits sum.splits dest: pro_Open_status)

section \<open>Reads through the cache\<close>

text \<open>The part of the file manager that a read leaves alone: everything but the open files.\<close>

definition same_files :: "'a fm \<Rightarrow> 'a fm \<Rightarrow> bool" where
  "same_files s s' \<longleftrightarrow> s' = s\<lparr>fm_open_files := fm_open_files s'\<rparr>"

lemma same_files_refl [simp]: "same_files s s"
  by (simp add: same_files_def)

lemma same_files_trans [trans]: "same_files s s' \<Longrightarrow> same_files s' s'' \<Longrightarrow> same_files s s''"
  by (cases s; cases s'; cases s'') (simp add: same_files_def)

lemma fm_AcquireDataFile_same: "fm_AcquireDataFile P io fid s = (st, f, s') \<Longrightarrow> same_files s s'"
  by (auto simp: fm_AcquireDataFile_def same_files_def Let_def split: if_splits prod.splits option.splits sum.splits)

lemma rc_load_result:
  assumes "rc_load (fm_AcquireDataFile P io) F i (Some (f, s)) = (st, b, Some (f', s'))"
  shows "st \<in> {kOk, kIOError} \<and> same_files s s'"
  using assms by (auto simp: rc_load_def Let_def split: option.splits prod.splits if_splits
      dest: fm_AcquireDataFile_same fm_AcquireDataFile_status)

lemma seg_GetOrCompute_result:
  assumes "seg_GetOrCompute C h key supplier st segs = (stat, v, st', segs')"
  shows "stat = kOk \<and> st' = st \<or> supplier st = (stat, v, st')"
  using assms by (auto simp: seg_GetOrCompute_def Let_def split: prod.splits option.splits)

lemma rc_Get_block_result:
  assumes "rc_Get_block P (fm_AcquireDataFile Q io) F i ctx s bc = Some (st, ctx', s', bc')"
  shows "st \<in> {kOk, kIOError} \<and> same_files s s'"
proof -
  obtain stat block r bc1 where g: "seg_GetOrCompute lru_ops (rc_hash P) i (rc_load (fm_AcquireDataFile Q io) F i)
      (Some (rc_file ctx, s)) bc = (stat, block, r, bc1)" by (metis prod_cases4)
  from assms g obtain f where r: "r = Some (f, s')" "stat = st"
    by (auto simp: rc_Get_block_def Let_def split: option.splits if_splits)
  from seg_GetOrCompute_result [OF g] show ?thesis
    using rc_load_result [of Q io F i "rc_file ctx" s st block f s'] r by auto
qed

lemma rc_Build_result: "rc_Build P ctx = Some (st, ctx') \<Longrightarrow> st \<in> {kOk, kCorruption}"
  by (auto simp: rc_Build_def Let_def split: unpacked.splits)

lemma rc_Get_from_result:
  assumes "rc_Get_from P (fm_AcquireDataFile Q io) F i ctx s bc = Some r"
  shows "fst r \<in> {kOk, kIOError, kCorruption} \<and> same_files s (fst (snd (snd r)))"
proof -
  let ?Q = "\<lambda>((((((P, opener), F), i), ctx), s), bc) r. opener = fm_AcquireDataFile Q io \<longrightarrow>
    fst r \<in> {kOk, kIOError, kCorruption} \<and> same_files s (fst (snd (snd r)))"
  have "?Q ((((((P, fm_AcquireDataFile Q io), F), i), ctx), s), bc) r"
  proof (rule rc_Get_from.raw_induct [where Pa = ?Q, OF _ assms], unfold prod.case, intro impI)
    fix get P opener F i ctx s bc r
    assume IH: "\<And>P opener F i ctx s bc r. get P opener F i ctx s bc = Some r \<Longrightarrow> opener = fm_AcquireDataFile Q io \<longrightarrow>
        fst r \<in> {kOk, kIOError, kCorruption} \<and> same_files s (fst (snd (snd r)))"
      and opener: "opener = fm_AcquireDataFile Q io"
      and get: "(if rc_GetOffset i < rc_end ctx
        then case rc_Get_block P opener F i ctx s bc of
               None \<Rightarrow> None
             | Some (stat, ctx, s, bc) \<Rightarrow>
                 if stat \<noteq> kOk then Some (stat, ctx, s, bc) else get P opener F (i + 1) ctx s bc
        else case rc_Build P ctx of None \<Rightarrow> None | Some (stat, ctx) \<Rightarrow> Some (stat, ctx, s, bc)) = Some r"
    show "fst r \<in> {kOk, kIOError, kCorruption} \<and> same_files s (fst (snd (snd r)))"
    proof (cases "rc_GetOffset i < rc_end ctx")
      case True
      with get obtain st ctx' s' bc' where b: "rc_Get_block P opener F i ctx s bc = Some (st, ctx', s', bc')"
        "st \<noteq> kOk \<and> r = (st, ctx', s', bc') \<or> st = kOk \<and> get P opener F (i + 1) ctx' s' bc' = Some r"
        by (auto split: option.splits if_splits)
      have "st \<in> {kOk, kIOError} \<and> same_files s s'" using rc_Get_block_result b(1) unfolding opener by blast
      then show ?thesis using b(2) IH [of P opener F "i + 1" ctx' s' bc' r] opener same_files_trans by auto
    next
      case False
      then show ?thesis using get by (auto split: option.splits dest: rc_Build_result)
    qed
  qed
  then show ?thesis by simp
qed

section \<open>Gets and puts\<close>

text \<open>A get leaves everything alone but the caches and the buffer of the thread.\<close>

definition same_db :: "'a db \<Rightarrow> 'a db \<Rightarrow> bool" where
  "same_db s s' \<longleftrightarrow> same_files (db_fm s) (db_fm s')
     \<and> s' = s\<lparr>db_fm := db_fm s', db_read_cache := db_read_cache s', db_buf := db_buf s'\<rparr>"

lemma db_get_direct_result:
  assumes "db_get_direct P io d s = Some (st, v, s')"
  shows "st \<in> {kOk, kIOError, kCorruption} \<and> (v \<noteq> None \<longleftrightarrow> st = kOk) \<and> same_db s s'"
  using assms
  by (auto simp: db_get_direct_def same_db_def Let_def split: prod.splits option.splits if_splits
      dest: fm_AcquireDataFile_same fm_AcquireDataFile_status)

lemma db_get_cached_result:
  assumes "db_get_cached P io d s = Some (st, v, s')"
  shows "st \<in> {kOk, kIOError, kCorruption} \<and> (v \<noteq> None \<longleftrightarrow> st = kOk) \<and> same_db s s'"
  using assms
  by (auto simp: db_get_cached_def rc_Get_def same_db_def Let_def split: prod.splits option.splits if_splits
      dest!: rc_Get_from_result)

lemma db_Get_result:
  assumes get: "db_Get P io use_read_cache key s = Some (st, v, s')"
  shows "st \<in> {kOk, kNotFound, kIOError, kCorruption}" "v \<noteq> None \<longleftrightarrow> st = kOk" "same_db s s'"
    "st = kNotFound \<longleftrightarrow> db_indices s key = None"
proof -
  have "st \<in> {kOk, kNotFound, kIOError, kCorruption} \<and> (v \<noteq> None \<longleftrightarrow> st = kOk) \<and> same_db s s'
      \<and> (st = kNotFound \<longleftrightarrow> db_indices s key = None)"
  proof (cases "db_indices s key")
    case None
    then show ?thesis using get by (auto simp: db_Get_def db_HandleGet_def same_db_def)
  next
    case (Some d)
    then have "db_get_direct P io d s = Some (st, v, s') \<or> db_get_cached P io d s = Some (st, v, s')"
      using get by (simp add: db_Get_def db_HandleGet_def Let_def split: if_splits)
    then show ?thesis using Some db_get_direct_result db_get_cached_result by fastforce
  qed
  then show "st \<in> {kOk, kNotFound, kIOError, kCorruption}" "v \<noteq> None \<longleftrightarrow> st = kOk" "same_db s s'"
    "st = kNotFound \<longleftrightarrow> db_indices s key = None" by blast+
qed

lemma db_put_index_result:
  assumes "db_put_index key val e loc s = (st, s')"
  shows "st = (if val = [] \<and> db_indices s key = None then kNotFound else kOk)" "db_fm s' = db_fm s"
    "db_options s' = db_options s" "db_readonly s' = db_readonly s"
    "db_indices s' key = (if val = [] then None else Some \<lparr>dir_entry_size = rec_sizeof e, dir_loc = loc\<rparr>)"
    "key' \<noteq> key \<Longrightarrow> db_indices s' key' = db_indices s key'"
proof -
  have "st = (if val = [] \<and> db_indices s key = None then kNotFound else kOk) \<and> db_fm s' = db_fm s
     \<and> db_options s' = db_options s \<and> db_readonly s' = db_readonly s
     \<and> db_indices s' = (db_indices s)(key := if val = [] then None else Some \<lparr>dir_entry_size = rec_sizeof e, dir_loc = loc\<rparr>)"
    using assms by (cases "db_indices s key"; cases "val = []") (auto simp: db_put_index_def Let_def)
  then show "st = (if val = [] \<and> db_indices s key = None then kNotFound else kOk)" "db_fm s' = db_fm s"
    "db_options s' = db_options s" "db_readonly s' = db_readonly s"
    "db_indices s' key = (if val = [] then None else Some \<lparr>dir_entry_size = rec_sizeof e, dir_loc = loc\<rparr>)"
    "key' \<noteq> key \<Longrightarrow> db_indices s' key' = db_indices s key'" by simp_all
qed

lemma db_Put_result:
  assumes "db_Put P cap io sync key val s = Some (st, s')"
  shows "st \<in> {kOk, kNotFound, kNotSupported, kIOError, kCorruption}"
    "st \<notin> {kOk, kNotFound} \<Longrightarrow> s' = s\<lparr>db_fm := db_fm s'\<rparr>"
    "st = kNotSupported \<Longrightarrow> s' = s"
    "st = kOk \<Longrightarrow> (db_indices s' key = None) = (val = [])"
    "st = kNotFound \<Longrightarrow> val = [] \<and> db_indices s key = None"
    "key' \<noteq> key \<Longrightarrow> db_indices s' key' = db_indices s key'"
proof -
  let ?e = "db_entry P s key val"
  have put: "st = kNotSupported \<and> s' = s
     \<or> (\<exists>loc fm. fm_Append P cap io ?e (db_fm s) = Some (st, loc, fm) \<and> st \<noteq> kOk \<and> s' = s\<lparr>db_fm := fm\<rparr>)
     \<or> (\<exists>loc fm. db_put_index key val ?e loc (s\<lparr>db_fm := fm\<rparr>) = (st, s'))"
  proof (cases "db_readonly s \<or> unat (rec_sizeof ?e) > cap")
    case True
    then have "db_Put P cap io sync key val s = Some (kNotSupported, s)"
      by (cases "db_readonly s") (simp_all add: db_Put_def db_HandlePut_def Let_def)
    then show ?thesis using assms by simp
  next
    case False
    then obtain status loc fm where "fm_Append P cap io ?e (db_fm s) = Some (status, loc, fm)"
      "(if status \<noteq> kOk then (status, s\<lparr>db_fm := fm\<rparr>) else db_put_index key val ?e loc (s\<lparr>db_fm := fm\<rparr>)) = (st, s')"
      using assms by (cases "fm_Append P cap io ?e (db_fm s)") (auto simp: db_Put_def db_HandlePut_def Let_def split: if_splits prod.splits)
    then show ?thesis by (cases "status = kOk") auto
  qed
  then consider "st = kNotSupported" "s' = s"
    | loc fm where "fm_Append P cap io ?e (db_fm s) = Some (st, loc, fm)" "st \<noteq> kOk" "s' = s\<lparr>db_fm := fm\<rparr>"
    | loc fm where "db_put_index key val ?e loc (s\<lparr>db_fm := fm\<rparr>) = (st, s')" by blast
  then have "st \<in> {kOk, kNotFound, kNotSupported, kIOError, kCorruption} \<and> (st \<notin> {kOk, kNotFound} \<longrightarrow> s' = s\<lparr>db_fm := db_fm s'\<rparr>)
     \<and> (st = kNotSupported \<longrightarrow> s' = s) \<and> (st = kOk \<longrightarrow> (db_indices s' key = None) = (val = []))
     \<and> (st = kNotFound \<longrightarrow> val = [] \<and> db_indices s key = None) \<and> (key' \<noteq> key \<longrightarrow> db_indices s' key' = db_indices s key')"
  proof cases
    case 1
    then show ?thesis by simp
  next
    case (2 loc fm)
    then show ?thesis using fm_Append_status [OF 2(1)] by auto
  next
    case (3 loc fm)
    then show ?thesis using db_put_index_result(1,5) [OF 3] db_put_index_result(6) [OF 3, of key'] by auto
  qed
  then show "st \<in> {kOk, kNotFound, kNotSupported, kIOError, kCorruption}"
    "st \<notin> {kOk, kNotFound} \<Longrightarrow> s' = s\<lparr>db_fm := db_fm s'\<rparr>" "st = kNotSupported \<Longrightarrow> s' = s"
    "st = kOk \<Longrightarrow> (db_indices s' key = None) = (val = [])" "st = kNotFound \<Longrightarrow> val = [] \<and> db_indices s key = None"
    "key' \<noteq> key \<Longrightarrow> db_indices s' key' = db_indices s key'" by blast+
qed

end
