(* ===== verification/Debug.thy ===== *)
theory Debug
  imports Prelude "HOL-Library.Multiset"
begin

text \<open>
  The helpers of the test programs. \<^verbatim>\<open>debug/data.h\<close> makes keys and values, eagerly or at the
  first access, and fills a vector with them by several threads. \<^verbatim>\<open>debug/reporter.h\<close> counts
  operations and reports them every second. A result \<open>None\<close> is a
  \<^verbatim>\<open>std::length_error\<close>: \<open>lim\<close> is the longest string of the standard library.
  \<open>fmt\<close> is fmt's decimal form of a number, and \<open>draw\<close> takes one character from the random
  generator of a thread.
\<close>

section \<open>Strings\<close>

text \<open>The loop \<^verbatim>\<open>s += pad\<close>, with the check that appending makes.\<close>

fun pad_loop :: "nat \<Rightarrow> nat \<Rightarrow> byte \<Rightarrow> bytes \<Rightarrow> bytes option" where
  "pad_loop lim 0 pad s = Some s"
| "pad_loop lim (Suc k) pad s = (if length s < lim then pad_loop lim k pad (s @ [pad]) else None)"

definition PaddingString :: "nat \<Rightarrow> bytes \<Rightarrow> nat \<Rightarrow> byte \<Rightarrow> bytes option" where
  "PaddingString lim prefix n pad =
     (if n > lim then None else pad_loop lim (size_sub n (length prefix)) pad prefix)"

fun random_loop :: "nat \<Rightarrow> ('r \<Rightarrow> byte \<times> 'r) \<Rightarrow> nat \<Rightarrow> bytes \<Rightarrow> 'r \<Rightarrow> (bytes \<times> 'r) option" where
  "random_loop lim draw 0 s r = Some (s, r)"
| "random_loop lim draw (Suc k) s r =
     (if length s < lim then let (c, r) = draw r in random_loop lim draw k (s @ [c]) r else None)"

definition RandomString :: "nat \<Rightarrow> ('r \<Rightarrow> byte \<times> 'r) \<Rightarrow> bytes \<Rightarrow> nat \<Rightarrow> 'r \<Rightarrow> (bytes \<times> 'r) option" where
  "RandomString lim draw prefix n r =
     (if n > lim then None else random_loop lim draw (size_sub n (length prefix)) prefix r)"

lemma pad_loop_result:
  "pad_loop lim k pad s = (if k = 0 \<or> length s + k \<le> lim then Some (s @ replicate k pad) else None)"
  by (induction k arbitrary: s) (auto simp: replicate_app_Cons_same)

lemma PaddingString_fits:
  assumes "length prefix \<le> n" "n \<le> lim" "n < 2 ^ 64"
  shows "PaddingString lim prefix n pad = Some (prefix @ replicate (n - length prefix) pad)"
  using assms by (simp add: PaddingString_def pad_loop_result)

text \<open>
  A prefix that is longer than the string asked for is not returned as it is: the number of
  characters left wraps around, and the loop runs until the string is as long as a string can be.
\<close>

lemma PaddingString_wraps:
  assumes "n < length prefix" "length prefix \<le> lim" "lim < 2 ^ 63"
  shows "PaddingString lim prefix n pad = None"
proof -
  have len: "length prefix < 2 ^ 64" using assms(2,3) by simp
  have "size_sub n (length prefix) = n + 2 ^ 64 - length prefix" by (rule size_sub_wraps [OF assms(1) len])
  then show ?thesis using assms by (simp add: PaddingString_def pad_loop_result)
qed

text \<open>With a generator of 7 bit characters the new characters are such.\<close>

lemma random_loop_result:
  assumes "\<And>r. fst (draw r) \<le> 127"
  shows "length s + k \<le> lim \<Longrightarrow> \<exists>xs r'. random_loop lim draw k s r = Some (s @ xs, r') \<and> length xs = k \<and> (\<forall>c \<in> set xs. c \<le> 127)"
proof (induction k arbitrary: s r)
  case (Suc k)
  obtain c r1 where c: "draw r = (c, r1)" by fastforce
  have c127: "c \<le> 127" using assms [of r] c by simp
  from Suc.IH [of "s @ [c]" r1] Suc.prems obtain xs r' where
    "random_loop lim draw k (s @ [c]) r1 = Some ((s @ [c]) @ xs, r')" "length xs = k" "\<forall>c \<in> set xs. c \<le> 127" by auto
  then show ?case using c c127 Suc.prems by (intro exI [of _ "c # xs"] exI [of _ r']) simp
qed simp

lemma RandomString_fits:
  assumes "\<And>r. fst (draw r) \<le> 127" "length prefix \<le> n" "n \<le> lim" "n < 2 ^ 64"
  shows "\<exists>xs r'. RandomString lim draw prefix n r = Some (prefix @ xs, r') \<and> length (prefix @ xs) = n \<and> (\<forall>c \<in> set xs. c \<le> 127)"
  using random_loop_result [of draw prefix "n - length prefix" lim r] assms by (auto simp: RandomString_def)

section \<open>Key-value pairs\<close>

record kv_options =
  kvo_key_size :: nat
  kvo_value_size :: nat
  kvo_random_value :: bool
  kvo_lazy_value :: bool

definition kv_options_default :: kv_options where
  "kv_options_default = \<lparr>kvo_key_size = 16, kvo_value_size = 100, kvo_random_value = False, kvo_lazy_value = True\<rparr>"

text \<open>The variant: a string, or what is needed to make it.\<close>

datatype kv_variant = Value bytes | ValueOption nat nat bool

record key_value =
  kv_key :: bytes
  kv_value :: kv_variant

definition key_value_default :: key_value where
  "key_value_default = \<lparr>kv_key = [], kv_value = Value []\<rparr>"

text \<open>The value of an index, as \<^verbatim>\<open>Create\<close> and \<^verbatim>\<open>value\<close> both make it.\<close>

definition make_value ::
    "nat \<Rightarrow> (nat \<Rightarrow> bytes) \<Rightarrow> ('r \<Rightarrow> byte \<times> 'r) \<Rightarrow> nat \<Rightarrow> nat \<Rightarrow> bool \<Rightarrow> 'r \<Rightarrow> (bytes \<times> 'r) option" where
  "make_value lim fmt draw index len random r =
     (if random then RandomString lim draw (str ''value'' @ fmt index) len r
      else map_option (\<lambda>v. (v, r)) (PaddingString lim (str ''value'' @ fmt index) len (of_char (CHR ''*''))))"

definition kv_Create ::
    "nat \<Rightarrow> (nat \<Rightarrow> bytes) \<Rightarrow> ('r \<Rightarrow> byte \<times> 'r) \<Rightarrow> kv_options \<Rightarrow> nat \<Rightarrow> 'r \<Rightarrow> (key_value \<times> 'r) option" where
  "kv_Create lim fmt draw options index r =
     (case PaddingString lim (str ''key'' @ fmt index) (kvo_key_size options) (of_char (CHR ''*'')) of
        None \<Rightarrow> None
      | Some k \<Rightarrow>
          if kvo_lazy_value options
          then Some (\<lparr>kv_key = k, kv_value = ValueOption index (kvo_value_size options) (kvo_random_value options)\<rparr>, r)
          else
            (case make_value lim fmt draw index (kvo_value_size options) (kvo_random_value options) r of
               None \<Rightarrow> None
             | Some (v, r) \<Rightarrow> Some (\<lparr>kv_key = k, kv_value = Value v\<rparr>, r)))"

text \<open>\<^verbatim>\<open>value()\<close> replaces the variant by the string it returns.\<close>

definition kv_get_value ::
    "nat \<Rightarrow> (nat \<Rightarrow> bytes) \<Rightarrow> ('r \<Rightarrow> byte \<times> 'r) \<Rightarrow> key_value \<Rightarrow> 'r \<Rightarrow> (bytes \<times> key_value \<times> 'r) option" where
  "kv_get_value lim fmt draw kv r =
     (case kv_value kv of
        Value v \<Rightarrow> Some (v, kv, r)
      | ValueOption index len random \<Rightarrow>
          (case make_value lim fmt draw index len random r of
             None \<Rightarrow> None
           | Some (v, r) \<Rightarrow> Some (v, kv\<lparr>kv_value := Value v\<rparr>, r)))"

text \<open>A value is made once: later calls return the same string and leave the pair alone.\<close>

lemma kv_get_value_again:
  "kv_get_value lim fmt draw kv r = Some (v, kv', r') \<Longrightarrow> kv_get_value lim fmt draw kv' r2 = Some (v, kv', r2)"
  by (auto simp: kv_get_value_def split: kv_variant.splits option.splits)

text \<open>Values made at the first access are those made at once, when they are made with the same generator.\<close>

lemma kv_lazy_eager:
  assumes "kv_Create lim fmt draw (o'\<lparr>kvo_lazy_value := False\<rparr>) index r = Some (kv, r')"
  shows "\<exists>kv0 v. kv_Create lim fmt draw (o'\<lparr>kvo_lazy_value := True\<rparr>) index r = Some (kv0, r)
     \<and> kv_get_value lim fmt draw kv0 r = Some (v, kv, r') \<and> kv_value kv = Value v"
  using assms by (auto simp: kv_Create_def kv_get_value_def split: option.splits)

section \<open>The generator\<close>

text \<open>
  Every task of \<^verbatim>\<open>for_each\<close> takes the next number from the atomic counter and fills its own
  element of the vector. A step \<open>(t, i)\<close> is the task of element \<open>i\<close> on thread \<open>t\<close>; the
  executor decides on the threads and on the order of the steps. Every thread has a random
  generator.
\<close>

record 'r gen_state =
  gen_data :: "key_value list"
  gen_c :: nat
  gen_rng :: "nat \<Rightarrow> 'r"

definition gen_step ::
    "nat \<Rightarrow> (nat \<Rightarrow> bytes) \<Rightarrow> ('r \<Rightarrow> byte \<times> 'r) \<Rightarrow> kv_options \<Rightarrow> nat \<times> nat \<Rightarrow> 'r gen_state \<Rightarrow> 'r gen_state option" where
  "gen_step lim fmt draw options ti g =
     (case kv_Create lim fmt draw options (gen_c g) (gen_rng g (fst ti)) of
        None \<Rightarrow> None
      | Some (kv, r) \<Rightarrow> Some \<lparr>gen_data = (gen_data g)[snd ti := kv], gen_c = gen_c g + 1,
          gen_rng = (gen_rng g)(fst ti := r)\<rparr>)"

fun gen_run ::
    "nat \<Rightarrow> (nat \<Rightarrow> bytes) \<Rightarrow> ('r \<Rightarrow> byte \<times> 'r) \<Rightarrow> kv_options \<Rightarrow> (nat \<times> nat) list \<Rightarrow> 'r gen_state \<Rightarrow> 'r gen_state option" where
  "gen_run lim fmt draw options [] g = Some g"
| "gen_run lim fmt draw options (ti # steps) g =
     (case gen_step lim fmt draw options ti g of
        None \<Rightarrow> None | Some g \<Rightarrow> gen_run lim fmt draw options steps g)"

definition Generator ::
    "nat \<Rightarrow> (nat \<Rightarrow> bytes) \<Rightarrow> ('r \<Rightarrow> byte \<times> 'r) \<Rightarrow> (nat \<times> nat) list \<Rightarrow> (nat \<Rightarrow> 'r) \<Rightarrow> nat \<Rightarrow> kv_options
       \<Rightarrow> (key_value list \<times> (nat \<Rightarrow> 'r)) option" where
  "Generator lim fmt draw steps rs n options =
     map_option (\<lambda>g. (gen_data g, gen_rng g))
       (gen_run lim fmt draw options steps \<lparr>gen_data = replicate n key_value_default, gen_c = 0, gen_rng = rs\<rparr>)"

definition gen_key :: "(nat \<Rightarrow> bytes) \<Rightarrow> kv_options \<Rightarrow> nat \<Rightarrow> bytes" where
  "gen_key fmt options k =
     (let p = str ''key'' @ fmt k in p @ replicate (kvo_key_size options - length p) (of_char (CHR ''*'')))"

lemma kv_Create_key:
  assumes "kv_Create lim fmt draw options k r = Some (kv, r')" "3 + length (fmt k) \<le> kvo_key_size options"
    and "kvo_key_size options \<le> lim" "kvo_key_size options < 2 ^ 64"
  shows "kv_key kv = gen_key fmt options k"
  using assms PaddingString_fits [of "str ''key'' @ fmt k" "kvo_key_size options" lim]
  by (auto simp: kv_Create_def gen_key_def Let_def split: if_splits option.splits)

text \<open>The \<open>j\<close>-th step writes the key of number \<open>j\<close>, to whatever element it belongs.\<close>

lemma gen_run_keys:
  assumes "\<And>k. k < gen_c g + length steps \<Longrightarrow> 3 + length (fmt k) \<le> kvo_key_size options"
    and "kvo_key_size options \<le> lim" "kvo_key_size options < 2 ^ 64"
    and "gen_run lim fmt draw options steps g = Some g'" "distinct (map snd steps)" "snd ` set steps \<subseteq> {..<length (gen_data g)}"
  shows "length (gen_data g') = length (gen_data g)
     \<and> (\<forall>j < length steps. kv_key (gen_data g' ! snd (steps ! j)) = gen_key fmt options (gen_c g + j))
     \<and> (\<forall>i. i \<notin> snd ` set steps \<longrightarrow> gen_data g' ! i = gen_data g ! i)"
  using assms(1,4-6)
proof (induction steps arbitrary: g)
  case (Cons ti steps)
  from Cons.prems(2) obtain kv r where kv: "kv_Create lim fmt draw options (gen_c g) (gen_rng g (fst ti)) = Some (kv, r)"
    by (auto simp: gen_step_def split: option.splits)
  let ?g = "\<lparr>gen_data = (gen_data g)[snd ti := kv], gen_c = gen_c g + 1, gen_rng = (gen_rng g)(fst ti := r)\<rparr>"
  have run: "gen_run lim fmt draw options steps ?g = Some g'" using Cons.prems(2) kv by (simp add: gen_step_def)
  have key: "kv_key kv = gen_key fmt options (gen_c g)" by (rule kv_Create_key [OF kv _ assms(2,3)]) (use Cons.prems(1) in simp)
  have small: "3 + length (fmt k) \<le> kvo_key_size options" if "k < gen_c ?g + length steps" for k using Cons.prems(1) that by simp
  have dist: "distinct (map snd steps)" "snd ` set steps \<subseteq> {..<length (gen_data ?g)}" using Cons.prems(3,4) by auto
  have ih: "length (gen_data g') = length (gen_data g)"
     "\<forall>j < length steps. kv_key (gen_data g' ! snd (steps ! j)) = gen_key fmt options (gen_c g + Suc j)"
     "\<forall>i. i \<notin> snd ` set steps \<longrightarrow> gen_data g' ! i = (gen_data g)[snd ti := kv] ! i"
    using Cons.IH [OF small run dist] by simp_all
  have here: "kv_key (gen_data g' ! snd ti) = gen_key fmt options (gen_c g)" using ih(3) Cons.prems(3,4) key by auto
  have "kv_key (gen_data g' ! snd ((ti # steps) ! j)) = gen_key fmt options (gen_c g + j)" if "j < length (ti # steps)" for j
    using that here ih(2) by (cases j) simp_all
  moreover have "gen_data g' ! i = gen_data g ! i" if "i \<notin> snd ` set (ti # steps)" for i using ih(3) that by auto
  ultimately show ?case using ih(1) by blast
qed simp

text \<open>
  In whatever order the tasks run: the vector holds the keys of the numbers below \<open>n\<close>, each
  once.
\<close>

lemma Generator_keys:
  assumes size: "\<And>k. k < n \<Longrightarrow> 3 + length (fmt k) \<le> kvo_key_size options"
    and lim: "kvo_key_size options \<le> lim" "kvo_key_size options < 2 ^ 64"
    and steps: "mset (map snd steps) = mset [0..<n]" and gen: "Generator lim fmt draw steps rs n options = Some (data, rs')"
  shows "length data = n" "mset (map kv_key data) = mset (map (gen_key fmt options) [0..<n])"
proof -
  let ?g = "\<lparr>gen_data = replicate n key_value_default, gen_c = 0, gen_rng = rs\<rparr>"
  obtain g where g: "gen_run lim fmt draw options steps ?g = Some g" "data = gen_data g" using gen by (auto simp: Generator_def)
  have len: "length steps = n" using arg_cong [OF steps, of size] by simp
  have dist: "distinct (map snd steps)" using steps mset_eq_imp_distinct_iff [OF steps] by simp
  have sub: "snd ` set steps \<subseteq> {..<length (gen_data ?g)}" using mset_eq_setD [OF steps] by auto
  have small: "3 + length (fmt k) \<le> kvo_key_size options" if "k < gen_c ?g + length steps" for k using size that len by simp
  note r = gen_run_keys [OF small lim g(1) dist sub]
  show "length data = n" using r g(2) by simp
  have "map (\<lambda>i. kv_key (data ! i)) (map snd steps) = map (gen_key fmt options) [0..<n]"
    using r len g(2) by (intro nth_equalityI) simp_all
  then have "image_mset (\<lambda>i. kv_key (data ! i)) (mset [0..<n]) = mset (map (gen_key fmt options) [0..<n])"
    by (metis mset_map steps)
  moreover have "map (\<lambda>i. kv_key (data ! i)) [0..<n] = map kv_key data"
    using r g(2) by (intro nth_equalityI) simp_all
  ultimately show "mset (map kv_key data) = mset (map (gen_key fmt options) [0..<n])" by (metis mset_map)
qed

text \<open>The numbers have no asterisk, so the padding does not make two keys equal.\<close>

lemma gen_key_inj:
  assumes "inj fmt" "\<And>k. of_char (CHR ''*'') \<notin> set (fmt k)"
  shows "inj (gen_key fmt options)"
proof (rule injI)
  fix a b assume eq: "gen_key fmt options a = gen_key fmt options b"
  have t: "takeWhile (\<lambda>c. c \<noteq> of_char (CHR ''*'')) (gen_key fmt options k) = str ''key'' @ fmt k" for k
  proof -
    have "\<forall>c \<in> set (str ''key'' @ fmt k). c \<noteq> of_char (CHR ''*'')" using assms(2) [of k] by (auto simp: str_def)
    then show ?thesis unfolding gen_key_def Let_def by (subst takeWhile_append2) simp_all
  qed
  have "str ''key'' @ fmt a = str ''key'' @ fmt b" using arg_cong [OF eq, of "takeWhile (\<lambda>c. c \<noteq> of_char (CHR ''*''))"] unfolding t .
  then show "a = b" using assms(1) by (simp add: inj_def)
qed

lemma Generator_distinct:
  assumes fmt: "inj fmt" "\<And>k. of_char (CHR ''*'') \<notin> set (fmt k)" and size: "\<And>k. k < n \<Longrightarrow> 3 + length (fmt k) \<le> kvo_key_size options"
    and lim: "kvo_key_size options \<le> lim" "kvo_key_size options < 2 ^ 64"
    and steps: "mset (map snd steps) = mset [0..<n]" and gen: "Generator lim fmt draw steps rs n options = Some (data, rs')"
  shows "distinct (map kv_key data)"
proof -
  have "distinct (map (gen_key fmt options) [0..<n])"
    using gen_key_inj [OF fmt] by (simp add: distinct_map inj_on_def)
  then show ?thesis using mset_eq_imp_distinct_iff [OF Generator_keys(2) [OF size lim steps gen]] by blast
qed

section \<open>The reporter\<close>

text \<open>
  \<^verbatim>\<open>Report\<close> increments two atomic counters one after the other, so that the steps of several
  threads mix; the timer reports the first one and sets it back; the destructor reports the second
  one. \<open>rp_reports\<close> and \<open>rp_end\<close> are what is logged.
\<close>

record reporter =
  rp_last_count :: u64
  rp_count :: u64
  rp_reports :: "u64 list"
  rp_end :: "u64 option"

datatype rp_event = CountLast | CountAll | Timer

definition rp_new :: reporter where
  "rp_new = \<lparr>rp_last_count = 0, rp_count = 0, rp_reports = [], rp_end = None\<rparr>"

fun rp_step :: "rp_event \<Rightarrow> reporter \<Rightarrow> reporter" where
  "rp_step CountLast s = s\<lparr>rp_last_count := rp_last_count s + 1\<rparr>"
| "rp_step CountAll s = s\<lparr>rp_count := rp_count s + 1\<rparr>"
| "rp_step Timer s = s\<lparr>rp_reports := rp_reports s @ [rp_last_count s], rp_last_count := 0\<rparr>"

definition rp_Report :: "reporter \<Rightarrow> reporter" where
  "rp_Report s = rp_step CountAll (rp_step CountLast s)"

definition rp_destroy :: "reporter \<Rightarrow> reporter" where
  "rp_destroy s = s\<lparr>rp_end := Some (rp_count s)\<rparr>"

text \<open>
  No operation is reported twice or lost: what the timer has reported and what is left for its
  next run add up to the number of increments, in every order of the steps.
\<close>

lemma rp_conserved:
  "sum_list (rp_reports (fold rp_step es s)) + rp_last_count (fold rp_step es s)
     = sum_list (rp_reports s) + rp_last_count s + of_nat (count_list es CountLast)"
  "rp_count (fold rp_step es s) = rp_count s + of_nat (count_list es CountAll)"
proof (induction es arbitrary: s)
  case (Cons e es)
  case 1
  show ?case using Cons(1) [of "rp_step e s"] by (cases e) (simp_all add: algebra_simps)
  case 2
  show ?case using Cons(2) [of "rp_step e s"] by (cases e) (simp_all add: algebra_simps)
qed simp_all

text \<open>
  Once every call of \<^verbatim>\<open>Report\<close> has returned, the total at the end is the sum of all reports
  and of the rest that no report shows.
\<close>

lemma rp_total:
  assumes "count_list es CountLast = count_list es CountAll"
  shows "rp_end (rp_destroy (fold rp_step es rp_new))
     = Some (sum_list (rp_reports (fold rp_step es rp_new)) + rp_last_count (fold rp_step es rp_new))"
  using rp_conserved [of es rp_new] assms by (simp add: rp_destroy_def rp_new_def)

end
