(* ===== verification/Spec2Isabelle.thy ===== *)
theory Spec2Isabelle
  imports Scenario DBDead DBIterator DBQueue ConcGet ConcRun Lifetimes LateAppend CrashPut StaleBlock LongKey TornIndex Faults Results Debug
begin

text \<open>
  A model of \<^verbatim>\<open>pedrodb\<close>, an embedded key-value store in the manner of Bitcask, and the
  theorems that make it correct.

  The program. A database is a directory: numbered data files of \<^verbatim>\<open>kMaxFileBytes\<close> bytes
  that hold records one after the other (zeros behind them), an index file for every data file that
  is no longer written, and a metadata file with the log of file creations and deletions. A put
  appends a record to the active file (\<^verbatim>\<open>FileManager::Append\<close>), opening the next file
  when it is full, and moves the key in the index that is held in memory
  (\<^verbatim>\<open>DBImpl::HandlePut\<close>). A get looks the key up and reads its record from the file, or
  through a cache of blocks (\<^verbatim>\<open>DBImpl::HandleGet\<close>, \<^verbatim>\<open>ReadCache\<close>). Opening a
  database replays the index files and data files (\<^verbatim>\<open>DBImpl::Recovery\<close>); compaction
  moves the current records of a file to the active file and removes it
  (\<^verbatim>\<open>DBImpl::Compact\<close>). \<^verbatim>\<open>SegmentDB\<close> spreads the keys over several databases.

  The theories, and the files under \<^verbatim>\<open>src/\<close> that they model:

  \<^item> \<^verbatim>\<open>Prelude\<close>: \<^verbatim>\<open>status.h\<close>, \<^verbatim>\<open>defines.h\<close>, machine types, blocks of
    memory. \<^verbatim>\<open>Pedrolib\<close>: the submodule \<^verbatim>\<open>deps/pedrolib\<close>, snappy, fmt and
    \<^verbatim>\<open>std::hash\<close> as one record of parameters, the wrappers of \<^verbatim>\<open>compress.cc\<close>, the laws that are used
    (\<open>pedrolib_ok\<close>), and an instance of them (\<open>list_pedrolib\<close>).
  \<^item> \<^verbatim>\<open>Buffers\<close>: \<^verbatim>\<open>readable_file.h\<close>, \<^verbatim>\<open>readwrite_file.h\<close>, the view of
    \<^verbatim>\<open>read_cache.h\<close>; the locales \<open>readable_buffer\<close> and \<open>writable_buffer\<close> are what
    the format templates ask of a buffer, and every buffer class is an interpretation.
  \<^item> \<^verbatim>\<open>RecordFormat\<close>, \<^verbatim>\<open>IndexFormat\<close>, \<^verbatim>\<open>MetadataFormat\<close>: the headers of
    \<^verbatim>\<open>format/\<close>, with the sizes at their width.
  \<^item> \<^verbatim>\<open>LruCache\<close>, \<^verbatim>\<open>SegmentCache\<close>, \<^verbatim>\<open>ReadCache\<close>: the headers of
    \<^verbatim>\<open>cache/\<close>. The LRU list is a heap of nodes with both links; the locales \<open>cache\<close>,
    \<open>segment_cache\<close> and \<open>file_opener\<close> are the contracts between the layers.
  \<^item> \<^verbatim>\<open>Files\<close>: a file system of names and inodes, with the failures of the system calls as
    an argument (\<open>io\<close>), and the four classes of \<^verbatim>\<open>file/\<close>; the locale
    \<open>readable_file\<close> is the abstract class, interpreted by all of them.
  \<^item> \<^verbatim>\<open>Iterators\<close>, \<^verbatim>\<open>RecordScan\<close>: the headers of \<^verbatim>\<open>iterator/\<close>, the layout of a
    data file (\<open>log_file\<close>), and what the record iterator delivers from it.
  \<^item> \<^verbatim>\<open>MetadataManager\<close> and \<^verbatim>\<open>FileManager\<close>: \<^verbatim>\<open>metadata_manager\<close> and
    \<^verbatim>\<open>file_manager\<close> (\<^verbatim>\<open>.h\<close> and \<^verbatim>\<open>.cc\<close>). The tasks that are handed to
    the executor are the queue \<open>fm_pending\<close>; \<open>fm_run_task\<close> is one step of the executor.
    \<^verbatim>\<open>FileManagerSpec\<close>: the invariant \<open>fm_ok\<close>, which relates the files on the disk to
    one list of records per file, and what each operation does to these lists.
  \<^item> \<^verbatim>\<open>DBImpl\<close>: \<^verbatim>\<open>db_impl.h\<close>, \<^verbatim>\<open>db_impl.cc\<close>, \<^verbatim>\<open>db.cc\<close>,
    \<^verbatim>\<open>options.h\<close>. \<^verbatim>\<open>DBIndex\<close>: replaying records onto an index (\<open>replay\<close>), the
    invariant \<open>db_ok\<close> and the map that a database stands for (\<open>db_abs\<close>).
    \<^verbatim>\<open>DBPutGet\<close>, \<^verbatim>\<open>DBRecovery\<close>, \<^verbatim>\<open>DBOpen\<close>, \<^verbatim>\<open>DBCompact\<close>,
    \<^verbatim>\<open>DBDead\<close>, \<^verbatim>\<open>DBIterator\<close>, \<^verbatim>\<open>DBQueue\<close>: the correctness of each group of
    operations. \<^verbatim>\<open>Concurrency\<close>: the same operations cut at their locks, as a step relation
    over the program counters of any number of threads. \<^verbatim>\<open>ConcCompact\<close>: the whole of
    \<^verbatim>\<open>Compact(id)\<close>, with its iterator and the removal of the file, as one of these threads.
    \<^verbatim>\<open>ConcRun\<close>: runs of all threads, in which compactions come and go and every step is
    labelled with what it writes to the map. \<^verbatim>\<open>ConcGet\<close>: the two parts of a get.
    \<^verbatim>\<open>Lifetimes\<close>: the destructors of the mapped files on a model of the address space, the
    timers that \<^verbatim>\<open>Init\<close> and \<^verbatim>\<open>~DBImpl\<close> start and cancel, and the default options.
    \<^verbatim>\<open>LateAppend\<close>: the one place where
    an append itself is cut, between reading the active file and writing to it.
    \<^verbatim>\<open>Results\<close>: what a put and a get answer and leave alone when anything may fail.
  \<^item> \<^verbatim>\<open>CrashPut\<close>: a process that is killed between two stores of a put. The seven stores of
    \<^verbatim>\<open>Pack\<close> are a list (\<open>rec_stores\<close>, proved to be what \<open>rec_pack\<close> does),
    \<open>torn_stores\<close> is a prefix of it, and the files that are left are opened again.
    \<^verbatim>\<open>TornIndex\<close>: the same for the task that writes an index file.
    \<^verbatim>\<open>StaleBlock\<close>: a block that is cached while its file is still written.
    \<^verbatim>\<open>LongKey\<close>: keys that the header cannot express, from the put to the next opening.
    \<^verbatim>\<open>Faults\<close>: writes to the metadata file that fail (\<open>no_write\<close>).
  \<^item> \<^verbatim>\<open>Debug\<close>: the headers of \<^verbatim>\<open>debug/\<close>, which the test programs use: keys and
    values made at once or at the first access, the generator whose tasks run in any order, and the
    counters of the reporter.
  \<^item> \<^verbatim>\<open>KvStore\<close>: the abstract specification, a locale of a store that is a map, with its
    theorems about sequences of puts. \<^verbatim>\<open>DBStore\<close> interprets it with the database (a
    refinement: \<open>db_rep\<close> relates a database to its map), and \<^verbatim>\<open>SegmentDB\<close>
    (\<^verbatim>\<open>segment_db.h\<close>, \<^verbatim>\<open>segment_db.cc\<close>) shows that segments that are stores make up
    a store.
  \<^item> \<^verbatim>\<open>Scenario\<close>: concrete databases for the examples. This theory: the properties of the
    whole.

  What the groups of properties show. The database is a map, across puts, deletions, gets, rotation
  of files, the work of the executor, reopening and sequential compaction (C1 to C10, C34, C35). With
  several threads and compactions that begin when no other thread is at work on their file, it never answers
  with a value that was not put (C11), every put, deletion and move of a record takes effect in one
  step (C12), and such a compaction leaves no entry into the file that it removes, and ends (C14,
  C15); a get takes effect at its lookup as long as no file is removed (C13). Whatever fails, the statuses
  keep to their contract (C27, C28). Where the code does not keep more than that, the theorems say
  what happens instead: lost updates, revived deletions and puts that the files and the index have in
  different orders (C16 to C18), a put under way whose file is compacted (C19), a get whose file is
  removed (C20), lost index entries (C21), a put that was not finished hides or deletes an older value
  (C22), an index file that was not finished hides a whole file (C23), tombstones dropped by compaction
  and the active file compacted (C24, C25), a cached block that is out of date (C26), keys and values
  that do not fit their fields (C30, C39), a cache that is never emptied (C32), iteration that
  returns the wrong record (C36), a rotation that is not recorded or fails (C37, C38), a record that
  fills its file (C40). C33 is about the compaction queue; C29 and C31 about the components. Further lemmas that are
  results of their own: \<open>iterator_delivers_log\<close>, \<open>lru_destroy_frees\<close>,
  \<open>metadata_survives\<close>, \<open>unlogged_removal\<close>, \<open>sync_failures_readonly\<close>,
  \<open>get_or_compute_memoises\<close>, \<open>destroy_own_timers\<close>.

  Modelling decisions. A result \<open>None\<close> of an operation is an end of the process: a null
  pointer or an access outside a buffer, \<^verbatim>\<open>PEDRODB_FATAL\<close>, a failed assertion, a division by
  zero; or a loop that does not end, for the loops whose end rests on the data. Theorems that state
  \<open>Some\<close> therefore include termination and memory safety. Statuses are values. The size of a
  data file is the parameter \<open>cap\<close>, which is \<^verbatim>\<open>kMaxFileBytes\<close> (\<open>2 ^ 27\<close>) in the code;
  the theorems hold for every size above a record header and below \<open>2 ^ 32\<close>, and for the read
  cache one that whole blocks fill. The examples use 4096. There is no fuel, except for the number of
  records or calls that \<open>ri_take\<close>, \<open>dbi_scan\<close> and \<open>fm_run_tasks\<close> count; the theorems
  about them say which number is enough. File numbers are 32 bits wide, and the theorems bound the
  number of puts so that they are not used up. Unless a property is about failures, the system calls
  succeed (\<open>io_good\<close>), and the code that is not under \<^verbatim>\<open>src/\<close> keeps to its laws
  (\<open>pedrolib_ok\<close>). A path is valid (\<open>path_valid\<close>) when
  \<^verbatim>\<open>MetadataManager::Init\<close> accepts it (it ends with one of the characters of
  \<^verbatim>\<open>.db\<close>) and it is shorter than 65536 bytes.

  Not modelled: the logger, tests and build files, none of which holds state of the database; the
  intervals of the timers (a timer may fire at any moment) and the threads of the executor; a loss of
  power, that is a file system that keeps only a part of what was written (a mapping is the content
  of its inode at once, so that what a killed process has stored is there, C22 and C23); destructors
  that only release memory, except those of the LRU cache and of the reporter. What the map does not
  name under \<^verbatim>\<open>src/\<close> declares what is defined elsewhere, locks a mutex, or returns the
  last \<^verbatim>\<open>errno\<close>.In the interleavings of \<^verbatim>\<open>Concurrency\<close> an append is one step (an
  append that a rotation overtakes is the subject of C21), a thread that compacts moves records but does not
  remove its file; in those of \<^verbatim>\<open>ConcCompact\<close> and \<^verbatim>\<open>ConcRun\<close> one compaction at
  a time is followed to the removal. A read of a file that is open does not fail, so a
  \<^verbatim>\<open>pread\<close> that returns -1 is not modelled; what the iterators and the index reader do with
  bytes of their buffer that no read has filled rests on \<^verbatim>\<open>ArrayBuffer\<close>, which is not under
  \<^verbatim>\<open>src/\<close>: \<open>ri_fetch\<close> has no result after a short read (which the files that the
  invariant describes do not give), and \<open>ii_new\<close> has these bytes as an argument. Each segment of \<^verbatim>\<open>SegmentDB\<close> has its own part of the file
  system, since the names of its files start with its own name.
\<close>

section \<open>The database as a store\<close>

text \<open>
  C1: A database opened on an empty directory behaves like a map. After any sequence of puts and
  deletions whose keys are shorter than 256 bytes and whose records fit into a file, a get returns the
  value of the last put of its key, and \<open>kNotFound\<close> if there was none or it was a deletion. The
  only exception is a record that ends with the last byte of its file, when it is read directly: the
  get then reports \<open>kCorruption\<close>. The system calls succeed, the path is valid, the read cache
  has a segment, and there are fewer than \<open>2 ^ 32 - 2\<close> puts, so that the file numbers are not used up. What
  becomes of longer keys is the subject of C30.
\<close>

theorem open_puts_get:
  assumes "pedrolib_ok P" "io_good io" "opt_cache_segments opts \<noteq> 0" "path_valid p"
    and "fs_ok fs" "fs_links fs = (\<lambda>_. None)" "14 < cap" "cap < 2 ^ 32" "4096 dvd cap"
    and "length xs < 2 ^ 32 - 2" "\<forall>(key, val) \<in> set xs. db_small P cap (opt_compress_value opts) key val"
  shows "\<exists>s fs' s1 s2. db_Open P cap io opts p buf fs = Some (kOk, Some s, fs')
     \<and> kv_puts (\<lambda>key val s. db_Put P cap io sync key val s) xs s = Some s1
     \<and> db_Get P io use_read_cache key s1 = Some (case map_of (rev xs) key of
          None \<Rightarrow> (kNotFound, None, s2)
        | Some val \<Rightarrow>
            if val = [] then (kNotFound, None, s2)
            else if db_shadowed cap use_read_cache key s1 then (kCorruption, None, s2)
            else (kOk, Some val, s2))"
proof -
  from db_Open_fresh_rep [OF assms(1-10), of buf] obtain s fs' where s:
    "db_Open P cap io opts p buf fs = Some (kOk, Some s, fs')"
    "db_rep P cap io (opt_compress_value opts) (0 + length xs) s (\<lambda>_. None)" by auto
  from db_store.puts_get [OF s(2) assms(11), of sync use_read_cache key] s(1) show ?thesis
    unfolding kv_map_last by (cases "map_of (rev xs) key") (auto split: if_splits)
qed

lemma open_puts_get_witness:
  "\<exists>s fs' s1 s2. demo_open True = Some (kOk, Some s, fs')
     \<and> kv_puts (\<lambda>key val s. db_Put list_pedrolib 4096 io_fine False key val s)
         [([1], [10]), ([2], [20]), ([1], [11]), ([2], [])] s = Some s1
     \<and> db_Get list_pedrolib io_fine True [2] s1 = Some (kNotFound, None, s2)"
  using open_puts_get [OF list_pedrolib_ok io_good_fine, of "demo_options True" demo_path fs_init 4096
      "[([1], [10]), ([2], [20]), ([1], [11]), ([2], [])]" "[]" False True "[2]"]
  by (simp add: db_small_def list_pedrolib_def)

text \<open>
  C2: Durability. Suppose that the index of a database is what the replay of its files yields. This is
  so after opening (C8), every put keeps it (C5), and a compaction keeps it under the conditions of
  C4; C17 and C24 show how it is lost otherwise. When the files are then opened again, with the
  same setting of value compression, \<^verbatim>\<open>Open\<close> succeeds, leaves the files as they are,
  and the new database answers every get with the value that the old one stored; only a direct read of
  a record that ends with the last byte of its file reports \<open>kCorruption\<close>. Nothing else is
  asked of the old database than its invariant, whatever the executor has left to do, except that
  no file without an index file is filled to the last byte. The system calls succeed, the path is valid,
  and the options give the read cache a segment.
\<close>

theorem reopen_get:
  assumes "pedrolib_ok P" "io_good io" "db_ok P cap logs s" "db_recoverable logs s"
    and "opt_compress_value opts = opt_compress_value (db_options s)"
    and "path_valid (mm_path (fm_meta (db_fm s)))" "opt_cache_segments opts \<noteq> 0"
    and "\<forall>fid \<in> set (db_files s). not_full P cap logs (fm_fs (db_fm s)) (fm_meta (db_fm s)) fid"
  shows "\<exists>s1. db_Open P cap io opts (mm_path (fm_meta (db_fm s))) buf (fm_fs (db_fm s))
       = Some (kOk, Some s1, fm_fs (db_fm s))
     \<and> db_holds P cap (opt_compress_value opts) logs s1 (db_abs P logs s)
     \<and> (\<forall>key. \<exists>s2. db_Get P io use_read_cache key s1 = Some (case db_abs P logs s key of
          None \<Rightarrow> (kNotFound, None, s2)
        | Some val \<Rightarrow>
            if db_shadowed cap use_read_cache key s1 then (kCorruption, None, s2)
            else (kOk, Some val, s2)))"
proof -
  from db_reopen [OF assms, of buf] obtain s1 where s1:
    "db_Open P cap io opts (mm_path (fm_meta (db_fm s))) buf (fm_fs (db_fm s))
       = Some (kOk, Some s1, fm_fs (db_fm s))"
    "db_ok P cap logs s1" "db_current s1" "db_abs P logs s1 = db_abs P logs s"
    "db_holds P cap (opt_compress_value opts) logs s1 (db_abs P logs s)"
    by (auto simp: db_holds_def)
  with db_HandleGet_ok [OF assms(1) s1(2) assms(2) s1(3), of use_read_cache] show ?thesis
    unfolding db_Get_def by fastforce
qed

lemma reopen_get_witness:
  "\<exists>s s1 s2. demo_two s
     \<and> db_Open list_pedrolib 4096 io_fine (demo_options False) demo_path [] (fm_fs (db_fm s))
         = Some (kOk, Some s1, fm_fs (db_fm s))
     \<and> db_Get list_pedrolib io_fine True [1] s1 = Some (kOk, Some demo_big, s2)"
proof -
  obtain s where s: "demo_two s" using demo_two_ex by blast
  note d = demo_twoD [OF s]
  have c: "opt_compress_value (demo_options False) = opt_compress_value (db_options s)" using d(5) by simp
  from reopen_get [OF list_pedrolib_ok io_good_fine d(1,2) c, of "[]" True]
  obtain s1 where s1: "db_Open list_pedrolib 4096 io_fine (demo_options False) demo_path [] (fm_fs (db_fm s))
      = Some (kOk, Some s1, fm_fs (db_fm s))" "db_holds list_pedrolib 4096 False demo_logs s1 demo_map"
    and g: "\<forall>key. \<exists>s2. db_Get list_pedrolib io_fine True key s1 = Some (case demo_map key of
          None \<Rightarrow> (kNotFound, None, s2)
        | Some val \<Rightarrow> if db_shadowed 4096 True key s1 then (kCorruption, None, s2) else (kOk, Some val, s2))"
    using d(6,10) demo_not_full unfolding d(9) by auto
  have "\<not> db_shadowed 4096 True [1] s1"
    using s1(2) not_shadowed [where logs = demo_logs, OF _ demo_logs_room] unfolding db_holds_def by blast
  with g [rule_format, of "[1]"] s s1(1) show ?thesis by auto
qed

text \<open>
  C3: Compaction does not change what the database stores. When the database is not read-only, the
  queued files are older than the active file and not filled to the last byte, and there are file
  numbers left for their records, \<^verbatim>\<open>Compact\<close> ends with
  \<open>kOk\<close>, keeps the invariant and the map of the database, and the queued files are gone.
\<close>

theorem compact_keeps_map:
  assumes "pedrolib_ok P" "io_good io" "db_ok P cap logs s" "\<not> db_readonly s"
    and "\<And>fid. fid \<in> set (db_compact_tasks s) \<Longrightarrow> fid < db_active s"
    and "\<And>fid. fid \<in> set (db_compact_tasks s) \<Longrightarrow> log_size (logs fid) < cap"
    and "unat (db_active s) + (\<Sum>fid \<leftarrow> db_compact_tasks s. length (logs fid)) < 2 ^ 32 - 1"
  shows "\<exists>s' logs'. db_Compact P cap io s = Some (kOk, s') \<and> db_ok P cap logs' s'
     \<and> db_abs P logs' s' = db_abs P logs s \<and> db_active s \<le> db_active s'
     \<and> (\<forall>fid \<in> set (db_compact_tasks s). fid \<notin> set (db_files s'))"
  using db_Compact_ok [OF assms] unfolding compact_rel_def by blast

lemma compact_keeps_map_witness:
  "\<exists>s s' logs'. demo_two s \<and> db_Compact list_pedrolib 4096 io_fine (s\<lparr>db_compact_tasks := [1]\<rparr>) = Some (kOk, s')
     \<and> db_abs list_pedrolib logs' s' = demo_map \<and> 1 \<notin> set (db_files s')"
proof -
  obtain s where s: "demo_two s" using demo_two_ex by blast
  note d = demo_twoD [OF s]
  let ?s = "s\<lparr>db_compact_tasks := [1]\<rparr>"
  have m: "db_abs list_pedrolib demo_logs ?s = demo_map" "db_active ?s = 2" using d(6,7)
    by (simp_all add: db_abs_def [abs_def] db_value_def [abs_def] db_active_def cong: option.case_cong)
  have ok: "db_ok list_pedrolib 4096 demo_logs ?s" and rw: "\<not> db_readonly ?s" using d(1,4) by simp_all
  from compact_keeps_map [OF list_pedrolib_ok io_good_fine ok rw] demo_logs_room s m show ?thesis
    by (auto simp: rec_size_def)
qed

text \<open>
  C4: Compaction of one file keeps the database recoverable: if the index is what replaying the
  files yields before, it is so afterwards, the map is the same and the file is gone. The conditions
  are that the file is not the active one (C25), that it is not filled to its last byte (the iterator
  does not read a record that ends there), that it does not hold the deletion of a key that
  still has a record in an older file (C24), that the database is not read-only, and that
  there are file numbers left for the records of the file.
\<close>

theorem compact_file_recoverable:
  assumes "pedrolib_ok P" "db_ok P cap logs s" "io_good io" "\<not> db_readonly s" "db_recoverable logs s"
    and "fid \<in> set (db_files s)" "fid \<noteq> db_active s" "log_size (logs fid) < cap"
    and "unat (db_active s) + length (logs fid) < 2 ^ 32 - 1" "\<not> shields logs (db_files s) fid"
  shows "\<exists>s' logs'. db_compact_file P cap io fid s = Some s' \<and> db_ok P cap logs' s'
     \<and> db_recoverable logs' s' \<and> db_abs P logs' s' = db_abs P logs s \<and> fid \<notin> set (db_files s')"
  using db_compact_file_ok [OF assms(1-4,6-9)] assms(5,10) by blast

lemma compact_file_recoverable_witness:
  "\<exists>s s' logs'. demo_two s \<and> db_compact_file list_pedrolib 4096 io_fine 1 s = Some s'
     \<and> db_recoverable logs' s' \<and> db_abs list_pedrolib logs' s' = demo_map \<and> 1 \<notin> set (db_files s')"
proof -
  obtain s where s: "demo_two s" using demo_two_ex by blast
  note d = demo_twoD [OF s]
  have "\<not> shields demo_logs (db_files s) 1" by (simp add: shields_def)
  from compact_file_recoverable [OF list_pedrolib_ok d(1) io_good_fine d(4,2) _ _ demo_logs_room _ this] s d(6-8)
  show ?thesis by auto
qed

text \<open>
  C5: A put into a database that is not read-only, of a record that fits (its key is shorter than 256 bytes, and
  the record no larger than a file), appends it to the active file, or to a new file behind all
  others, moves the key of the index to the new record, or drops it when the value is empty, and
  keeps the invariant. It reports \<open>kNotFound\<close> exactly when a key without a value is deleted;
  the record is written even then. The map changes at the key only, and a database that can be
  recovered still can.
\<close>

theorem put_result:
  assumes "pedrolib_ok P" "db_ok P cap logs s" "io_good io" "\<not> db_readonly s" "db_fits P cap s key val"
    and "db_active s \<noteq> -1"
  shows "\<exists>s' logs' loc. db_Put P cap io sync key val s
       = Some (if val = [] \<and> db_abs P logs s key = None then kNotFound else kOk, s')
     \<and> appended cap logs (db_fm s) (db_entry P s key val) loc logs' (db_fm s')
     \<and> db_indices s' = (db_indices s)(key := if val = [] then None
           else Some \<lparr>dir_entry_size = rec_sizeof (db_entry P s key val), dir_loc = loc\<rparr>)
     \<and> db_ok P cap logs' s' \<and> db_current s'
     \<and> db_abs P logs' s' = (db_abs P logs s)(key := if val = [] then None else Some val)
     \<and> (db_recoverable logs s \<longrightarrow> db_recoverable logs' s')"
proof -
  from db_HandlePut_ok [OF assms, of sync] obtain s' logs' loc where s':
    "db_HandlePut P cap io sync key val s
       = Some (if val = [] \<and> db_abs P logs s key = None then kNotFound else kOk, s')"
    "appended cap logs (db_fm s) (db_entry P s key val) loc logs' (db_fm s')"
    "db_indices s' = replay_entry loc (db_entry P s key val) (db_indices s)"
    "db_ok P cap logs' s'" "db_current s'"
    "db_abs P logs' s' = (db_abs P logs s)(key := if val = [] then None else Some val)"
    "db_recoverable logs s \<longrightarrow> db_recoverable logs' s'" by blast
  then show ?thesis
    by (intro exI [of _ s'] exI [of _ logs'] exI [of _ loc]) (simp add: db_Put_def replay_entry_def)
qed

lemma put_result_witness:
  "\<exists>s s' logs'. demo_two s \<and> db_Put list_pedrolib 4096 io_fine True [1] [] s = Some (kOk, s')
     \<and> db_ok list_pedrolib 4096 logs' s' \<and> db_abs list_pedrolib logs' s' = demo_map([1] := None)"
proof -
  obtain s where s: "demo_two s" using demo_two_ex by blast
  note d = demo_twoD [OF s]
  have "db_fits list_pedrolib 4096 s [1] []" "db_active s \<noteq> -1"
    using d(5,7) by (simp_all add: db_fits_small db_small_def)
  from put_result [OF list_pedrolib_ok d(1) io_good_fine d(4) this, of True] s d(6) show ?thesis by auto
qed

text \<open>
  C6: As long as \<^verbatim>\<open>max_file_\<close> is the number of the active file, a get reports
  \<open>kNotFound\<close> when the map has no value for the key, and otherwise returns
  the value of the map, through the direct read or through the read cache. It reports
  \<open>kCorruption\<close> exactly for a direct read of a record that ends with the last byte of its
  file. It keeps the invariant and changes nothing but its caches. The condition holds after opening
  and after every put (C8, C5), but not between an append that rotates and the end of its put, nor
  after a compaction has opened a new file; a get may then cache a block of the active file (C26).
\<close>

theorem get_result:
  assumes "pedrolib_ok P" "db_ok P cap logs s" "io_good io" "db_current s"
  shows "\<exists>s'. db_Get P io use_read_cache key s
       = Some (case db_abs P logs s key of
                 None \<Rightarrow> (kNotFound, None, s')
               | Some val \<Rightarrow> if db_shadowed cap use_read_cache key s then (kCorruption, None, s')
                             else (kOk, Some val, s'))
     \<and> db_ok P cap logs s' \<and> db_reads s s'"
  unfolding db_Get_def by (rule db_HandleGet_ok [OF assms])

lemma get_result_witness:
  "\<exists>s s1 s2. demo_two s \<and> db_Get list_pedrolib io_fine True [1] s = Some (kOk, Some demo_big, s1)
     \<and> db_Get list_pedrolib io_fine True [3] s = Some (kNotFound, None, s2)"
proof -
  obtain s where s: "demo_two s" using demo_two_ex by blast
  note d = demo_twoD [OF s]
  have "\<not> db_shadowed 4096 True key s" for key by (rule not_shadowed [OF d(1) demo_logs_room])
  with get_result [OF list_pedrolib_ok d(1) io_good_fine d(3), of True "[1]"]
    get_result [OF list_pedrolib_ok d(1) io_good_fine d(3), of True "[3]"] s d(6) show ?thesis by auto
qed

text \<open>
  C7: The two guards of a put. A read-only database rejects every put and deletion, and a record
  that is larger than a file, with a size that 32 bits can express, is rejected. Both report
  \<open>kNotSupported\<close> and leave the database as it is.
\<close>

theorem put_rejected:
  assumes "db_readonly s \<or> cap < rec_size (db_entry P s key val) \<and> rec_size (db_entry P s key val) < 2 ^ 32"
  shows "db_Put P cap io sync key val s = Some (kNotSupported, s)"
  using assms db_HandlePut_readonly db_HandlePut_too_big unfolding db_Put_def by blast

lemma put_rejected_witness:
  "\<exists>s. demo_two s \<and> db_Put list_pedrolib 4096 io_fine False [1, 2] (demo_big @ demo_big) s = Some (kNotSupported, s)"
proof -
  obtain s where s: "demo_two s" using demo_two_ex by blast
  have "rec_size (db_entry list_pedrolib s [1, 2] (demo_big @ demo_big)) = 8016"
    using demo_twoD(5) [OF s] by (simp add: db_entry_def rec_size_def Let_def)
  then show ?thesis using put_rejected [of s 4096 list_pedrolib "[1, 2]" "demo_big @ demo_big"] s by auto
qed

section \<open>What the operations may answer\<close>

text \<open>
  C27: The results of a get, whatever the state, the files and the failures of the system calls: its
  status is one of four, there is a value exactly when it is \<open>kOk\<close>, and it is \<open>kNotFound\<close>
  exactly when the key is not indexed, never because of a failure. A get leaves everything alone but
  the cache of blocks, the cache of open files and the buffer of the thread (\<open>same_db\<close>).
\<close>

theorem get_results:
  assumes "db_Get P io use_read_cache key s = Some (st, v, s')"
  shows "st \<in> {kOk, kNotFound, kIOError, kCorruption} \<and> (v \<noteq> None \<longleftrightarrow> st = kOk)
     \<and> (st = kNotFound \<longleftrightarrow> db_indices s key = None) \<and> same_db s s'"
  using db_Get_result [OF assms] by blast

lemma get_results_witness:
  "\<exists>s s'. demo_two s \<and> db_Get list_pedrolib io_fine False [3] s = Some (kNotFound, None, s') \<and> same_db s s'"
proof -
  obtain s where s: "demo_two s" using demo_two_ex by blast
  note d = demo_twoD [OF s]
  have "db_indices s [3] = None" using d(2,8) by (simp add: db_recoverable_def replay_entry_def)
  then have g: "db_Get list_pedrolib io_fine False [3] s = Some (kNotFound, None, s)" by (simp add: db_Get_def db_HandleGet_def)
  with get_results [OF g] s show ?thesis by blast
qed

text \<open>
  C28: The results of a put or a deletion, whatever the state, the files and the failures of the
  system calls: its status is one of five; \<open>kNotSupported\<close> changes nothing, any other failure
  nothing but the file manager; \<open>kNotFound\<close> means a deletion of a key that was not indexed, and
  after \<open>kOk\<close> the key is indexed exactly when it was given a value. No other key of the index
  is ever touched.
\<close>

theorem put_results:
  assumes "db_Put P cap io sync key val s = Some (st, s')"
  shows "st \<in> {kOk, kNotFound, kNotSupported, kIOError, kCorruption}
     \<and> (st = kNotSupported \<longrightarrow> s' = s) \<and> (st \<in> {kIOError, kCorruption} \<longrightarrow> s' = s\<lparr>db_fm := db_fm s'\<rparr>)
     \<and> (st = kNotFound \<longrightarrow> val = [] \<and> db_indices s key = None) \<and> (st = kOk \<longrightarrow> (db_indices s' key = None \<longleftrightarrow> val = []))
     \<and> (\<forall>key'. key' \<noteq> key \<longrightarrow> db_indices s' key' = db_indices s key')"
  using db_Put_result [OF assms] by auto

lemma put_results_witness:
  "\<exists>s s'. demo_two s \<and> db_Put list_pedrolib 4096 io_fine False [3] [9] s = Some (kOk, s')
     \<and> db_indices s' [3] \<noteq> None \<and> db_indices s' [1] = db_indices s [1]"
proof -
  obtain s where s: "demo_two s" using demo_two_ex by blast
  from demo_put [OF s, of "[3]" "[9]" False] obtain s' where p: "db_Put list_pedrolib 4096 io_fine False [3] [9] s = Some (kOk, s')"
    by auto
  from put_results [OF p] s p show ?thesis by auto
qed

section \<open>Opening and recovery\<close>

text \<open>
  C8: Opening the files of a database rebuilds its index: \<^verbatim>\<open>Open\<close> succeeds, does not
  change the files, and the index is the replay of the records of all files, in the order of the
  files and of the records in them. The newest file is the active one. The files are as the database
  writes them: each data file holds whole records with matching checksums and zeros behind them, an
  index file lists the records of its data file, the active file has none, and no data file
  without an index file is filled to its last byte (recovery would not read a record that ends there).
  Path and options are as in C2.
\<close>

theorem open_replays:
  assumes "pedrolib_ok P" "dir_good P cap logs fs m" "io_good io" "opt_cache_segments opts \<noteq> 0"
  shows "\<exists>s. db_Open P cap io opts (mm_path m) buf fs = Some (kOk, Some s, fs)
     \<and> db_indices s = replay logs (mm_files m) (\<lambda>_. None) \<and> db_active s = last (mm_files m)
     \<and> db_ok P cap logs s \<and> db_current s"
proof -
  from db_Open_existing [OF assms, of buf] obtain s where s:
    "db_Open P cap io opts (mm_path m) buf fs = Some (kOk, Some s, fs)" "db_ok P cap logs s"
    "db_recoverable logs s" "db_current s" "fm_meta (db_fm s) = m" by blast
  have "mm_files m = butlast (mm_files m) @ [db_active s]"
    using active_files(1) [OF db_okD(1) [OF s(2)]] s(5) by (simp add: db_active_def)
  then have "db_active s = last (mm_files m)" by (metis last_snoc)
  then show ?thesis using s by (auto simp: db_recoverable_def db_files_def)
qed

lemma open_replays_witness:
  "\<exists>s s'. demo_two s
     \<and> db_Open list_pedrolib 4096 io_fine (demo_options False) demo_path [] (fm_fs (db_fm s))
         = Some (kOk, Some s', fm_fs (db_fm s))
     \<and> db_indices s' = replay demo_logs [1, 2] (\<lambda>_. None) \<and> db_active s' = 2"
proof -
  obtain s where s: "demo_two s" using demo_two_ex by blast
  note d = demo_twoD [OF s]
  have "path_valid (mm_path (fm_meta (db_fm s)))" using d(9) by simp
  from db_ok_dir_good [OF d(1) this] demo_not_full
  have "dir_good list_pedrolib 4096 demo_logs (fm_fs (db_fm s)) (fm_meta (db_fm s))" by blast
  from open_replays [OF list_pedrolib_ok this io_good_fine, of "demo_options False" "[]"] s d(8,9)
  show ?thesis by (auto simp: db_files_def)
qed

text \<open>
  C9: The recovery of one file yields the same index from its index file and from its data file:
  whichever is read, the records of the file are replayed onto the index. The data file is read
  when there is no index file, and must then not be filled to the last byte.
\<close>

theorem recover_file_replays:
  assumes "pedrolib_ok P" "fm_ok P cap logs (db_fm s)" "io_good io" "fid \<in> set (db_files s)"
    and "fs_links (fm_fs (db_fm s)) (mm_GetIndexFilePath P (fm_meta (db_fm s)) fid) = None \<longrightarrow> log_size (logs fid) < cap"
    and "\<And>k d. db_indices s k = Some d \<Longrightarrow> dir_loc d < Location fid 0"
  shows "\<exists>s'. db_recover_file P io fid s = Some (kOk, s')
     \<and> db_indices s' = replay_log fid 0 (logs fid) (db_indices s)
     \<and> fm_ok P cap logs (db_fm s') \<and> fm_fs (db_fm s') = fm_fs (db_fm s)"
proof -
  have "not_full P cap logs (fm_fs (db_fm s)) (fm_meta (db_fm s)) fid"
    "index_before (Location fid 0) (db_indices s)"
    using assms(5,6) by (auto simp: not_full_def index_before_def)
  from db_recover_file_ok [OF assms(1-4) this] show ?thesis by (force simp: db_recovered_def)
qed

lemma recover_file_replays_witness:
  "\<exists>s s'. demo_two s \<and> db_recover_file list_pedrolib io_fine 1 (s\<lparr>db_indices := \<lambda>_. None\<rparr>) = Some (kOk, s')
     \<and> db_indices s' = [[1] \<mapsto> \<lparr>dir_entry_size = 4015, dir_loc = Location 1 0\<rparr>]"
proof -
  obtain s where s: "demo_two s" using demo_two_ex by blast
  note d = demo_twoD [OF s]
  have ok: "fm_ok list_pedrolib 4096 demo_logs (db_fm (s\<lparr>db_indices := \<lambda>_. None\<rparr>))"
    using db_okD(1) [OF d(1)] by simp
  from recover_file_replays [OF list_pedrolib_ok ok io_good_fine, of 1] demo_logs_room d(8) s
  show ?thesis by (auto simp: db_files_def replay_entry_def rec_sizeof_def rec_size_def fun_upd_def)
qed

text \<open>
  C22: A process that is killed in the middle of a put. The seven stores of \<^verbatim>\<open>Pack\<close> end
  after \<open>i\<close> of them, one at least, and after \<open>j\<close> bytes of the key or the value; \<open>t\<close> is the record
  that the active file then seems to hold, with zeros for what was not stored. If no file is filled to
  its last byte, nor would be by this put, if the key is shorter than 256 bytes, and if the index
  was what the files replay to and the database neither read-only nor between a rotation and the
  end of its put, then the files can be opened again, with a path and options as in C2,
  and every key keeps its value except that of \<open>t\<close>, which is the key of the put
  only when the key was stored in full. Recovery does not look at the checksum: the key of \<open>t\<close>
  is deleted if the put is a deletion, and reads as \<open>kCorruption\<close> if the checksum does not
  match, whatever was stored under it before.
\<close>

theorem torn_put:
  assumes "pedrolib_ok P" "codec_zeros P" "1 \<le> i" "io_good io" "db_holds P cap (opt_compress_value opts) logs s m"
    and "path_valid (mm_path (fm_meta (db_fm s)))" "opt_cache_segments opts \<noteq> 0"
    and "e = db_entry P s key val" "length key < 256" "rec_size e < cap" "db_active s \<noteq> -1"
    and "\<forall>fid \<in> set (db_files s). log_size (logs fid) < cap" "log_size (logs (db_active s)) + rec_size e \<noteq> cap"
    and "t = torn_entry i j e"
  shows "\<exists>fs s1. db_Put_torn P cap io i j key val s = Some fs
     \<and> db_Open P cap io opts (mm_path (fm_meta (db_fm s))) buf fs = Some (kOk, Some s1, fs)
     \<and> (\<forall>k. \<exists>s2. db_Get P io use_read_cache k s1 = Some (
         if k = re_key t then
           if val = [] then (kNotFound, None, s2)
           else if rec_validate P t then (kOk, Some (db_value P s t), s2) else (kCorruption, None, s2)
         else case m k of None \<Rightarrow> (kNotFound, None, s2) | Some v \<Rightarrow> (kOk, Some v, s2)))"
  using db_torn_get [OF assms(1-13), of j buf use_read_cache] unfolding assms(14) .

lemma torn_put_witness:
  "\<exists>s fs s1 s2 s3. demo_two s \<and> db_Put_torn list_pedrolib 4096 io_fine 6 0 [2] [6] s = Some fs
     \<and> db_Open list_pedrolib 4096 io_fine (demo_options False) demo_path [] fs = Some (kOk, Some s1, fs)
     \<and> db_Get list_pedrolib io_fine True [1] s1 = Some (kOk, Some demo_big, s2)
     \<and> db_Get list_pedrolib io_fine True [2] s1 = Some (kCorruption, None, s3)"
proof -
  obtain s where s: "demo_two s" using demo_two_ex by blast
  note d = demo_twoD [OF s]
  have e: "db_entry list_pedrolib s [2] [6] = demo_entry [2] [6]" using demo_entry [of s] d(5) by simp
  let ?t = "torn_entry 6 0 (demo_entry [2] [6])"
  have h: "db_holds list_pedrolib 4096 (opt_compress_value (demo_options False)) demo_logs s demo_map"
    and p: "path_valid (mm_path (fm_meta (db_fm s)))" and seg: "opt_cache_segments (demo_options False) \<noteq> 0"
    and len: "length [2 :: u8] < 256" "rec_size (demo_entry [2] [6]) < 4096" and a: "db_active s \<noteq> -1"
    and room: "\<forall>fid \<in> set (db_files s). log_size (demo_logs fid) < 4096"
    and tight: "log_size (demo_logs (db_active s)) + rec_size (demo_entry [2] [6]) \<noteq> 4096"
    using d(7,9,10) demo_logs_room by (simp_all add: rec_size_def)
  have t: "re_key ?t = [2]" "\<not> rec_validate list_pedrolib ?t"
    by (simp_all add: torn_entry_def zero_fill_def rec_validate_def rec_checksum_def hash32_def list_pedrolib_def be_dec_def)
  have v: "[6 :: u8] \<noteq> []" by simp
  from torn_put [OF list_pedrolib_ok codec_zeros_list _ io_good_fine h p seg e [symmetric] len a room tight refl, of 6 0 "[]" True]
  obtain fs s1 where f: "db_Put_torn list_pedrolib 4096 io_fine 6 0 [2] [6] s = Some fs"
    "db_Open list_pedrolib 4096 io_fine (demo_options False) demo_path [] fs = Some (kOk, Some s1, fs)"
    and g: "\<forall>k. \<exists>s2. db_Get list_pedrolib io_fine True k s1 = Some (
         if k = [2] then (kCorruption, None, s2)
         else case demo_map k of None \<Rightarrow> (kNotFound, None, s2) | Some v \<Rightarrow> (kOk, Some v, s2))"
    unfolding t(1) if_not_P [OF t(2)] d(9) unfolding if_not_P [OF v] by auto
  from g [rule_format, of "[1]"] g [rule_format, of "[2]"] s f show ?thesis by auto
qed

text \<open>
  C23: A process that is killed while the executor writes the index file of a retired file loses
  records that were acknowledged long before. \<^verbatim>\<open>CreateIndexFile\<close> makes the file at its
  full size, filled with zeros, and then copies the index into it; \<open>j\<close> bytes have been copied,
  the entries of the records \<open>es\<close>. Recovery takes the index file for complete: \<^verbatim>\<open>Open\<close>
  reports \<open>kOk\<close>, but the records of the file behind \<open>es\<close> are not replayed, although the data file
  still holds them, and keys that are stored nowhere else are not found any more. A loss of power can
  leave the same files, because \<^verbatim>\<open>CreateIndexFile\<close> never syncs the index file.
\<close>

theorem torn_index:
  assumes "pedrolib_ok P" "io_good io" "db_ok P cap logs s" "db_recoverable logs s"
    and "path_valid (mm_path (fm_meta (db_fm s)))" "opt_cache_segments opts \<noteq> 0"
    and "TCreateIndexFile fid log \<in> set (fm_pending (db_fm s))" "ab_bytes P log \<noteq> []"
    and "fs_links (fm_fs (db_fm s)) (mm_GetIndexFilePath P (fm_meta (db_fm s)) fid) = None"
    and "j = length (idx_log_bytes P (log_index 0 es))" "logs fid = es @ es'"
    and "\<forall>x \<in> set (db_files s). log_size (logs x) < cap" "fid \<in> set (db_files s)"
  shows "\<exists>fs s1. fm_CreateIndexFile_torn P io j fid log (db_fm s) = Some fs
     \<and> db_Open P cap io opts (mm_path (fm_meta (db_fm s))) buf fs = Some (kOk, Some s1, fs)
     \<and> db_indices s = replay logs (db_files s) (\<lambda>_. None)
     \<and> db_indices s1 = replay (logs(fid := es)) (db_files s) (\<lambda>_. None)
     \<and> (\<forall>key. replay (logs(fid := es)) (db_files s) (\<lambda>_. None) key = None
          \<longrightarrow> db_Get P io use_read_cache key s1 = Some (kNotFound, None, s1))"
proof -
  from torn_index_open [OF assms(1-3,5-13), of buf] obtain fs s1 where s1:
    "fm_CreateIndexFile_torn P io j fid log (db_fm s) = Some fs"
    "db_Open P cap io opts (mm_path (fm_meta (db_fm s))) buf fs = Some (kOk, Some s1, fs)"
    "db_indices s1 = replay (logs(fid := es)) (db_files s) (\<lambda>_. None)" by blast
  have "db_Get P io use_read_cache key s1 = Some (kNotFound, None, s1)" if "db_indices s1 key = None" for key
    using that by (simp add: db_Get_def db_HandleGet_def)
  with s1 assms(4) show ?thesis unfolding db_recoverable_def by metis
qed

lemma torn_index_witness:
  "\<exists>s s0 log fs s1 s2. demo_two s \<and> db_Get list_pedrolib io_fine False [1] s = Some (kOk, Some demo_big, s2)
     \<and> s0 = s\<lparr>db_fm := (db_fm s)\<lparr>fm_fs := fs_remove (mm_GetIndexFilePath list_pedrolib (fm_meta (db_fm s)) 1) (fm_fs (db_fm s)),
            fm_pending := [TCreateIndexFile 1 log]\<rparr>\<rparr>
     \<and> fm_CreateIndexFile_torn list_pedrolib io_fine 0 1 log (db_fm s0) = Some fs
     \<and> db_Open list_pedrolib 4096 io_fine (demo_options False) demo_path [] fs = Some (kOk, Some s1, fs)
     \<and> db_Get list_pedrolib io_fine False [1] s1 = Some (kNotFound, None, s1)"
proof -
  obtain s where s: "demo_two s" using demo_two_ex by blast
  note d = demo_twoD [OF s]
  let ?log = "idx_log_bytes list_pedrolib (log_index 0 (demo_logs 1))"
  let ?t = "TCreateIndexFile 1 ?log" and ?p = "mm_GetIndexFilePath list_pedrolib (fm_meta (db_fm s)) 1"
  let ?s0 = "s\<lparr>db_fm := (db_fm s)\<lparr>fm_fs := fs_remove ?p (fm_fs (db_fm s)), fm_pending := [?t]\<rparr>\<rparr>"
  have A: "codec_ok list_pedrolib" using list_pedrolib_ok by simp
  have b: "ab_bytes list_pedrolib b = b" for b by (simp add: list_pedrolib_def)
  have len: "length ?log = 11" using A by (simp add: idx_log_bytes_def)
  have "task_ok list_pedrolib 4096 demo_logs 2 ?t" using len by (simp add: task_ok_def b)
  then have ts: "pending_ok list_pedrolib 4096 demo_logs (db_active s) [?t]" unfolding d(7) by simp
  note ok = db_ok_unindex [OF list_pedrolib_ok d(1) ts, of 1]
  have files: "db_files ?s0 = [1, 2]" and path: "mm_path (fm_meta (db_fm ?s0)) = demo_path"
    using d(8,9) by (simp_all add: db_files_def)
  have rec: "db_recoverable demo_logs ?s0" using d(2) by (simp add: db_recoverable_def db_files_def)
  have pre: "path_valid (mm_path (fm_meta (db_fm ?s0)))" "opt_cache_segments (demo_options False) \<noteq> 0"
    "?t \<in> set (fm_pending (db_fm ?s0))" "ab_bytes list_pedrolib ?log \<noteq> []"
    "fs_links (fm_fs (db_fm ?s0)) (mm_GetIndexFilePath list_pedrolib (fm_meta (db_fm ?s0)) 1) = None"
    "0 = length (idx_log_bytes list_pedrolib (log_index 0 []))" "demo_logs 1 = [] @ demo_logs 1"
    "\<forall>x \<in> set (db_files ?s0). log_size (demo_logs x) < 4096" "1 \<in> set (db_files ?s0)"
    using len path files demo_logs_room by (auto simp: b fs_remove_def)
  from torn_index [OF list_pedrolib_ok io_good_fine ok rec pre, of "[]" False, unfolded path files] obtain fs s1 where
    t: "fm_CreateIndexFile_torn list_pedrolib io_fine 0 1 ?log (db_fm ?s0) = Some fs"
      "db_Open list_pedrolib 4096 io_fine (demo_options False) demo_path [] fs = Some (kOk, Some s1, fs)"
    and g: "\<forall>key. replay (demo_logs(1 := [])) [1, 2] (\<lambda>_. None) key = None
      \<longrightarrow> db_Get list_pedrolib io_fine False key s1 = Some (kNotFound, None, s1)" by blast
  have "replay (demo_logs(1 := [])) [1, 2] (\<lambda>_. None) [1] = None" by (simp add: replay_entry_def)
  with g have lost: "db_Get list_pedrolib io_fine False [1] s1 = Some (kNotFound, None, s1)" by blast
  have sh: "\<not> db_shadowed 4096 False [1] s"
    by (rule not_shadowed [OF d(1)]) (use demo_logs_room in simp)
  obtain s2 where "db_Get list_pedrolib io_fine False [1] s = Some (kOk, Some demo_big, s2)"
    using db_HandleGet_ok [OF list_pedrolib_ok d(1) io_good_fine d(3), of False "[1]"] sh d(6) by (auto simp: db_Get_def)
  with s t lost show ?thesis by blast
qed

section \<open>The files\<close>

text \<open>
  C10: An append of a record that its header can express (type set or deletion, a key shorter than 256 bytes)
  and that is no larger than a file succeeds, as long as file numbers are left. The record is written behind
  the last one of the active file if there is room, and otherwise at the start of a new file with
  the next number; the location that is returned is where it is. No other record changes. For
  a longer key the file holds another record (C30).
\<close>

theorem append_ok:
  assumes "pedrolib_ok P" "fm_ok P cap logs s" "rec_wf e" "io_good io" "rec_size e \<le> cap"
    and "fm_active_id s \<noteq> -1"
  shows "\<exists>loc s' logs'. fm_Append P cap io e s = Some (kOk, loc, s') \<and> fm_ok P cap logs' s'
     \<and> log_at (logs' (loc_id loc)) (unat (loc_offset loc)) = Some e
     \<and> (if log_size (logs (fm_active_id s)) + rec_size e \<le> cap
        then loc = Location (fm_active_id s) (of_nat (log_size (logs (fm_active_id s))))
          \<and> logs' = logs(fm_active_id s := logs (fm_active_id s) @ [e])
        else loc = Location (fm_active_id s + 1) 0 \<and> logs' = logs(fm_active_id s + 1 := [e]))"
proof -
  from fm_Append_ok [OF assms] obtain loc s' logs' where a:
    "fm_Append P cap io e s = Some (kOk, loc, s')" "fm_ok P cap logs' s'" "appended cap logs s e loc logs' s'"
    by blast
  have "log_size (logs (fm_active_id s)) < 2 ^ 32"
    using appended_log_bound(1,2) [OF assms(2) active_files(4) [OF assms(2)]] by simp
  then have "log_at (logs' (loc_id loc)) (unat (loc_offset loc)) = Some e"
    using a(3) log_at_last [of "logs (fm_active_id s)" e] by (auto simp: appended_def Let_def split: if_splits)
  then show ?thesis using a unfolding appended_def Let_def
    by (intro exI [of _ loc] exI [of _ s'] exI [of _ logs']) (auto split: if_splits)
qed

lemma append_ok_witness:
  "\<exists>s s' logs'. demo_two s
     \<and> fm_Append list_pedrolib 4096 io_fine (demo_entry [3] demo_big) (db_fm s) = Some (kOk, Location 3 0, s')
     \<and> logs' = demo_logs(3 := [demo_entry [3] demo_big]) \<and> fm_ok list_pedrolib 4096 logs' s'"
proof -
  obtain s where s: "demo_two s" using demo_two_ex by blast
  note d = demo_twoD [OF s]
  have e: "rec_wf (demo_entry [3] demo_big)" "rec_size (demo_entry [3] demo_big) \<le> 4096"
    by (simp_all add: rec_wf_def rec_size_def)
  from append_ok [OF list_pedrolib_ok db_okD(1) [OF d(1)] e(1) io_good_fine e(2)] d(7) s
  show ?thesis by (auto simp: db_active_def rec_size_def)
qed

section \<open>Several threads\<close>

text \<open>
  C11: Every interleaving of puts, deletions and compactions of any number of threads
  keeps the invariant of the files, the index and the cache, and the index never leads to a value
  that was not put: what it stores for a key was issued by a client for this key, or was already
  in the files. Any number of compactions, one at a time, run up to the removal of their file; each
  begins on a retired file that is not filled to its last byte, when no other thread holds a
  record read from the file or has appended one to it without having updated the index (without this, C19).
  Other threads may meanwhile move the records of further files, but do not remove them. The keys
  are shorter than 256 bytes, the values, also when compressed, shorter than \<open>2 ^ 31\<close>, the
  system calls succeed, an append is one step (C21), and no step uses the last file number.
\<close>

theorem concurrent_values:
  assumes "pedrolib_ok P" "io_good io" "db_ok P cap logs (cc_db c)" "\<And>t. cc_pc c t = Idle"
    and "\<And>key val. client key val \<Longrightarrow> length key < 256 \<and> length val < 2 ^ 31 \<and> length (snappy_compress P val) < 2 ^ 31"
    and "conc_run P cap io client (None, c) ws (x, c')"
  shows "\<exists>logs'. db_ok P cap logs' (cc_db c')
     \<and> (\<forall>key val. db_abs P logs' (cc_db c') key = Some val \<longrightarrow> client key val
         \<or> (\<exists>fid \<in> set (db_files (cc_db c)). \<exists>e \<in> set (logs fid).
              re_type e = kSet \<and> re_key e = key \<and> db_value P (cc_db c) e = val))"
proof -
  let ?A = "\<lambda>key val. client key val \<or> (\<exists>fid \<in> set (db_files (cc_db c)). \<exists>e \<in> set (logs fid).
     re_type e = kSet \<and> re_key e = key \<and> db_value P (cc_db c) e = val)"
  have start: "run_inv P cap ?A logs (None, c)"
    using assms(3,4) by (auto simp: run_inv_def conc_inv_def records_from_def pc_ok_def)
  have "client_small P ?A client" using assms(5) by blast
  from conc_run_writes [OF assms(1,2) this start assms(6)]
  obtain logs' where "conc_inv P cap ?A logs' c'" by (auto simp: run_inv_def)
  then show ?thesis using conc_inv_abs [of P cap ?A logs' c'] unfolding conc_inv_def by blast
qed

lemma concurrent_values_witness:
  "\<exists>s c' logs' d val. demo_two s
     \<and> conc_steps list_pedrolib 4096 io_fine (\<lambda>key val. key = [1] \<and> val = [9]) \<lparr>cc_db = s, cc_pc = \<lambda>_. Idle\<rparr> c'
     \<and> db_indices (cc_db c') [1] = Some d \<and> dir_entry_size d = 16
     \<and> db_abs list_pedrolib logs' (cc_db c') [1] = Some val \<and> (val = [9] \<or> val = demo_big)"
proof -
  obtain s where s: "demo_two s" using demo_two_ex by blast
  note d = demo_twoD [OF s]
  let ?c = "\<lparr>cc_db = s, cc_pc = \<lambda>_. Idle\<rparr> :: bytes conc" and ?client = "\<lambda>key val. key = [1] \<and> val = [9]"
  let ?e = "db_entry list_pedrolib s [1] [9]"
  have f: "db_fits list_pedrolib 4096 s [1] [9]" using d(5) by (simp add: db_fits_small db_small_def)
  have c: "db_ok list_pedrolib 4096 demo_logs (cc_db ?c)" "\<And>t. cc_pc ?c t = Idle" using d(1) by simp_all
  from conc_put_race [OF list_pedrolib_ok io_good_fine c(1) _ c(2) c(2), of 0 1 ?client "[1]" "[9]" "[9]"] f d(4,7)
  obtain c' loc loc2 where steps: "conc_steps list_pedrolib 4096 io_fine ?client ?c c'"
    and i: "db_indices (cc_db c') = replay_entry loc ?e (replay_entry loc2 ?e (db_indices s))" by auto
  have "?e = demo_entry [1] [9]" using d(5) by (intro demo_entry) simp
  then have dir: "db_indices (cc_db c') [1] = Some \<lparr>dir_entry_size = 16, dir_loc = loc\<rparr>"
    using i by (simp add: replay_entry_def rec_sizeof_def)
  from conc_steps_run [OF steps] obtain ws where
    run: "conc_run list_pedrolib 4096 io_fine ?client (None, ?c) ws (None, c')" by blast
  from concurrent_values [OF list_pedrolib_ok io_good_fine c _ run]
  obtain logs' where l: "db_ok list_pedrolib 4096 logs' (cc_db c')"
    and v: "\<And>val. db_abs list_pedrolib logs' (cc_db c') [1] = Some val \<Longrightarrow> val = [9] \<or> val = demo_big"
    using d(5,8) by (auto simp: list_pedrolib_def db_value_def)
  from dir db_abs_None [OF l, where k = "[1]"] obtain val where "db_abs list_pedrolib logs' (cc_db c') [1] = Some val" by auto
  with s steps dir v show ?thesis by fastforce
qed

text \<open>
  C12: Puts, deletions and compactions are atomic. In the runs of C11, each of them
  writes to the map in one kind of step only: a put or deletion in its update of the index, its own
  value at its own key; a compaction when it updates the index for a record that it has moved, the value
  of the record, and only when the index leads to an older record of the key. All other steps, the
  removal of the compacted file among them, write nothing. The map at the end of the run is
  the one these writes leave when they are made one after another in the order of the steps. As in C11,
  a compaction begins on a retired file not filled to its last byte that no other thread is at
  work on, and the keys of the puts are shorter than 256 bytes, their values shorter than
  \<open>2 ^ 31\<close>.
\<close>

theorem operations_atomic:
  assumes "pedrolib_ok P" "io_good io" "client_small P A client" "conc_inv P cap A logs c"
    and "conc_run P cap io client (None, c) ws (x, c')"
  shows "\<exists>logs'. conc_inv P cap A logs' c' \<and> db_abs P logs' (cc_db c') = map_writes ws (db_abs P logs (cc_db c))"
proof -
  have "run_inv P cap A logs (None, c)" using assms(4) by (simp add: run_inv_def)
  from conc_run_writes [OF assms(1-3) this assms(5)] show ?thesis by (auto simp: run_inv_def)
qed

text \<open>A put of key 3 in its three steps.\<close>

lemma operations_atomic_witness:
  "\<exists>s c logs. demo_two s
     \<and> conc_run list_pedrolib 4096 io_fine (\<lambda>key val. key = [3] \<and> val = [9])
         (None, \<lparr>cc_db = s, cc_pc = \<lambda>_. Idle\<rparr>) [([3], Some [9])] (None, c)
     \<and> conc_inv list_pedrolib 4096 (\<lambda>_ _. True) logs c \<and> db_abs list_pedrolib logs (cc_db c) = demo_map([3] \<mapsto> [9])"
proof -
  obtain s where s: "demo_two s" using demo_two_ex by blast
  note d = demo_twoD [OF s]
  let ?client = "\<lambda>key val. key = [3 :: u8] \<and> val = [9 :: u8]" and ?A = "\<lambda>_ _. True"
  let ?step = "conc_step list_pedrolib 4096 io_fine ?client" and ?e = "db_entry list_pedrolib s [3] [9]"
  let ?c0 = "\<lparr>cc_db = s, cc_pc = \<lambda>_. Idle\<rparr> :: bytes conc"
  have small: "client_small list_pedrolib ?A ?client" by (simp add: list_pedrolib_def)
  note atomic = operations_atomic [OF list_pedrolib_ok io_good_fine small]
  have fits: "db_fits list_pedrolib 4096 s [3] [9]" using d(5) by (simp add: db_fits_small db_small_def)
  note e = db_entry_wf [OF fits _ list_pedrolib_ok]
  have more: "db_active s \<noteq> -1" using d(7) by simp
  obtain loc fm where a: "fm_Append list_pedrolib 4096 io_fine ?e (db_fm s) = Some (kOk, loc, fm)"
    by (rule conc_append_ex [OF list_pedrolib_ok io_good_fine d(1) e(1-3) more]) (use that in simp_all)
  obtain st s' where p: "db_put_index [3] [9] ?e loc (s\<lparr>db_fm := fm\<rparr>) = (st, s')" by fastforce
  let ?c1 = "cc_goto 0 (PutAppend [3] [9]) s ?c0"
  let ?c2 = "cc_goto 0 (PutIndex [3] [9] ?e loc) (s\<lparr>db_fm := fm\<rparr>) ?c1"
  let ?c3 = "cc_goto 0 Idle s' ?c2"
  have s1: "?step ?c0 ?c1" using put_begin [of ?c0 0 ?client "[3]" "[9]" list_pedrolib 4096 io_fine] e(6) d(4) by simp
  have s2: "?step ?c1 ?c2" using put_append [of ?c1 0 "[3]" "[9]" ?e list_pedrolib 4096 io_fine loc fm ?client] a more by simp
  have s3: "?step ?c2 ?c3" using put_index [of ?c2 0 "[3]" "[9]" ?e loc st s' list_pedrolib 4096 io_fine ?client] p by simp
  have inv: "conc_inv list_pedrolib 4096 ?A demo_logs ?c0" using d(1) by (simp add: conc_inv_def records_from_def pc_ok_def)
  note e1 = any_thread [OF s1, of 0] and e2 = any_thread [OF s2, of 0] and e3 = any_thread [OF s3, of 0]
  have "conc_run list_pedrolib 4096 io_fine ?client (None, ?c0) [([3], Some [9])] (None, ?c3)"
    using run_event [OF run_event [OF run_event [OF run_start e1] e2] e3] by (simp add: conc_write_def)
  with atomic [OF inv this] show ?thesis using s d(6) by fastforce
qed

text \<open>
  C13: A get is atomic as well, as long as no file is removed (C20): when \<^verbatim>\<open>max_file_\<close>
  is the number of the active file at the lookup, it answers with the value that its key had then,
  whatever the other threads put, delete or move between the lookup and the read. It reports
  \<open>kCorruption\<close> instead exactly for a direct read of a record that ends with the last byte
  of its file. The puts have keys shorter than 256 bytes and values shorter than \<open>2 ^ 31\<close>.
\<close>

theorem get_atomic:
  assumes "pedrolib_ok P" "io_good io" "client_small P A client" "conc_inv P cap A logs c" "db_current (cc_db c)"
    and "db_get_lookup key (cc_db c) = Some x" "conc_steps P cap io client c c'"
  shows "\<exists>val s'. db_abs P logs (cc_db c) key = Some val \<and> db_reads (cc_db c') s'
     \<and> db_get_rest P io use_read_cache x (cc_db c')
       = Some (if db_shadowed cap use_read_cache key (cc_db c) then (kCorruption, None, s') else (kOk, Some val, s'))"
  using db_get_rest_ok [OF assms] by blast

lemma get_atomic_witness:
  "\<exists>s x c' logs' s'. demo_two s \<and> db_get_lookup [1] s = Some x
     \<and> conc_steps list_pedrolib 4096 io_fine (\<lambda>key val. key = [1] \<and> val = [9]) \<lparr>cc_db = s, cc_pc = \<lambda>_. Idle\<rparr> c'
     \<and> db_abs list_pedrolib logs' (cc_db c') [1] = Some [9]
     \<and> db_get_rest list_pedrolib io_fine True x (cc_db c') = Some (kOk, Some demo_big, s')"
proof -
  obtain s where s: "demo_two s" using demo_two_ex by blast
  note d = demo_twoD [OF s]
  let ?c = "\<lparr>cc_db = s, cc_pc = \<lambda>_. Idle\<rparr> :: bytes conc" and ?client = "\<lambda>key val. key = [1] \<and> val = [9 :: u8]"
  let ?A = "\<lambda>_ _. True" and ?e = "db_entry list_pedrolib s [1] [9]"
  have f: "db_fits list_pedrolib 4096 s [1] [9]" using d(5) by (simp add: db_fits_small db_small_def)
  have c: "db_ok list_pedrolib 4096 demo_logs (cc_db ?c)" "\<And>t. cc_pc ?c t = Idle" using d(1) by simp_all
  from conc_put_race [OF list_pedrolib_ok io_good_fine c(1) _ c(2) c(2), of 0 1 ?client "[1]" "[9]" "[9]"] f d(4,7)
  obtain c' logs' loc loc2 where steps: "conc_steps list_pedrolib 4096 io_fine ?client ?c c'"
    and r: "record_at logs' (cc_db c') loc ?e" "db_options (cc_db c') = db_options s"
      "db_indices (cc_db c') = replay_entry loc ?e (replay_entry loc2 ?e (db_indices s))" by auto
  have "db_value list_pedrolib (cc_db c') ?e = [9]" using db_value_entry [OF list_pedrolib_ok r(2)] by simp
  moreover have "db_indices (cc_db c') [1] = Some \<lparr>dir_entry_size = rec_sizeof ?e, dir_loc = loc\<rparr>"
    using r(3) by (simp add: replay_entry_def)
  ultimately have new: "db_abs list_pedrolib logs' (cc_db c') [1] = Some [9]" using db_abs_at [OF r(1)] by simp
  have inv: "conc_inv list_pedrolib 4096 ?A demo_logs ?c" using d(1) by (simp add: conc_inv_def records_from_def pc_ok_def)
  have abs: "db_abs list_pedrolib demo_logs s [1] = Some demo_big" using d(6) by simp
  then obtain x where x: "db_get_lookup [1] s = Some x"
    by (auto simp: db_abs_def db_get_lookup_def split: option.splits)
  have nsh: "\<not> db_shadowed 4096 True [1] s" by (rule not_shadowed [OF d(1) demo_logs_room])
  from get_atomic [OF list_pedrolib_ok io_good_fine _ inv _ _ steps, of "[1]" x True] x abs nsh d(3)
  obtain s' where "db_get_rest list_pedrolib io_fine True x (cc_db c') = Some (kOk, Some demo_big, s')"
    by (auto simp: list_pedrolib_def)
  then show ?thesis using s x steps new by blast
qed






text \<open>
  C16: A lost update. When a compaction has read the record of a key and found it current, and a
  put of the key then completes, the compaction appends the old record behind the new one and
  moves the index to it: the put, which has reported success, has no effect, neither in memory nor
  after recovery, although its record is in the files.
\<close>

theorem compaction_loses_put:
  assumes "pedrolib_ok P" "io_good io" "db_ok P cap logs (cc_db c)" "t \<noteq> u" "cc_pc c t = Idle" "cc_pc c u = Idle"
    and "\<not> db_readonly (cc_db c)" "db_abs P logs (cc_db c) key \<noteq> None" "\<And>fid. log_size (logs fid) < cap"
    and "client key val" "db_fits P cap (cc_db c) key val" "val \<noteq> []" "unat (db_active (cc_db c)) < 2 ^ 32 - 2"
  shows "\<exists>c' logs' loc. conc_steps P cap io client c c' \<and> cc_pc c' = cc_pc c \<and> db_ok P cap logs' (cc_db c')
     \<and> record_at logs' (cc_db c') loc (db_entry P (cc_db c) key val)
     \<and> (\<forall>loc' e. record_at logs (cc_db c) loc' e \<longrightarrow> loc' < loc)
     \<and> db_abs P logs' (cc_db c') = db_abs P logs (cc_db c)
     \<and> (db_recoverable logs (cc_db c) \<longrightarrow> db_recoverable logs' (cc_db c'))"
proof -
  from assms(8) obtain d e0 where d: "db_indices (cc_db c) key = Some d"
    and e0: "log_at (logs (loc_id (dir_loc d))) (unat (loc_offset (dir_loc d))) = Some e0"
    "db_abs P logs (cc_db c) key = Some (db_value P (cc_db c) e0)"
    by (auto simp: db_abs_def split: option.splits)
  have k: "re_key e0 = key" "re_type e0 = kSet"
    by (rule index_okE [OF db_okD(2) [OF assms(3)] d]; use e0(1) in simp)+
  have "unat (loc_offset (dir_loc d)) + rec_size e0 < cap" using log_at_bound [OF e0(1)] assms(9) by (meson le_less_trans)
  from conc_race [where client = client and key = key and val = val, OF assms(1-7) d e0(1) this assms(10,11,13)] assms(12) obtain c' logs' loc1 loc2 where r:
    "conc_steps P cap io client c c'" "cc_pc c' = cc_pc c" "db_ok P cap logs' (cc_db c')"
    "record_at logs' (cc_db c') loc1 (db_entry P (cc_db c) key val)" "record_at logs' (cc_db c') loc2 e0"
    "db_indices (cc_db c') = (db_indices (cc_db c))(key := Some \<lparr>dir_entry_size = rec_sizeof e0, dir_loc = loc2\<rparr>)"
    "db_options (cc_db c') = db_options (cc_db c)"
    "\<forall>loc e. record_at logs (cc_db c) loc e \<longrightarrow> record_at logs' (cc_db c') loc e \<and> loc < loc1"
    "replay logs' (db_files (cc_db c')) (\<lambda>_. None) = replay_entry loc2 e0
       (replay_entry loc1 (db_entry P (cc_db c) key val) (replay logs (db_files (cc_db c)) (\<lambda>_. None)))" by auto
  have "db_abs P logs' (cc_db c') = db_abs P logs (cc_db c)"
    using conc_abs [OF assms(3) r(7) _ r(6)] r(5,8) e0(2) by (auto simp: record_at_def)
  moreover have "db_recoverable logs' (cc_db c')" if "db_recoverable logs (cc_db c)"
    using that r(6,9) k assms(11,12) db_entry_wf(4,5) [OF assms(11) _ assms(1)]
    by (simp add: db_recoverable_def replay_entry_def)
  ultimately show ?thesis using r(1-4,8) by blast
qed

lemma compaction_loses_put_witness:
  "\<exists>s c' logs'. demo_two s
     \<and> conc_steps list_pedrolib 4096 io_fine (\<lambda>_ _. True) \<lparr>cc_db = s, cc_pc = \<lambda>_. Idle\<rparr> c'
     \<and> (\<exists>loc. record_at logs' (cc_db c') loc (demo_entry [1] [9])) \<and> db_abs list_pedrolib logs' (cc_db c') [1] = Some demo_big"
proof -
  obtain s where s: "demo_two s" using demo_two_ex by blast
  note d = demo_twoD [OF s]
  have f: "db_fits list_pedrolib 4096 s [1] [9]" "db_entry list_pedrolib s [1] [9] = demo_entry [1] [9]"
    using d(5) demo_entry [of s] by (simp_all add: db_fits_small db_small_def)
  from compaction_loses_put [of list_pedrolib io_fine 4096 demo_logs "\<lparr>cc_db = s, cc_pc = \<lambda>_. Idle\<rparr>" 0 1 "[1]"
      "\<lambda>_ _. True" "[9]"] f d(1,4,6,7) list_pedrolib_ok io_good_fine demo_logs_room
  obtain c' logs' loc where c: "conc_steps list_pedrolib 4096 io_fine (\<lambda>_ _. True) \<lparr>cc_db = s, cc_pc = \<lambda>_. Idle\<rparr> c'"
    "record_at logs' (cc_db c') loc (demo_entry [1] [9])" "db_abs list_pedrolib logs' (cc_db c') = demo_map" by auto
  show ?thesis by (rule exI [of _ s], rule exI [of _ c'], rule exI [of _ logs']) (use s c in auto)
qed

text \<open>
  C17: A deletion that comes back. When a deletion completes between the check of a compaction and
  its append, the compaction appends the old record behind the tombstone and leaves the index
  alone: the key is gone until the files are replayed, which finds the deleted value again.
\<close>

theorem compaction_revives_deletion:
  assumes "pedrolib_ok P" "io_good io" "db_ok P cap logs (cc_db c)" "t \<noteq> u" "cc_pc c t = Idle" "cc_pc c u = Idle"
    and "\<not> db_readonly (cc_db c)" "db_abs P logs (cc_db c) key = Some val" "\<And>fid. log_size (logs fid) < cap"
    and "client key []" "db_fits P cap (cc_db c) key []" "unat (db_active (cc_db c)) < 2 ^ 32 - 2"
  shows "\<exists>c' logs' d e. conc_steps P cap io client c c' \<and> cc_pc c' = cc_pc c \<and> db_ok P cap logs' (cc_db c')
     \<and> db_abs P logs' (cc_db c') = (db_abs P logs (cc_db c))(key := None)
     \<and> replay logs' (db_files (cc_db c')) (\<lambda>_. None) key = Some d
     \<and> record_at logs' (cc_db c') (dir_loc d) e \<and> db_value P (cc_db c') e = val"
proof -
  from assms(8) obtain d e0 where d: "db_indices (cc_db c) key = Some d"
    and e0: "log_at (logs (loc_id (dir_loc d))) (unat (loc_offset (dir_loc d))) = Some e0" "val = db_value P (cc_db c) e0"
    by (auto simp: db_abs_def split: option.splits)
  have k: "re_key e0 = key" "re_type e0 = kSet"
    by (rule index_okE [OF db_okD(2) [OF assms(3)] d]; use e0(1) in simp)+
  have "unat (loc_offset (dir_loc d)) + rec_size e0 < cap" using log_at_bound [OF e0(1)] assms(9) by (meson le_less_trans)
  from conc_race [where client = client and key = key and val = "[]", OF assms(1-7) d e0(1) this assms(10-12)]
  obtain c' logs' loc1 loc2 where r:
    "conc_steps P cap io client c c'" "cc_pc c' = cc_pc c" "db_ok P cap logs' (cc_db c')" "record_at logs' (cc_db c') loc2 e0"
    "db_indices (cc_db c') = (db_indices (cc_db c))(key := None)" "db_options (cc_db c') = db_options (cc_db c)"
    "\<forall>loc e. record_at logs (cc_db c) loc e \<longrightarrow> record_at logs' (cc_db c') loc e \<and> loc < loc1"
    "replay logs' (db_files (cc_db c')) (\<lambda>_. None) = replay_entry loc2 e0
       (replay_entry loc1 (db_entry P (cc_db c) key []) (replay logs (db_files (cc_db c)) (\<lambda>_. None)))" by auto
  have "db_abs P logs' (cc_db c') = (db_abs P logs (cc_db c))(key := None)"
    using conc_abs [OF assms(3) r(6) _ r(5)] r(7) by auto
  moreover have "db_value P (cc_db c') e0 = val" using db_value_cong [OF r(6)] e0(2) by simp
  ultimately show ?thesis using r(1-4,8) k
    by (intro exI [of _ c'] exI [of _ logs'] exI [of _ "\<lparr>dir_entry_size = rec_sizeof e0, dir_loc = loc2\<rparr>"] exI [of _ e0])
      (simp add: replay_entry_def)
qed

lemma compaction_revives_deletion_witness:
  "\<exists>s c' logs' d e. demo_two s
     \<and> conc_steps list_pedrolib 4096 io_fine (\<lambda>_ _. True) \<lparr>cc_db = s, cc_pc = \<lambda>_. Idle\<rparr> c'
     \<and> db_abs list_pedrolib logs' (cc_db c') [1] = None
     \<and> replay logs' (db_files (cc_db c')) (\<lambda>_. None) [1] = Some d
     \<and> record_at logs' (cc_db c') (dir_loc d) e \<and> db_value list_pedrolib (cc_db c') e = demo_big"
proof -
  obtain s where s: "demo_two s" using demo_two_ex by blast
  note d = demo_twoD [OF s]
  have f: "db_fits list_pedrolib 4096 s [1] []" using d(5) by (simp add: db_fits_small db_small_def)
  from compaction_revives_deletion [of list_pedrolib io_fine 4096 demo_logs "\<lparr>cc_db = s, cc_pc = \<lambda>_. Idle\<rparr>" 0 1 "[1]" demo_big
      "\<lambda>_ _. True"] f d(1,4,6,7) list_pedrolib_ok io_good_fine demo_logs_room
  obtain c' logs' d e where c: "conc_steps list_pedrolib 4096 io_fine (\<lambda>_ _. True) \<lparr>cc_db = s, cc_pc = \<lambda>_. Idle\<rparr> c'"
    "db_abs list_pedrolib logs' (cc_db c') = demo_map([1] := None)" "replay logs' (db_files (cc_db c')) (\<lambda>_. None) [1] = Some d"
    "record_at logs' (cc_db c') (dir_loc d) e" "db_value list_pedrolib (cc_db c') e = demo_big" by auto
  then have "db_abs list_pedrolib logs' (cc_db c') [1] = None" by simp
  with s c(1,3-5) show ?thesis by blast
qed

text \<open>
  C18: Two puts of one key. They may append their records in one order and update the index in
  the other. Both report success; from then on the database answers with the value of the first
  record, and with the value of the second one after its files have been replayed.
\<close>

theorem puts_reorder:
  assumes "pedrolib_ok P" "io_good io" "db_ok P cap logs (cc_db c)" "t \<noteq> u" "cc_pc c t = Idle" "cc_pc c u = Idle"
    and "\<not> db_readonly (cc_db c)" "client key val" "client key val'" "db_fits P cap (cc_db c) key val"
    and "db_fits P cap (cc_db c) key val'" "val \<noteq> []" "val' \<noteq> []" "unat (db_active (cc_db c)) < 2 ^ 32 - 2"
  shows "\<exists>c' logs' d e. conc_steps P cap io client c c' \<and> cc_pc c' = cc_pc c \<and> db_ok P cap logs' (cc_db c')
     \<and> db_abs P logs' (cc_db c') = (db_abs P logs (cc_db c))(key \<mapsto> val)
     \<and> replay logs' (db_files (cc_db c')) (\<lambda>_. None) key = Some d
     \<and> record_at logs' (cc_db c') (dir_loc d) e \<and> db_value P (cc_db c') e = val'"
proof -
  let ?e = "db_entry P (cc_db c) key val" and ?e' = "db_entry P (cc_db c) key val'"
  have cap: "cap < 2 ^ 32" using db_okD(1) [OF assms(3)] unfolding fm_ok_def disk_ok_def by blast
  note e = db_entry_wf(4,5) [OF assms(10) cap assms(1)] and e' = db_entry_wf(4,5) [OF assms(11) cap assms(1)]
  from conc_put_race [where client = client and key = key and val = val and val' = val', OF assms(1-11,14)]
  obtain c' logs' loc1 loc2 where r:
    "conc_steps P cap io client c c'" "cc_pc c' = cc_pc c" "db_ok P cap logs' (cc_db c')"
    "record_at logs' (cc_db c') loc1 ?e" "record_at logs' (cc_db c') loc2 ?e'"
    "db_indices (cc_db c') = replay_entry loc1 ?e (replay_entry loc2 ?e' (db_indices (cc_db c)))"
    "db_options (cc_db c') = db_options (cc_db c)"
    "\<forall>loc e. record_at logs (cc_db c) loc e \<longrightarrow> record_at logs' (cc_db c') loc e \<and> loc < loc1"
    "replay logs' (db_files (cc_db c')) (\<lambda>_. None) = replay_entry loc2 ?e'
       (replay_entry loc1 ?e (replay logs (db_files (cc_db c)) (\<lambda>_. None)))" by blast
  have idx: "db_indices (cc_db c') = (db_indices (cc_db c))(key := Some \<lparr>dir_entry_size = rec_sizeof ?e, dir_loc = loc1\<rparr>)"
    using r(6) e e' assms(12,13) by (simp add: replay_entry_def)
  have "db_abs P logs' (cc_db c') = (db_abs P logs (cc_db c))(key \<mapsto> val)"
    using conc_abs [OF assms(3) r(7) _ idx] r(4,8) db_value_entry [OF assms(1) refl] by (auto simp: record_at_def)
  moreover have "db_value P (cc_db c') ?e' = val'" using db_value_cong [OF r(7)] db_value_entry [OF assms(1) refl] by simp
  ultimately show ?thesis using r(1-5,9) e' assms(13)
    by (intro exI [of _ c'] exI [of _ logs'] exI [of _ "\<lparr>dir_entry_size = rec_sizeof ?e', dir_loc = loc2\<rparr>"] exI [of _ ?e'])
      (simp add: replay_entry_def)
qed

lemma puts_reorder_witness:
  "\<exists>s c' logs' d e. demo_two s
     \<and> conc_steps list_pedrolib 4096 io_fine (\<lambda>_ _. True) \<lparr>cc_db = s, cc_pc = \<lambda>_. Idle\<rparr> c'
     \<and> db_abs list_pedrolib logs' (cc_db c') [3] = Some [8]
     \<and> replay logs' (db_files (cc_db c')) (\<lambda>_. None) [3] = Some d
     \<and> record_at logs' (cc_db c') (dir_loc d) e \<and> db_value list_pedrolib (cc_db c') e = [9]"
proof -
  obtain s where s: "demo_two s" using demo_two_ex by blast
  note d = demo_twoD [OF s]
  have f: "db_fits list_pedrolib 4096 s [3] [8]" "db_fits list_pedrolib 4096 s [3] [9]"
    using d(5) by (simp_all add: db_fits_small db_small_def)
  from puts_reorder [of list_pedrolib io_fine 4096 demo_logs "\<lparr>cc_db = s, cc_pc = \<lambda>_. Idle\<rparr>" 0 1
      "\<lambda>_ _. True" "[3]" "[8]" "[9]"] f d(1,4,6,7) list_pedrolib_ok io_good_fine
  obtain c' logs' d e where c: "conc_steps list_pedrolib 4096 io_fine (\<lambda>_ _. True) \<lparr>cc_db = s, cc_pc = \<lambda>_. Idle\<rparr> c'"
    "db_abs list_pedrolib logs' (cc_db c') = demo_map([3] \<mapsto> [8])" "replay logs' (db_files (cc_db c')) (\<lambda>_. None) [3] = Some d"
    "record_at logs' (cc_db c') (dir_loc d) e" "db_value list_pedrolib (cc_db c') e = [9]" by auto
  then have "db_abs list_pedrolib logs' (cc_db c') [3] = Some [8]" by simp
  with s c(1,3-5) show ?thesis by blast
qed



text \<open>
  C20: A get whose file is removed. When a compaction runs between the lookup and the read of a get,
  and removes the file, the get fails with \<open>kIOError\<close>, unless its block is in the read cache; the key has
  the same value before, after and all the time.
\<close>

theorem get_loses_file:
  assumes "pedrolib_ok P" "db_ok P cap logs s" "io_good io" "\<not> db_readonly s" "db_get_lookup key s = Some (d, max_file)"
    and "loc_id (dir_loc d) \<noteq> db_active s" "log_size (logs (loc_id (dir_loc d))) < cap"
    and "unat (db_active s) + length (logs (loc_id (dir_loc d))) < 2 ^ 32 - 1"
  shows "\<exists>s' logs' val. db_compact_file P cap io (loc_id (dir_loc d)) s = Some s' \<and> db_ok P cap logs' s'
     \<and> db_abs P logs s key = Some val \<and> db_abs P logs' s' key = Some val
     \<and> (\<not> use_read_cache \<or> \<not> opt_cache_enable (db_options s)
          \<or> seg_lookup lru_lookup (rc_hash P) (db_read_cache s') (rc_GetBlockIdx (loc_id (dir_loc d)) (loc_offset (dir_loc d))) = None
        \<longrightarrow> (\<exists>s''. db_get_rest P io use_read_cache (d, max_file) s' = Some (kIOError, None, s'')))"
proof -
  have idx: "db_indices s key = Some d" using assms(5) by (auto simp: db_get_lookup_def)
  from index_okE [OF db_okD(2) [OF assms(2)] idx] obtain e where e: "loc_id (dir_loc d) \<in> set (db_files s)"
    "log_at (logs (loc_id (dir_loc d))) (unat (loc_offset (dir_loc d))) = Some e" "dir_entry_size d = rec_sizeof e" .
  note w = record_at_wf [OF assms(2), of "dir_loc d" e]
  have wf: "rec_wf e" using w e by (simp add: record_at_def)
  have sz: "unat (loc_offset (dir_loc d)) + rec_size e \<le> cap" using log_at_bound [OF e(2)] assms(7) by simp
  from db_compact_file_ok [OF assms(1-4) e(1) assms(6-8)] obtain s' logs' where c:
    "db_compact_file P cap io (loc_id (dir_loc d)) s = Some s'" "db_ok P cap logs' s'" "db_abs P logs' s' = db_abs P logs s"
    "loc_id (dir_loc d) \<notin> set (db_files s')" "db_options s' = db_options s" "db_active s \<le> db_active s'" by blast
  have "loc_id (dir_loc d) \<le> db_active s"
    using active_files(3) [OF db_okD(1) [OF assms(2)]] e(1) by (simp add: db_files_def db_active_def)
  then have lt: "loc_id (dir_loc d) < db_active s'" using assms(6) c(6) by simp
  have "db_abs P logs s key = Some (db_value P s e)" using idx e(2) by (simp add: db_abs_def)
  then show ?thesis
    using c db_get_rest_removed [OF assms(1) c(2,4) lt _ e(3) wf sz, of use_read_cache io max_file]
    by (intro exI [of _ s'] exI [of _ logs'] exI [of _ "db_value P s e"]) simp
qed

lemma get_loses_file_witness:
  "\<exists>s d s' logs' s''. demo_two s \<and> db_get_lookup [1] s = Some (d, 2) \<and> db_compact_file list_pedrolib 4096 io_fine 1 s = Some s'
     \<and> db_abs list_pedrolib logs' s' [1] = Some demo_big
     \<and> db_get_rest list_pedrolib io_fine False (d, 2) s' = Some (kIOError, None, s'')"
proof -
  obtain s where s: "demo_two s" using demo_two_ex by blast
  note d = demo_twoD [OF s]
  let ?d = "\<lparr>dir_entry_size = 4015, dir_loc = Location 1 0\<rparr>"
  have i: "db_get_lookup [1] s = Some (?d, 2)"
    using d(2,3,7,8)
    by (simp add: db_get_lookup_def db_recoverable_def db_current_def replay_entry_def rec_sizeof_def)
  from get_loses_file [OF list_pedrolib_ok d(1) io_good_fine d(4) i, of False] d(6,7) s i demo_logs_room [of 1]
  show ?thesis by auto
qed

text \<open>
  C21: An append that is overtaken by a rotation is lost on recovery.
  \<^verbatim>\<open>FileManager::Append\<close> reads the active file and its index log under one lock and uses
  them under another. When a second thread finds the file full in between, opens the next file, and
  the executor writes the index file, the first thread still appends its record, reports
  \<open>kOk\<close>, and logs the index entry in a buffer that nobody writes any more: the data file
  holds the record, but recovery reads the index file only, and no entry of the index leads to the
  record.
\<close>

theorem late_append_unindexed:
  assumes "pedrolib_ok P" "io_good io" "fm_ok P cap logs s" "fm_active_id s = fid" "fid \<noteq> -1"
    and "rec_wf e" "log_size (logs fid) + rec_size e \<le> cap"
    and "rec_wf big" "rec_size big \<le> cap" "cap < log_size (logs fid) + rec_size big"
    and "\<forall>t \<in> set (fm_pending s). \<not> task_empty P t"
  shows "\<exists>f log s1 s2 f' log' fs. fm_data_file s = Some f \<and> fm_index_log s = Some log
     \<and> fm_Append P cap io big s = Some (kOk, Location (fid + 1) 0, s1)
     \<and> fm_run_tasks P io (length (fm_pending s1)) s1 = Some s2 \<and> fm_pending s2 = []
     \<and> fm_append_file P e fid f (Some log) (fm_fs s2)
         = Some (Inr (Location fid (of_nat (log_size (logs fid))), f', log', fs))
     \<and> log_file P cap (logs fid @ [e]) (fs_data fs (mrw_ino f))
     \<and> (\<forall>db. fm_fs (db_fm db) = fs \<longrightarrow> fm_meta (db_fm db) = fm_meta s2 \<longrightarrow> index_before (Location fid 0) (db_indices db) \<longrightarrow>
          (\<exists>db'. db_recover_file P io fid db = Some (kOk, db')
             \<and> db_indices db' = replay_log fid 0 (logs fid) (db_indices db)
             \<and> (\<forall>k d. db_indices db' k = Some d \<longrightarrow> dir_loc d \<noteq> Location fid (of_nat (log_size (logs fid))))))"
proof -
  have aok: "active_ok P cap logs s" and dok: "disk_ok P cap logs (fm_fs s) (fm_meta s)"
    using assms(3) by (simp_all add: fm_ok_def)
  from active_okE [OF aok] obtain f log where f: "fm_data_file s = Some f" "fm_index_log s = Some log" by blast
  from late_append_ok [OF assms(1-3) f, unfolded assms(4), OF assms(5-11)] obtain s1 s2 f' log' fs i where l:
    "fm_Append P cap io big s = Some (kOk, Location (fid + 1) 0, s1)"
    "fm_run_tasks P io (length (fm_pending s1)) s1 = Some s2" "fm_pending s2 = []"
    "fm_append_file P e fid f (Some log) (fm_fs s2)
         = Some (Inr (Location fid (of_nat (log_size (logs fid))), f', log', fs))"
    "log_file P cap (logs fid @ [e]) (fs_data fs (mrw_ino f))"
    "fs_links fs (mm_GetIndexFilePath P (fm_meta s2) fid) = Some i"
    "fs_data fs i = idx_log_bytes P (log_index 0 (logs fid))" by blast
  have wf: "\<forall>x \<in> set (logs fid). rec_wf x" "log_size (logs fid) < 2 ^ 32"
    using l(5) assms(7) disk_okD(2) [OF dok] by (auto simp: log_file_def)
  have "\<exists>db'. db_recover_file P io fid db = Some (kOk, db')
       \<and> db_indices db' = replay_log fid 0 (logs fid) (db_indices db)
       \<and> (\<forall>k d. db_indices db' k = Some d \<longrightarrow> dir_loc d \<noteq> Location fid (of_nat (log_size (logs fid))))"
    if db: "fm_fs (db_fm db) = fs" "fm_meta (db_fm db) = fm_meta s2" "index_before (Location fid 0) (db_indices db)" for db
  proof -
    from db_recover_file_index [where z = 0, OF assms(1,2) _ _ wf db(3)] l(6,7) db(1,2) obtain db' where r:
      "db_recover_file P io fid db = Some (kOk, db')" "db_indices db' = replay_log fid 0 (logs fid) (db_indices db)" by auto
    have "index_before (Location fid (of_nat (log_size (logs fid)))) (db_indices db')"
      using index_before_replay_log [of 0 "logs fid" fid "db_indices db"] wf(2) db(3) r(2) by simp
    then show ?thesis using r unfolding index_before_def by (metis less_irrefl)
  qed
  with f l(1-5) show ?thesis by blast
qed

lemma late_append_unindexed_witness:
  "\<exists>s f log s1 s2 f' log' fs db'. fm_Append list_pedrolib 4096 io_fine (demo_entry [3] demo_big) s = Some (kOk, Location 3 0, s1)
     \<and> fm_run_tasks list_pedrolib io_fine (length (fm_pending s1)) s1 = Some s2
     \<and> fm_data_file s = Some f \<and> fm_index_log s = Some log
     \<and> fm_append_file list_pedrolib (demo_entry [5] [9]) 2 f (Some log) (fm_fs s2) = Some (Inr (Location 2 4015, f', log', fs))
     \<and> db_recover_file list_pedrolib io_fine 2 db' \<noteq> None \<and> fm_fs (db_fm db') = fs"
proof -
  obtain s where s: "demo_two s" using demo_two_ex by blast
  note d = demo_twoD [OF s]
  let ?fm = "(db_fm s)\<lparr>fm_pending := []\<rparr>"
  have ok: "fm_ok list_pedrolib 4096 demo_logs ?fm" and a: "fm_active_id ?fm = 2"
    using db_okD(1) [OF d(1)] d(7) by (simp_all add: fm_ok_def cache_ok_def active_ok_def db_active_def)
  have three: "2 + 1 = (3 :: file_id)" and off: "of_nat (log_size (demo_logs 2)) = (4015 :: u32)" by (simp_all add: rec_size_def)
  have e: "rec_wf (demo_entry [5] [9])" "rec_wf (demo_entry [3] demo_big)"
    and sz: "log_size (demo_logs 2) + rec_size (demo_entry [5] [9]) \<le> 4096" "rec_size (demo_entry [3] demo_big) \<le> 4096"
      "4096 < log_size (demo_logs 2) + rec_size (demo_entry [3] demo_big)"
    by (simp_all add: rec_wf_def rec_size_def)
  have idle: "\<forall>t \<in> set (fm_pending ?fm). \<not> task_empty list_pedrolib t" and more: "2 \<noteq> (-1 :: file_id)" by simp_all
  from late_append_unindexed [OF list_pedrolib_ok io_good_fine ok a more e(1) sz(1) e(2) sz(2,3) idle]
  obtain f log s1 s2 f' log' fs where l: "fm_data_file ?fm = Some f" "fm_index_log ?fm = Some log"
    "fm_Append list_pedrolib 4096 io_fine (demo_entry [3] demo_big) ?fm = Some (kOk, Location 3 0, s1)"
    "fm_run_tasks list_pedrolib io_fine (length (fm_pending s1)) s1 = Some s2"
    "fm_append_file list_pedrolib (demo_entry [5] [9]) 2 f (Some log) (fm_fs s2) = Some (Inr (Location 2 4015, f', log', fs))"
    and r: "\<forall>db. fm_fs (db_fm db) = fs \<longrightarrow> fm_meta (db_fm db) = fm_meta s2 \<longrightarrow> index_before (Location 2 0) (db_indices db) \<longrightarrow>
      (\<exists>db'. db_recover_file list_pedrolib io_fine 2 db = Some (kOk, db')
         \<and> db_indices db' = replay_log 2 0 (demo_logs 2) (db_indices db)
         \<and> (\<forall>k d. db_indices db' k = Some d \<longrightarrow> dir_loc d \<noteq> Location 2 4015))"
    unfolding three off by blast
  let ?db = "s\<lparr>db_fm := s2\<lparr>fm_fs := fs\<rparr>, db_indices := \<lambda>_. None\<rparr>"
  have "fm_fs (db_fm ?db) = fs" "fm_meta (db_fm ?db) = fm_meta s2" "index_before (Location 2 0) (db_indices ?db)"
    by (simp_all add: index_before_def)
  with r have "db_recover_file list_pedrolib io_fine 2 ?db \<noteq> None" by blast
  then show ?thesis using l
    by (intro exI [of _ ?fm] exI [of _ f] exI [of _ log] exI [of _ s1] exI [of _ s2] exI [of _ f'] exI [of _ log']
        exI [of _ fs] exI [of _ ?db]) simp
qed

section \<open>Space reclamation\<close>

text \<open>
  C24: Compaction drops the tombstones of a file. A file without any current record, older than
  the active one, is compacted and removed; the map does not change. But when the files are opened
  again, a key that the file had deleted, and that still has a record in another file, is found
  with its old value.
\<close>

theorem dropped_tombstone:
  assumes "pedrolib_ok P" "db_ok P cap logs s" "io_good io" "\<not> db_readonly s"
    and "fid \<in> set (db_files s)" "fid \<noteq> db_active s" "dead_file fid s" "\<And>x. log_size (logs x) < cap"
    and "path_valid (mm_path (fm_meta (db_fm s)))" "opt_cache_segments opts \<noteq> 0"
    and "opt_compress_value opts = opt_compress_value (db_options s)"
    and "db_abs P logs s key = None" "replay logs (set_erase fid (db_files s)) (\<lambda>_. None) key = Some d"
    and "log_at (logs (loc_id (dir_loc d))) (unat (loc_offset (dir_loc d))) = Some e"
  shows "\<exists>s' s1 s2. db_compact_file P cap io fid s = Some s' \<and> db_abs P logs s' key = None
     \<and> db_Open P cap io opts (mm_path (fm_meta (db_fm s))) buf (fm_fs (db_fm s')) = Some (kOk, Some s1, fm_fs (db_fm s'))
     \<and> db_Get P io use_read_cache key s1 = Some (kOk, Some (db_value P s1 e), s2)"
proof -
  from db_dead_reopen [OF assms(1-11), of buf] obtain s' s1 where r:
    "db_compact_file P cap io fid s = Some s'" "db_abs P logs s' = db_abs P logs s"
    "db_Open P cap io opts (mm_path (fm_meta (db_fm s))) buf (fm_fs (db_fm s')) = Some (kOk, Some s1, fm_fs (db_fm s'))"
    "db_ok P cap logs s1" "db_current s1" "db_indices s1 = replay logs (set_erase fid (db_files s)) (\<lambda>_. None)" by blast
  have "db_abs P logs s1 key = Some (db_value P s1 e)" using r(6) assms(13,14) by (simp add: db_abs_def)
  moreover have "\<not> db_shadowed cap use_read_cache key s1" by (rule not_shadowed [OF r(4) assms(8)])
  ultimately have "\<exists>s2. db_Get P io use_read_cache key s1 = Some (kOk, Some (db_value P s1 e), s2)"
    using db_HandleGet_ok [OF assms(1) r(4) assms(3) r(5), of use_read_cache key] unfolding db_Get_def by auto
  then show ?thesis using r(1-3) assms(12) by (metis (no_types))
qed

lemma dropped_tombstone_witness:
  "\<exists>s s' s1 s2. demo_dead s \<and> db_compact_file list_pedrolib 4096 io_fine 2 s = Some s'
     \<and> db_Open list_pedrolib 4096 io_fine (demo_options False) demo_path [] (fm_fs (db_fm s')) = Some (kOk, Some s1, fm_fs (db_fm s'))
     \<and> db_abs list_pedrolib demo_dead_logs s' [1] = None
     \<and> db_Get list_pedrolib io_fine True [1] s1 = Some (kOk, Some (db_value list_pedrolib s1 (demo_entry [1] demo_big)), s2)"
proof -
  obtain s where s: "demo_dead s" using demo_dead_ex by blast
  then have d: "db_ok list_pedrolib 4096 demo_dead_logs s" "db_recoverable demo_dead_logs s" "\<not> db_readonly s"
    "db_options s = demo_options False" "db_abs list_pedrolib demo_dead_logs s = [[3] \<mapsto> demo_big]" "db_active s = 3"
    "db_files s = [1, 2, 3]" "mm_path (fm_meta (db_fm s)) = demo_path" by (simp_all add: demo_state_def)
  have "dead_file 2 s"
    using d(2,7) by (auto simp: dead_file_def db_recoverable_def demo_dead_logs_def replay_entry_def split: if_splits)
  moreover have "replay demo_dead_logs (set_erase 2 (db_files s)) (\<lambda>_. None) [1]
      = Some \<lparr>dir_entry_size = rec_sizeof (demo_entry [1] demo_big), dir_loc = Location 1 0\<rparr>"
    using d(7) by (simp add: set_erase_def demo_dead_logs_def replay_entry_def)
  ultimately show ?thesis
    using dropped_tombstone [OF list_pedrolib_ok d(1) io_good_fine d(3), of 2 "demo_options False" "[1]"
        "\<lparr>dir_entry_size = rec_sizeof (demo_entry [1] demo_big), dir_loc = Location 1 0\<rparr>" "demo_entry [1] demo_big" "[]" True]
      d(4-8) demo_dead_room s
    by (auto simp: demo_dead_logs_def)
qed

text \<open>
  C25: The active file may be compacted as well. When it has no current record, its compaction
  unlinks it while it stays the active file: a later put of a record that still fits into it
  reports success, but the record is in a file without a name and is not part of the database.
\<close>

theorem active_file_lost:
  assumes "pedrolib_ok P" "db_ok P cap logs s" "io_good io" "\<not> db_readonly s"
    and "log_size (logs (db_active s)) < cap" "dead_file (db_active s) s" "db_fits P cap s key val" "val \<noteq> []"
    and "log_size (logs (db_active s)) + rec_size (db_entry P s key val) \<le> cap"
  shows "\<exists>s1 s2 d. db_compact_file P cap io (db_active s) s = Some s1 \<and> db_Put P cap io sync key val s1 = Some (kOk, s2)
     \<and> db_indices s2 key = Some d \<and> loc_id (dir_loc d) = db_active s \<and> db_active s \<notin> set (db_files s2)
     \<and> fs_links (fm_fs (db_fm s2)) (mm_GetDataFilePath P (fm_meta (db_fm s2)) (db_active s)) = None"
  using db_compact_active_dead [OF assms(1-7,9,8), of sync] by blast

lemma active_file_lost_witness:
  "\<exists>s s1 s2. demo_gone s \<and> db_compact_file list_pedrolib 4096 io_fine 2 s = Some s1
     \<and> db_Put list_pedrolib 4096 io_fine True [3] [9] s1 = Some (kOk, s2) \<and> 2 \<notin> set (db_files s2)"
proof -
  obtain s where s: "demo_gone s" using demo_gone_ex by blast
  then have d: "db_ok list_pedrolib 4096 demo_gone_logs s" "db_recoverable demo_gone_logs s" "\<not> db_readonly s"
    "db_options s = demo_options False" "db_active s = 2" "db_files s = [1, 2]" by (simp_all add: demo_state_def)
  have "dead_file 2 s"
    using d(2,6) by (auto simp: dead_file_def db_recoverable_def demo_gone_logs_def replay_entry_def split: if_splits)
  moreover have "db_fits list_pedrolib 4096 s [3] [9]" using d(4) by (simp add: db_fits_small db_small_def)
  moreover have "log_size (demo_gone_logs 2) + rec_size (db_entry list_pedrolib s [3] [9]) \<le> 4096"
    using demo_entry [of s] d(4) by (simp add: demo_gone_logs_def rec_size_def)
  ultimately show ?thesis
    using active_file_lost [OF list_pedrolib_ok d(1) io_good_fine d(3), of "[3]" "[9]" True] demo_dead_room(2) d(5) s
    by auto
qed

text \<open>
  C33: The compaction queue of an open database. After any puts and deletions every file waits at
  most once, it waits exactly when its state is \<open>kQueued\<close>, and a file whose unused bytes have
  reached the threshold is waiting, scheduled or being compacted.
\<close>

theorem queue_after_puts:
  assumes "db_Open P cap io opts name buf fs = Some (st, Some s, fs')"
    and "kv_puts (\<lambda>key val s. db_Put P cap io sync key val s) xs s = Some s1"
  shows "distinct (db_compact_tasks s1)
     \<and> (\<forall>fid. fid \<in> set (db_compact_tasks s1) \<longleftrightarrow> compact_state (file_state_of s1 fid) = kQueued)
     \<and> (\<forall>fid f. db_file_states s1 fid = Some f \<and> opt_threshold_bytes (db_options s1) \<le> free_bytes f
          \<longrightarrow> compact_state f \<noteq> kNop)"
proof -
  have "queue_inv s1" using db_Open_inv [OF assms(1)] assms(2)
  proof (induction xs arbitrary: s)
    case (Cons x xs)
    obtain key val where x: "x = (key, val)" by fastforce
    with Cons.prems obtain st1 t where t: "db_HandlePut P cap io sync key val s = Some (st1, t)"
      "kv_puts (\<lambda>key val s. db_Put P cap io sync key val s) xs t = Some s1"
      by (auto simp: db_Put_def split: option.splits)
    have "queue_inv t" using Cons.prems(1) db_HandlePut_queue [OF t(1)] unfolding queue_inv_def by blast
    then show ?case by (rule Cons.IH) (rule t(2))
  qed simp
  then show ?thesis unfolding queue_inv_def queue_ok_def trigger_ok_def by blast
qed

lemma queue_after_puts_witness:
  "\<exists>s fs' s1. demo_open False = Some (kOk, Some s, fs')
     \<and> kv_puts (\<lambda>key val s. db_Put list_pedrolib 4096 io_fine False key val s) [([1], demo_big), ([1], demo_big)] s = Some s1
     \<and> distinct (db_compact_tasks s1)"
proof -
  obtain s fs' where s: "demo_open False = Some (kOk, Some s, fs')" "demo_state (\<lambda>_. []) [1] 1 (\<lambda>_. None) s"
    using demo_open_state by blast
  from demo_put [OF s(2), of "[1]" demo_big False] obtain s1 where s1:
    "db_Put list_pedrolib 4096 io_fine False [1] demo_big s = Some (kOk, s1)"
    "demo_state ((\<lambda>_. [])(1 := [demo_entry [1] demo_big])) [1] 1 (kv_upd [1] demo_big (\<lambda>_. None)) s1" by (auto simp: rec_size_def)
  from demo_put [OF s1(2), of "[1]" demo_big False] obtain s2 where
    "db_Put list_pedrolib 4096 io_fine False [1] demo_big s1 = Some (kOk, s2)" by auto
  with s1(1) have p: "kv_puts (\<lambda>key val s. db_Put list_pedrolib 4096 io_fine False key val s) [([1], demo_big), ([1], demo_big)] s = Some s2"
    by simp
  from queue_after_puts [OF s(1) p] s(1) p show ?thesis by blast
qed

text \<open>
  \<^verbatim>\<open>Compact\<close> empties the queue and keeps its invariant, whatever it meets in
  the files: no file waits afterwards, and no file is marked as waiting.
\<close>

lemma compact_empties_queue:
  assumes "queue_ok s" "db_Compact P cap io s = Some (st, s')"
  shows "db_compact_tasks s' = [] \<and> (\<forall>fid. compact_state (file_state_of s' fid) \<noteq> kQueued)"
  using db_Compact_queue [OF assms] unfolding queue_ok_def by auto

section \<open>The cache after a compaction\<close>

text \<open>
  C26: A stale block. After a compaction has opened a new file, \<^verbatim>\<open>max_file_\<close> is behind the
  active file until the next put, and a get reads a record of the active file through the cache.
  The block it caches is the one of that moment. A record that is put into the rest of the block is
  acknowledged; but once the file is left for the next one, a get through the cache finds zeros in
  its place and reports \<open>kCorruption\<close>, while a get without the cache returns the value.
\<close>

theorem stale_block:
  assumes "pedrolib_ok P" "io_good io" "db_ok P cap logs s" "\<not> db_readonly s" "db_max_file s \<noteq> db_active s"
    and "opt_cache_enable (db_options s)" "rc_capacities (db_read_cache s)"
    and "db_indices s key0 = Some d0" "loc_id (dir_loc d0) = db_active s" "db_record logs s key0 = Some e0"
    and "L = log_size (logs (db_active s))" "k = L div 4096" "unat (loc_offset (dir_loc d0)) div 4096 = k"
    and "e = db_entry P s key val" "db_fits P cap s key val" "val \<noteq> []" "L + rec_size e \<le> (k + 1) * 4096" "L + rec_size e < cap"
    and "e' = db_entry P s key' val'" "db_fits P cap s key' val'" "val' \<noteq> []" "cap < L + rec_size e + rec_size e'"
    and "key' \<noteq> key" "db_active s \<noteq> -1"
  shows "\<exists>s1 s2 s3 s4 s5. db_Get P io True key0 s = Some (kOk, Some (db_value P s e0), s1)
     \<and> db_Put P cap io sync key val s1 = Some (kOk, s2) \<and> db_Put P cap io sync key' val' s2 = Some (kOk, s3)
     \<and> db_Get P io True key s3 = Some (kCorruption, None, s4) \<and> db_Get P io False key s3 = Some (kOk, Some val, s5)"
  by (rule stale_block_run [OF assms])

text \<open>
  In the middle of the compaction of the first file: its record has been moved to a third file, and
  the index updated.
\<close>

lemma stale_block_witness:
  "\<exists>s fm s0 s1 s2 s3 s4. demo_two s
     \<and> fm_Append list_pedrolib 4096 io_fine (demo_entry [1] demo_big) (db_fm s) = Some (kOk, Location 3 0, fm)
     \<and> s0 = db_compact_update (demo_entry [1] demo_big) (Location 3 0) (s\<lparr>db_fm := fm\<rparr>)
     \<and> db_Get list_pedrolib io_fine True [1] s0 = Some (kOk, Some demo_big, s1)
     \<and> db_Put list_pedrolib 4096 io_fine False [3] [9] s1 = Some (kOk, s2)
     \<and> db_Put list_pedrolib 4096 io_fine False [4] demo_big s2 = Some (kOk, s3)
     \<and> db_Get list_pedrolib io_fine True [3] s3 = Some (kCorruption, None, s4)"
proof -
  obtain s' where s': "demo_two s'" using demo_two_ex by blast
  obtain bc where bc: "rc_new 1 8192 = Some bc" "rc_capacities bc"
    by (simp add: rc_new_def rc_capacities_def lru_init_def kBit_def size_sub_def drop_bit_eq_div)
  let ?b = "with_cache bc s'"
  have s: "demo_two ?b" by (rule demo_state_cache [OF s' bc(1)])
  note d = demo_twoD [OF s]
  let ?e = "demo_entry [1] demo_big" and ?loc = "Location 3 0"
  have e: "rec_wf ?e" "rec_size ?e \<le> 4096" "rec_validate list_pedrolib ?e" "re_type ?e = kSet"
    by (simp_all add: rec_wf_def rec_size_def rec_validate_def)
  have act: "fm_active_id (db_fm ?b) = 2" using d(7) by (simp only: db_active_def)
  have full: "4096 < log_size (demo_logs (fm_active_id (db_fm ?b))) + rec_size ?e" unfolding act by (simp add: rec_size_def)
  have three: "2 + 1 = (3 :: file_id)" and more: "2 \<noteq> (-1 :: file_id)" by simp_all
  from fm_Append_rolls [OF list_pedrolib_ok db_okD(1) [OF d(1)] e(1) io_good_fine full e(2), unfolded act three, OF more] obtain fm where
    fm: "fm_Append list_pedrolib 4096 io_fine ?e (db_fm ?b) = Some (kOk, ?loc, fm)" by blast
  have src: "records_from list_pedrolib (\<lambda>_ _. True) demo_logs ?b" and more: "db_active ?b \<noteq> -1"
    using d(7) by (simp_all add: records_from_def)
  from conc_append [OF list_pedrolib_ok io_good_fine d(1) src e(1-3) _ more fm] obtain logs where
    l: "db_ok list_pedrolib 4096 logs (?b\<lparr>db_fm := fm\<rparr>)" "record_at logs (?b\<lparr>db_fm := fm\<rparr>) ?loc ?e"
      "appended 4096 demo_logs (db_fm ?b) ?e ?loc logs fm" by blast
  let ?u = "db_compact_update ?e ?loc (?b\<lparr>db_fm := fm\<rparr>)"
  note u = db_compact_update_simps [of ?e ?loc "?b\<lparr>db_fm := fm\<rparr>"]
  have ok: "db_ok list_pedrolib 4096 logs ?u" by (rule conc_compact_update [OF l(1) e(4) l(2)])
  have in0: "logs = demo_logs(3 := [?e])" "fm_active_id fm = 3"
    using l(3) full act three by (simp_all add: appended_def Let_def)
  have idx: "db_indices ?b [1] = Some \<lparr>dir_entry_size = rec_sizeof ?e, dir_loc = Location 1 0\<rparr>"
    using d(2,8) by (simp add: db_recoverable_def replay_entry_def)
  have less: "Location 1 0 < ?loc" by (simp add: location_less_iff)
  have i0: "db_indices ?u [1] = Some \<lparr>dir_entry_size = rec_sizeof ?e, dir_loc = ?loc\<rparr>"
    unfolding u(5) using idx less by simp
  have a0: "db_active ?u = 3" unfolding db_active_def u(1) by (simp add: in0(2))
  have m0: "db_max_file ?u = 2" unfolding u(3) using d(3,7) by (simp add: db_current_def)
  have o0: "db_options ?u = demo_options False" "db_read_cache ?u = bc" unfolding u(2,4) using d(5) by simp_all
  have r0: "db_record logs ?u [1] = Some ?e" unfolding db_record_def i0 in0(1) by simp
  have rw: "\<not> db_readonly ?u" using d(4) by (simp add: db_compact_update_def Let_def split: option.split)
  have ent: "db_entry list_pedrolib ?u key val = demo_entry key val" for key val 
    by (rule demo_entry, unfold o0(1)) simp
  have fits: "db_fits list_pedrolib 4096 ?u [3] [9]" "db_fits list_pedrolib 4096 ?u [4] demo_big"
    unfolding db_fits_small o0(1) by (simp_all add: db_small_def)
  have L: "log_size (logs 3) = 4015" unfolding in0(1) by (simp add: rec_size_def)
  have sz: "rec_size (demo_entry [3] [9]) = 16" "rec_size (demo_entry [4] demo_big) = 4015" by (simp_all add: rec_size_def)
  have val: "db_value list_pedrolib ?u ?e = demo_big" unfolding db_value_def o0(1) by simp
  from stale_block [OF list_pedrolib_ok io_good_fine ok rw, of "[1]" "\<lparr>dir_entry_size = rec_sizeof ?e, dir_loc = ?loc\<rparr>" ?e 4015 0
      "demo_entry [3] [9]" "[3]" "[9]" "demo_entry [4] demo_big" "[4]" demo_big False, unfolded ent a0 m0 o0 L sz val]
    bc(2) i0 r0 fits obtain s1 s2 s3 s4 where
    "db_Get list_pedrolib io_fine True [1] ?u = Some (kOk, Some demo_big, s1)"
    "db_Put list_pedrolib 4096 io_fine False [3] [9] s1 = Some (kOk, s2)"
    "db_Put list_pedrolib 4096 io_fine False [4] demo_big s2 = Some (kOk, s3)"
    "db_Get list_pedrolib io_fine True [3] s3 = Some (kCorruption, None, s4)" by auto
  then show ?thesis using s fm by blast
qed

section \<open>The executor and the timers\<close>

text \<open>
  C34: The work that rotation hands to the executor gets done. When no task writes an empty index
  file, one run per task finishes all of them: nothing is left to do, every file for which a task to write
  its index file was queued has one, and the files keep their records. (Tasks that a process leaves
  behind when it ends are not queued again: recovery then replays the data file itself, C9.)
\<close>

theorem executor_finishes:
  assumes "pedrolib_ok P" "io_good io" "fm_ok P cap logs s" "\<forall>t \<in> set (fm_pending s). \<not> task_empty P t"
  shows "\<exists>s'. fm_run_tasks P io (length (fm_pending s)) s = Some s' \<and> fm_ok P cap logs s' \<and> fm_pending s' = []
     \<and> (\<forall>fid log. TCreateIndexFile fid log \<in> set (fm_pending s) \<longrightarrow>
          fs_links (fm_fs s') (mm_GetIndexFilePath P (fm_meta s') fid) \<noteq> None)"
proof -
  from fm_run_tasks_done [OF assms(1,2,3) refl assms(4)] obtain s' where s':
    "fm_run_tasks P io (length (fm_pending s)) s = Some s'" "fm_ok P cap logs s'" "fm_meta s' = fm_meta s"
    "fm_pending s' = []" "\<forall>t \<in> set (fm_pending s). task_done P (fm_fs s') (fm_meta s) t" by blast
  then have "fs_links (fm_fs s') (mm_GetIndexFilePath P (fm_meta s') fid) \<noteq> None"
    if "TCreateIndexFile fid log \<in> set (fm_pending s)" for fid log
    using that by (force simp: task_done_def)
  with s' show ?thesis by blast
qed

lemma executor_finishes_witness:
  "\<exists>s s'. fm_pending s = [TSyncFile 1 \<lparr>mrw_ino = 0, mrw_write_index = 0, mrw_length = 0\<rparr>,
       TCreateIndexFile 1 (idx_log_bytes list_pedrolib (log_index 0 (demo_logs 1)))]
     \<and> fm_run_tasks list_pedrolib io_fine 2 s = Some s' \<and> fm_pending s' = []"
proof -
  obtain s where s: "demo_two s" using demo_two_ex by blast
  note d = demo_twoD [OF s]
  let ?t = "TCreateIndexFile 1 (idx_log_bytes list_pedrolib (log_index 0 (demo_logs 1)))"
  let ?fm = "(db_fm s)\<lparr>fm_pending := [TSyncFile 1 \<lparr>mrw_ino = 0, mrw_write_index = 0, mrw_length = 0\<rparr>, ?t]\<rparr>"
  have A: "codec_ok list_pedrolib" using list_pedrolib_ok by simp
  have b: "ab_bytes list_pedrolib b = b" for b by (simp add: list_pedrolib_def)
  have len: "length (idx_log_bytes list_pedrolib (log_index 0 (demo_logs 1))) = 11"
    using A by (simp add: idx_log_bytes_def)
  have "task_ok list_pedrolib 4096 demo_logs 2 ?t" using len by (simp add: task_ok_def b)
  then have "pending_ok list_pedrolib 4096 demo_logs (fm_active_id (db_fm s)) (fm_pending ?fm)"
    using d(7) unfolding pending_ok_def db_active_def by (simp add: task_ok_def [of _ _ _ _ "TSyncFile _ _"])
  then have "fm_ok list_pedrolib 4096 demo_logs ?fm"
    using db_okD(1) [OF d(1)] unfolding fm_ok_def cache_ok_def active_ok_def by simp
  moreover have "\<forall>t \<in> set (fm_pending ?fm). \<not> task_empty list_pedrolib t" using len by (auto simp: task_empty_def b)
  ultimately have "\<exists>s'. fm_run_tasks list_pedrolib io_fine (length (fm_pending ?fm)) ?fm = Some s' \<and> fm_pending s' = []"
    using executor_finishes [OF list_pedrolib_ok io_good_fine] by blast
  then obtain s' where "fm_run_tasks list_pedrolib io_fine 2 ?fm = Some s'" "fm_pending s' = []"
    unfolding fm.simps list.size by (auto simp: numeral_2_eq_2)
  then show ?thesis by (intro exI [of _ ?fm] exI [of _ s']) simp
qed

text \<open>
  The sync timer. Every failed sync is counted, and the count is never reset: after \<open>n\<close>
  rounds the database is read-only exactly when the syncs fail and the count has passed the
  option; every put is then rejected.
\<close>

lemma sync_failures_readonly:
  assumes "\<not> db_readonly s" "db_failed_count s \<le> opt_sync_max_io_error (db_options s)" "fm_data_file (db_fm s) \<noteq> None"
  shows "(if \<not> io_sync io \<and> opt_sync_max_io_error (db_options s) < db_failed_count s + int n
      then db_Put P cap io' sync key val ((db_sync_worker io ^^ n) s) = Some (kNotSupported, (db_sync_worker io ^^ n) s)
      else \<not> db_readonly ((db_sync_worker io ^^ n) s))"
proof -
  have "(db_sync_worker io ^^ n) s = (if io_sync io then s else s\<lparr>db_failed_count := db_failed_count s + int n,
      db_readonly := opt_sync_max_io_error (db_options s) < db_failed_count s + int n\<rparr>)"
    using assms by (induction n) (auto simp: db_sync_worker_def fm_Sync_def mrw_Flush_def mrw_Sync_def Let_def)
  then show ?thesis using assms(1) by (auto simp: db_Put_def db_HandlePut_def)
qed

section \<open>Segments and iteration\<close>

text \<open>
  C35: The segmented database is one map. Opened on empty directories, with any number of segments
  but zero, it answers every get with the value of the last put of the key, or \<open>kNotFound\<close> if
  there was none or it was a deletion, as a single database does, wherever the hash of the keys sends
  them. As there (C1), the paths are valid, the read cache has a segment, the keys are shorter than 256 bytes, the records fit into a file, and a direct read of a record that
  ends with the last byte of its file reports \<open>kCorruption\<close>. The number of puts is bounded as in C1.
\<close>

theorem segmented_puts_get:
  assumes "pedrolib_ok P" "io_good io" "opt_cache_segments opts \<noteq> 0" "14 < cap" "cap < 2 ^ 32" "4096 dvd cap"
    and "fss \<noteq> []" "\<forall>fs \<in> set fss. fs_ok fs \<and> fs_links fs = (\<lambda>_. None)" "\<And>j. path_valid (sdb_segment_name P path j)"
    and "length xs < 2 ^ 32 - 2" "\<forall>(key, val) \<in> set xs. db_small P cap (opt_compress_value opts) key val"
  shows "\<exists>segs s1 s2. sdb_Open P cap io opts path buf fss = Some (kOk, Some segs) \<and> length segs = length fss
     \<and> kv_puts (\<lambda>key val s. sdb_Put P cap io sync key val s) xs segs = Some s1
     \<and> sdb_Get P io use_read_cache key s1 = Some (case map_of (rev xs) key of
          None \<Rightarrow> (kNotFound, None, s2)
        | Some val \<Rightarrow>
            if val = [] then (kNotFound, None, s2)
            else if db_shadowed cap use_read_cache key (s1 ! sdb_GetDB (sdb_hash P key) s1) then (kCorruption, None, s2)
            else (kOk, Some val, s2))"
proof -
  from sdb_Open_fresh [OF assms(1-6,10,7-9), of buf] obtain segs where s:
    "sdb_Open P cap io opts path buf fss = Some (kOk, Some segs)" "length segs = length fss"
    "seg_rep (sdb_hash P) (db_rep P cap io (opt_compress_value opts)) (0 + length xs) segs (\<lambda>_. None)" by auto
  from sdb_store.seg.puts_get [OF s(3) assms(11), of sync use_read_cache key] s(1,2) show ?thesis
    unfolding kv_map_last sdb_Put_def sdb_Get_def seg_hidden_def by (cases "map_of (rev xs) key") (auto split: if_splits)
qed

lemma segmented_puts_get_witness:
  "\<exists>segs s1 s2. sdb_Open list_pedrolib 4096 io_fine (demo_options False) [97] [] [fs_init, fs_init, fs_init] = Some (kOk, Some segs)
     \<and> length segs = 3 \<and> kv_puts (\<lambda>key val s. sdb_Put list_pedrolib 4096 io_fine False key val s) [([1], [10]), ([2], [20]), ([1], [])] segs = Some s1
     \<and> sdb_Get list_pedrolib io_fine True [1] s1 = Some (kNotFound, None, s2)"
proof -
  have "path_valid (sdb_segment_name list_pedrolib [97] j)" for j
    using path_valid_db [of "[97] @ str ''.seg.'' @ digits_u32 (of_nat j)"]
    by (simp add: sdb_segment_name_def list_pedrolib_def digits_u32_def str_def)
  then show ?thesis
    using segmented_puts_get [OF list_pedrolib_ok io_good_fine, of "demo_options False" 4096 "[fs_init, fs_init, fs_init]" "[97]"
      "[([1], [10]), ([2], [20]), ([1], [])]" "[]" False True "[1]"]
    by (auto simp: db_small_def fs_init_links)
qed



section \<open>Failures of the metadata file\<close>

text \<open>
  C37: A rotation that is not recorded. When the write to the metadata file fails (\<open>no_write\<close>), a
  put that opens the next file does not notice it: it reports \<open>kOk\<close> and the key is indexed in the
  new file, which is in the list of files in memory. But reading the metadata file again finds
  exactly the list from before, without the new file, so that no recovery looks at the record.
\<close>

theorem unlogged_rotation:
  assumes "pedrolib_ok P" "db_ok P cap logs s" "io_good io" "\<not> db_readonly s" "db_fits P cap s key val" "val \<noteq> []"
    and "db_active s \<noteq> -1" "cap < log_size (logs (db_active s)) + rec_size (db_entry P s key val)"
    and "path_valid (mm_path (fm_meta (db_fm s)))"
  shows "\<exists>s1. db_Put P cap (no_write io) sync key val s = Some (kOk, s1)
     \<and> db_indices s1 key = Some \<lparr>dir_entry_size = rec_sizeof (db_entry P s key val), dir_loc = Location (db_active s + 1) 0\<rparr>
     \<and> db_active s + 1 \<in> set (db_files s1) \<and> db_active s + 1 \<notin> set (db_files s)
     \<and> mm_Init P io (mm_new (mm_path (fm_meta (db_fm s)))) (fm_fs (db_fm s1))
         = Some (kOk, fm_meta (db_fm s), fm_fs (db_fm s1))"
  by (rule db_put_no_write [OF assms])

lemma unlogged_rotation_witness:
  "\<exists>s s1. demo_two s \<and> db_Put list_pedrolib 4096 (no_write io_fine) False [3] demo_big s = Some (kOk, s1)
     \<and> 3 \<in> set (db_files s1)
     \<and> mm_Init list_pedrolib io_fine (mm_new demo_path) (fm_fs (db_fm s1)) = Some (kOk, fm_meta (db_fm s), fm_fs (db_fm s1))
     \<and> mm_files (fm_meta (db_fm s)) = [1, 2]"
proof -
  obtain s where s: "demo_two s" using demo_two_ex by blast
  note d = demo_twoD [OF s]
  have e: "db_entry list_pedrolib s [3] demo_big = demo_entry [3] demo_big" using demo_entry [of s] d(5) by simp
  have f: "db_fits list_pedrolib 4096 s [3] demo_big" using d(5) by (simp add: db_fits_small db_small_def)
  have a: "db_active s \<noteq> -1" "db_active s + 1 = 3" using d(7) by simp_all
  have full: "4096 < log_size (demo_logs (db_active s)) + rec_size (db_entry list_pedrolib s [3] demo_big)"
    unfolding e d(7) by (simp add: rec_size_def)
  have p: "path_valid (mm_path (fm_meta (db_fm s)))" using d(9) by simp
  from unlogged_rotation [OF list_pedrolib_ok d(1) io_good_fine d(4) f demo_big_simps(2) a(1) full p, of False, unfolded a(2) d(9)]
  show ?thesis using s d(8) by (auto simp: db_files_def)
qed

text \<open>
  A removal that is not recorded. When the write to the metadata file fails,
  \<^verbatim>\<open>RemoveFile\<close> reports \<open>kOk\<close> and unlinks the two files all the same. The metadata file
  still names them, and the database cannot be opened any more: recovery ends with \<open>kIOError\<close> at
  the first file that is not there.
\<close>

lemma unlogged_removal:
  assumes "pedrolib_ok P" "fm_ok P cap logs s" "io_good io" "mm_files (fm_meta s) = fid # fids" "fid \<noteq> fm_active_id s"
    and "path_valid (mm_path (fm_meta s))" "opt_cache_segments opts \<noteq> 0"
  shows "\<exists>s'. fm_RemoveFile P (no_write io) fid s = (kOk, s')
     \<and> db_Open P cap io opts (mm_path (fm_meta s)) buf (fm_fs s') = Some (kIOError, None, fm_fs s')"
  by (rule fm_removal_no_write [OF assms])

section \<open>Failures and limits\<close>

text \<open>
  C38: A failed rotation ruins the file manager. When the next data file cannot be opened, the
  append reports \<open>kIOError\<close>, but the index log of the active file has already been given
  away: the next append that fits into the active file follows a null pointer, even when the
  file system has recovered.
\<close>

theorem failed_rotation:
  assumes "pedrolib_ok P" "fm_ok P cap logs s" "rec_wf e" "cap < log_size (logs (fm_active_id s)) + rec_size e"
    and "\<not> io_open io (mm_GetDataFilePath P (fm_meta s) (fm_active_id s + 1))"
    and "rec_wf e'" "log_size (logs (fm_active_id s)) + rec_size e' \<le> cap"
  shows "\<exists>s1. fm_Append P cap io e s = Some (kIOError, Location 0 0, s1) \<and> fm_Append P cap io' e' s1 = None"
proof -
  have aok: "active_ok P cap logs s" using assms(2) by (simp add: fm_ok_def)
  from active_okE [OF aok] obtain f log where f: "fm_data_file s = Some f" "fm_index_log s = Some log" by blast
  let ?s = "fm_retire s\<lparr>fm_fs := fm_fs s\<rparr>"
  have c: "fm_CreateFile P cap io (fm_active_id s + 1) s = Some (kIOError, ?s)"
    using assms(5) by (simp add: fm_CreateFile_def mrw_Open_def fs_open_def Let_def)
  have a: "fm_Append P cap io e s = Some (kIOError, Location 0 0, ?s)"
    by (subst fm_Append.simps) (simp add: fm_append_active_full [OF assms(1-4)] c)
  have s: "fm_data_file ?s = fm_data_file s" "fm_fs ?s = fm_fs s" "fm_index_log ?s = None"
    using f by (simp_all add: fm_retire_def)
  from fm_append_active_fits [OF assms(1,2,6,7)] obtain t loc where "fm_append_active P e' s = Some (Inr (loc, t))" by blast
  then have "fm_append_active P e' ?s = None"
    using f s by (auto simp: fm_append_active_def fm_append_file_def Let_def split: option.splits prod.splits if_splits)
  then have "fm_Append P cap io' e' ?s = None" by (subst fm_Append.simps) simp
  with a show ?thesis by blast
qed

lemma failed_rotation_witness:
  "\<exists>s s1. fm_Append list_pedrolib 4096 (io_fine\<lparr>io_open := \<lambda>_. False\<rparr>) (demo_entry [3] demo_big) s = Some (kIOError, Location 0 0, s1)
     \<and> fm_Append list_pedrolib 4096 io_fine (demo_entry [3] [9]) s1 = None"
proof -
  obtain s where s: "demo_two s" using demo_two_ex by blast
  note d = demo_twoD [OF s]
  have a: "fm_active_id (db_fm s) = 2" using d(7) by (simp add: db_active_def)
  from failed_rotation [OF list_pedrolib_ok db_okD(1) [OF d(1)], of "demo_entry [3] demo_big" "io_fine\<lparr>io_open := \<lambda>_. False\<rparr>"
      "demo_entry [3] [9]" io_fine] a
  show ?thesis by (auto simp: rec_wf_def rec_size_def)
qed



text \<open>
  C39: Values of four gigabytes and more pass the size check. The size of a record is computed in
  32 bits; when it wraps to one that fits, the put writes the value outside the mapping of the
  file.
\<close>

theorem oversized_put:
  assumes "pedrolib_ok P" "db_ok P cap logs s" "\<not> db_readonly s" "cap < length (re_value (db_entry P s key val))"
    and "log_size (logs (db_active s)) + rec_size (db_entry P s key val) mod 2 ^ 32 \<le> cap"
  shows "db_Put P cap io sync key val s = None"
proof -
  let ?e = "db_entry P s key val" and ?fm = "db_fm s"
  have fm: "disk_ok P cap logs (fm_fs ?fm) (fm_meta ?fm)" "active_ok P cap logs ?fm"
    using db_okD(1) [OF assms(2)] by (simp_all add: fm_ok_def)
  from active_okE [OF fm(2)] obtain f log where f: "fm_data_file ?fm = Some f" "fm_index_log ?fm = Some log"
    "fs_links (fm_fs ?fm) (mm_GetDataFilePath P (fm_meta ?fm) (fm_active_id ?fm)) = Some (mrw_ino f)" "mrw_length f = cap"
    "mrw_write_index f = log_size (logs (fm_active_id ?fm))" .
  let ?mem = "fs_data (fm_fs ?fm) (mrw_ino f)" and ?n = "unat (rec_sizeof ?e)"
  have act: "fm_active_id ?fm \<in> set (mm_files (fm_meta ?fm))" using fm(2) by (simp add: active_ok_def)
  have len: "length ?mem = cap" "cap < 2 ^ 32"
    using log_file_length [OF _ disk_ok_log [OF fm(1) act f(3)]] disk_okD(2) [OF fm(1)] assms(1) by simp_all
  have n: "?n = rec_size ?e mod 2 ^ 32" by (rule rec_sizeof_mod)
  have inv: "mrw_inv (fm_fs ?fm) f" using f len assms(5) by (simp add: mrw_inv_def db_active_def)
  let ?b = "writable_buffer_new ?mem (Some (mrw_write_index f)) ?n (mrw_write_index f)"
  have alloc: "mrw_Allocate ?n (fm_fs ?fm) f = (?b, f\<lparr>mrw_write_index := mrw_write_index f + ?n\<rparr>)"
    by (rule mrw_Allocate_fits [OF inv]) (use f assms(5) n in \<open>simp add: db_active_def\<close>)
  have "?n < 2 ^ 64" using n len assms(5) by simp
  then have "wbf_WritableBytes ?b = ?n" by (simp add: wbf_WritableBytes_def writable_buffer_new_def)
  then have "rec_pack P wbf_ops ?e ?b = None"
    by (rule rec_pack_overflow) (use assms(4) len in \<open>simp add: writable_buffer_new_def\<close>)
  moreover have "wbf_GetOffset ?b \<noteq> size_max"
    using f assms(5) len by (simp add: wbf_GetOffset_def writable_buffer_new_def size_max_def db_active_def)
  ultimately have "fm_append_active P ?e ?fm = None" using f(1) alloc by (simp add: fm_append_active_def fm_append_file_def Let_def)
  then have "fm_Append P cap io ?e ?fm = None" by (subst fm_Append.simps) simp
  moreover have "?n \<le> cap" using n assms(5) by simp
  ultimately show ?thesis using assms(3) by (simp add: db_Put_def db_HandlePut_def Let_def)
qed

lemma oversized_put_witness:
  "\<exists>s. demo_two s \<and> db_Put list_pedrolib 4096 io_fine False [3] (replicate (2 ^ 32) 1) s = None"
proof -
  obtain s where s: "demo_two s" using demo_two_ex by blast
  note d = demo_twoD [OF s]
  have e: "db_entry list_pedrolib s [3] (replicate (2 ^ 32) 1) = demo_entry [3] (replicate (2 ^ 32) 1)"
    using demo_entry [of s] d(5) by simp
  have r: "rec_size (demo_entry [3] (replicate (2 ^ 32) 1)) mod 2 ^ 32 = 15" by (simp add: rec_size_def)
  show ?thesis
    using oversized_put [OF list_pedrolib_ok d(1,4), of "[3]" "replicate (2 ^ 32) 1" io_fine False] d(7) s unfolding e r
    by (auto simp: rec_size_def)
qed

text \<open>
  C40: A record that fills its file. A put whose record ends with the last byte of the active file
  reports \<open>kOk\<close>, and the index leads to it, but a get that does not use the read cache
  reports \<open>kCorruption\<close>.
\<close>

theorem put_fills_file:
  assumes "pedrolib_ok P" "db_ok P cap logs s" "io_good io" "\<not> db_readonly s" "db_fits P cap s key val"
    and "db_active s \<noteq> -1" "val \<noteq> []" "log_size (logs (db_active s)) + rec_size (db_entry P s key val) = cap"
  shows "\<exists>s1 s2 logs'. db_Put P cap io sync key val s = Some (kOk, s1) \<and> db_abs P logs' s1 key = Some val
     \<and> db_Get P io False key s1 = Some (kCorruption, None, s2)"
proof -
  let ?e = "db_entry P s key val"
  from db_HandlePut_ok [OF assms(1-6), of sync] assms(7) obtain s1 logs' loc where s1:
    "db_HandlePut P cap io sync key val s = Some (kOk, s1)" "db_ok P cap logs' s1" "db_current s1"
    "db_abs P logs' s1 = (db_abs P logs s)(key := Some val)" "appended cap logs (db_fm s) ?e loc logs' (db_fm s1)"
    "db_indices s1 = replay_entry loc ?e (db_indices s)" by auto
  have cap: "cap < 2 ^ 32" using appended_log_bound(2) [OF db_okD(1) [OF assms(2)]] active_files(4) [OF db_okD(1) [OF assms(2)]] by blast
  have loc: "loc = Location (db_active s) (of_nat (log_size (logs (db_active s))))"
    using s1(5) assms(8) by (simp add: appended_def db_active_def Let_def)
  have "db_indices s1 key = Some \<lparr>dir_entry_size = rec_sizeof ?e, dir_loc = loc\<rparr>"
    using s1(6) db_entry_wf(4,5) [OF assms(5) cap assms(1)] assms(7) by (simp add: replay_entry_def)
  moreover have "unat (loc_offset loc) + unat (rec_sizeof ?e) = cap" using assms(8) cap loc by simp
  ultimately have "db_shadowed cap False key s1" by (simp add: db_shadowed_def db_direct_def)
  with db_HandleGet_ok [OF assms(1) s1(2) assms(3) s1(3), of False key] s1(4)
  obtain s2 where "db_HandleGet P io False key s1 = Some (kCorruption, None, s2)" by auto
  with s1(1,4) show ?thesis by (intro exI [of _ s1] exI [of _ s2] exI [of _ logs']) (simp add: db_Put_def db_Get_def)
qed

lemma put_fills_file_witness:
  "\<exists>s s1 s2. demo_two s \<and> db_Put list_pedrolib 4096 io_fine False [3] (replicate 66 1) s = Some (kOk, s1)
     \<and> db_Get list_pedrolib io_fine False [3] s1 = Some (kCorruption, None, s2)"
proof -
  obtain s where s: "demo_two s" using demo_two_ex by blast
  note d = demo_twoD [OF s]
  have e: "db_entry list_pedrolib s [3] (replicate 66 1) = demo_entry [3] (replicate 66 1)" using demo_entry [of s] d(5) by simp
  have f: "db_fits list_pedrolib 4096 s [3] (replicate 66 1)" "db_active s \<noteq> -1"
    using d(5,7) by (simp_all add: db_fits_small db_small_def)
  have r: "log_size (demo_logs (db_active s)) + rec_size (db_entry list_pedrolib s [3] (replicate 66 1)) = 4096"
    unfolding e d(7) by (simp add: rec_size_def)
  from put_fills_file [OF list_pedrolib_ok d(1) io_good_fine d(4) f _ r, of False] s show ?thesis by auto
qed

text \<open>
  The metadata file is the list of the files. After a file has been created, and after one has
  been deleted, \<^verbatim>\<open>Init\<close> on the same file system rebuilds the manager with exactly
  these files.
\<close>

lemma metadata_survives:
  assumes "pedrolib_ok P" "mm_ok P fs m" "path_valid (mm_path m)" "io_good io"
  shows "\<exists>m1 fs1 m2 fs2. mm_CreateFile P io fid m fs = (kOk, m1, fs1)
     \<and> mm_Init P io (mm_new (mm_path m)) fs1 = Some (kOk, m1, fs1) \<and> mm_files m1 = set_emplace fid (mm_files m)
     \<and> mm_DeleteFile P io fid' m1 fs1 = (kOk, m2, fs2)
     \<and> mm_Init P io (mm_new (mm_path m)) fs2 = Some (kOk, m2, fs2) \<and> mm_files m2 = set_erase fid' (mm_files m1)"
proof -
  have io: "io_write io" "io_sync io" using assms(4) by simp_all
  from mm_CreateFile_ok [OF assms(1,2) io] obtain m1 fs1 where m1:
    "mm_CreateFile P io fid m fs = (kOk, m1, fs1)" "mm_ok P fs1 m1" "mm_files m1 = set_emplace fid (mm_files m)" "mm_path m1 = mm_path m"
    by blast
  from mm_DeleteFile_ok [OF assms(1) m1(2) io] obtain m2 fs2 where m2:
    "mm_DeleteFile P io fid' m1 fs1 = (kOk, m2, fs2)" "mm_ok P fs2 m2" "mm_files m2 = set_erase fid' (mm_files m1)"
    "mm_path m2 = mm_path m1" by blast
  show ?thesis
    using m1 m2 mm_Init_existing [OF assms(1) m1(2) _ assms(4)] mm_Init_existing [OF assms(1) m2(2) _ assms(4)] assms(3) by simp
qed

text \<open>
  \<^verbatim>\<open>RemoveFile\<close> of a file that is not the active one removes it from the metadata
  and keeps all others; from then on the file cannot be acquired, and every other one still can.
\<close>

lemma removed_file_gone:
  assumes "pedrolib_ok P" "fm_ok P cap logs s" "io_good io" "fid \<noteq> fm_active_id s"
  shows "\<exists>s'. fm_RemoveFile P io fid s = (kOk, s') \<and> fm_ok P cap logs s'
     \<and> mm_files (fm_meta s') = set_erase fid (mm_files (fm_meta s))
     \<and> fst (fm_AcquireDataFile P io fid s') = kIOError
     \<and> (\<forall>x \<in> set (mm_files (fm_meta s)). x \<noteq> fid \<longrightarrow> fst (fm_AcquireDataFile P io x s') = kOk)"
proof -
  from fm_RemoveFile_ok [OF assms] obtain s' where s': "fm_RemoveFile P io fid s = (kOk, s')" "fm_ok P cap logs s'"
    "fm_active_id s' = fm_active_id s" "mm_files (fm_meta s') = set_erase fid (mm_files (fm_meta s))" by blast
  have "fid \<notin> set (mm_files (fm_meta s'))" "fid \<noteq> fm_active_id s'" using s'(3,4) assms(4) by simp_all
  from fm_AcquireDataFile_missing [OF s'(2) this, of io]
  have "fst (fm_AcquireDataFile P io fid s') = kIOError" by auto
  moreover have "fst (fm_AcquireDataFile P io x s') = kOk" if "x \<in> set (mm_files (fm_meta s))" "x \<noteq> fid" for x
    using fm_AcquireDataFile_ok [OF assms(1) s'(2) assms(3), of x] that s'(4) by auto
  ultimately show ?thesis using s' by blast
qed

text \<open>
  Without cache segments nothing can be opened: the capacity of a segment is computed by a
  division by their number, which is the number of processors that the machine reports and may be
  zero.
\<close>

lemma no_segments:
  assumes "opt_cache_segments opts = 0"
  shows "db_Open P cap io opts name buf fs = None"
  by (rule db_new_without_segments [OF assms])

end
